(* ===== verification/Prelude.thy ===== *)
theory Prelude
  imports Main "HOL-Library.AList" "HOL-Library.Multiset" "HOL-Library.List_Lexorder"
    "HOL-Library.Char_ord"
begin

text \<open>
  Shared vocabulary of the development.

  \<^item> Go strings are byte strings: \<^typ>\<open>string\<close> with the byte-wise lexicographic order of
    \<^theory_text>\<open>List_Lexorder\<close> and \<^theory_text>\<open>Char_ord\<close>, which is the order \<open>sort.Strings\<close> uses.
  \<^item> A Go map is a list of key/value pairs with distinct keys (\<open>gomap\<close>). A read of a
    missing key yields the zero value, as in Go (\<open>mget\<close>); the comma-ok form is \<open>mlookup\<close>.
    The order of the list is the order in which a \<open>range\<close> loop visits the map. Go leaves that
    order open, and so does every theorem: none fixes the order of a map's entries.
  \<^item> An operation that returns \<open>(T, error)\<close> returns a sum, with \<open>Inl\<close> for the error.

  The locale \<open>go_map\<close> states the contract of a map; the association lists are its instance and
  the components use the facts of that instance.
\<close>

section \<open>Rule collections\<close>

named_theorems map_laws "rewrite rules for map reads after map writes"
named_theorems component_defs "definitions of the small operations of the components"

section \<open>Go maps\<close>

type_synonym ('k, 'v) gomap = "('k \<times> 'v) list"

definition mlookup :: "('k, 'v) gomap \<Rightarrow> 'k \<Rightarrow> 'v option" where
  "mlookup m k = map_of m k"

definition mget :: "'v \<Rightarrow> ('k, 'v) gomap \<Rightarrow> 'k \<Rightarrow> 'v" where
  "mget z m k = (case map_of m k of None \<Rightarrow> z | Some v \<Rightarrow> v)"

definition mput :: "'k \<Rightarrow> 'v \<Rightarrow> ('k, 'v) gomap \<Rightarrow> ('k, 'v) gomap" where
  "mput k v m = AList.update k v m"

definition mdel :: "'k \<Rightarrow> ('k, 'v) gomap \<Rightarrow> ('k, 'v) gomap" where
  "mdel k m = AList.delete k m"

definition mkeys :: "('k, 'v) gomap \<Rightarrow> 'k list" where
  "mkeys m = map fst m"

definition mlen :: "('k, 'v) gomap \<Rightarrow> nat" where
  "mlen m = length m"

definition mwf :: "('k, 'v) gomap \<Rightarrow> bool" where
  "mwf m = distinct (map fst m)"

section \<open>The contract of a map\<close>

locale go_map =
  fixes lookup :: "'m \<Rightarrow> 'k \<Rightarrow> 'v option"
    and empty :: "'m"
    and put :: "'k \<Rightarrow> 'v \<Rightarrow> 'm \<Rightarrow> 'm"
    and del :: "'k \<Rightarrow> 'm \<Rightarrow> 'm"
    and keys :: "'m \<Rightarrow> 'k list"
    and inv :: "'m \<Rightarrow> bool"
  assumes lookup_empty: "lookup empty k = None"
    and lookup_put: "lookup (put k v m) k' = (if k' = k then Some v else lookup m k')"
    and lookup_del: "lookup (del k m) k' = (if k' = k then None else lookup m k')"
    and set_keys: "set (keys m) = {k. lookup m k \<noteq> None}"
    and inv_empty: "inv empty"
    and inv_put: "inv m \<Longrightarrow> inv (put k v m)"
    and inv_del: "inv m \<Longrightarrow> inv (del k m)"
    and distinct_keys: "inv m \<Longrightarrow> distinct (keys m)"
begin

lemma length_keys: "inv m \<Longrightarrow> length (keys m) = card {k. lookup m k \<noteq> None}"
  using distinct_card [OF distinct_keys] set_keys by metis

lemma finite_dom: "finite {k. lookup m k \<noteq> None}"
  by (metis List.finite_set set_keys)

lemma length_keys_put_new:
  "inv m \<Longrightarrow> lookup m k = None \<Longrightarrow> length (keys (put k v m)) = Suc (length (keys m))"
proof -
  assume m: "inv m" and new: "lookup m k = None"
  have "{k'. lookup (put k v m) k' \<noteq> None} = insert k {k'. lookup m k' \<noteq> None}"
    by (auto simp: lookup_put)
  then have "length (keys (put k v m)) = card (insert k {k'. lookup m k' \<noteq> None})"
    by (simp only: length_keys [OF inv_put [OF m]])
  also have "\<dots> = Suc (card {k'. lookup m k' \<noteq> None})"
    by (rule card_insert_disjoint [OF finite_dom]) (simp add: new)
  finally show ?thesis
    by (simp only: length_keys [OF m])
qed

lemma length_keys_put_old:
  "inv m \<Longrightarrow> lookup m k \<noteq> None \<Longrightarrow> length (keys (put k v m)) = length (keys m)"
proof -
  assume m: "inv m" and old: "lookup m k \<noteq> None"
  have "{k'. lookup (put k v m) k' \<noteq> None} = {k'. lookup m k' \<noteq> None}"
    using old by (auto simp: lookup_put)
  then show ?thesis by (simp add: length_keys m inv_put)
qed

lemma put_put_commute:
  "k \<noteq> k' \<Longrightarrow> lookup (put k v (put k' v' m)) = lookup (put k' v' (put k v m))"
  by (auto simp: fun_eq_iff lookup_put)

lemma del_put: "lookup (del k (put k v m)) = lookup (del k m)"
  by (auto simp: fun_eq_iff lookup_put lookup_del)

end

lemma map_of_update: "map_of (AList.update k v m) k' = (if k' = k then Some v else map_of m k')"
  by (simp add: update_conv')

lemma map_of_delete: "map_of (AList.delete k m) k' = (if k' = k then None else map_of m k')"
  by (simp add: delete_conv')

interpretation gm: go_map mlookup "[]" mput mdel mkeys mwf
proof unfold_locales
  show "mwf m \<Longrightarrow> mwf (mput k v m)" for m :: "('a, 'b) gomap" and k v
    by (simp add: mwf_def mput_def distinct_update)
  show "mwf m \<Longrightarrow> mwf (mdel k m)" for m :: "('a, 'b) gomap" and k
    by (simp add: mwf_def mdel_def distinct_delete)
  show "set (mkeys m) = {k. mlookup m k \<noteq> None}" for m :: "('a, 'b) gomap"
    by (auto simp: mkeys_def mlookup_def dom_def map_of_eq_None_iff image_iff)
qed (simp_all add: mlookup_def mput_def mdel_def mkeys_def mwf_def map_of_update map_of_delete)

lemma mget_mlookup: "mget z m k = (case mlookup m k of None \<Rightarrow> z | Some v \<Rightarrow> v)"
  by (simp add: mget_def mlookup_def)

lemma mget_empty [simp, map_laws]: "mget z [] k = z"
  by (simp add: mget_def)

lemma mget_put [simp, map_laws]: "mget z (mput k v m) k' = (if k' = k then v else mget z m k')"
  by (simp add: mget_mlookup gm.lookup_put)

lemma mget_del [simp, map_laws]: "mget z (mdel k m) k' = (if k' = k then z else mget z m k')"
  by (simp add: mget_mlookup gm.lookup_del)

lemmas [simp, map_laws] = gm.lookup_empty gm.lookup_put gm.lookup_del

lemmas [simp, intro] = gm.inv_empty gm.inv_put gm.inv_del

lemma mkeys_put [simp]: "set (mkeys (mput k v m)) = insert k (set (mkeys m))"
  by (auto simp: gm.set_keys)

lemma mkeys_del [simp]: "set (mkeys (mdel k m)) = set (mkeys m) - {k}"
  by (auto simp: gm.set_keys)

lemma mkeys_empty [simp]: "mkeys [] = []"
  by (simp add: mkeys_def)

lemma mlen_keys: "mlen m = length (mkeys m)"
  by (simp add: mlen_def mkeys_def)

lemma mlookup_None_keys: "mlookup m k = None \<longleftrightarrow> k \<notin> set (mkeys m)"
  by (simp add: gm.set_keys)

lemma mlookup_Some_keys: "mlookup m k = Some v \<Longrightarrow> k \<in> set (mkeys m)"
  by (simp add: gm.set_keys)

lemma mget_notin: "k \<notin> set (mkeys m) \<Longrightarrow> mget z m k = z"
  by (simp add: mget_mlookup gm.set_keys)

lemma mlen_put:
  "mwf m \<Longrightarrow> mlen (mput k v m) = (if k \<in> set (mkeys m) then mlen m else Suc (mlen m))"
  by (simp add: mlen_keys gm.set_keys gm.length_keys_put_new gm.length_keys_put_old)

lemma mlen_card: "mwf m \<Longrightarrow> mlen m = card (set (mkeys m))"
  by (simp add: mlen_keys gm.distinct_keys distinct_card)

text \<open>The keys a \<open>map[string]bool\<close> holds with value \<open>true\<close>: Go's idiom for a set.\<close>

definition mset_keys :: "('k, bool) gomap \<Rightarrow> 'k set" where
  "mset_keys m = {k. mget False m k}"

lemma mset_keys_empty [simp]: "mset_keys [] = {}"
  by (simp add: mset_keys_def)

lemma mset_keys_put [simp]: "mset_keys (mput k True m) = insert k (mset_keys m)"
  by (auto simp: mset_keys_def)

lemma mem_mset_keys: "k \<in> mset_keys m \<longleftrightarrow> mget False m k"
  by (simp add: mset_keys_def)

lemma mset_keys_subset: "mset_keys m \<subseteq> set (mkeys m)"
  using mget_notin by (fastforce simp: mset_keys_def)

lemma finite_mset_keys [simp]: "finite (mset_keys m)"
  by (rule finite_subset [OF mset_keys_subset]) simp

section \<open>Generic lemmas on lists\<close>

lemma count_list_map_filter_le: "count_list (filter P xs) x \<le> count_list xs x"
  by (induction xs) auto

lemma sort_distinct_unique:
  fixes xs ys :: "'a::linorder list"
  shows "distinct xs \<Longrightarrow> distinct ys \<Longrightarrow> set xs = set ys \<Longrightarrow> sort xs = sort ys"
  by (metis set_eq_iff_mset_eq_distinct sorted_list_of_multiset_mset)

end
