(* ===== verification/Dag.thy ===== *)
theory Dag
  imports Prelude
begin

text \<open>
  The dependency graph of the scheduler (\<open>src/internal/scheduler/dag.go\<close>): the record \<open>dag\<close>
  has the four maps of the Go struct, and each method is one definition. The search loops
  (\<open>reachable\<close>, the three-colour search of \<open>Validate\<close>) are recursive functions with
  termination proofs. The lemmas show that \<open>AddEdge\<close> keeps the graph acyclic, that both searches
  decide what they are meant to decide, and that in-degrees count the incomplete predecessors.
  The locale \<open>dependency_graph\<close> is what the scheduler relies on.
\<close>

section \<open>State and operations\<close>

datatype dag_error =
    SelfLoop string
  | NodeNotFound string
  | WouldCycle string string
  | EmptyGraph
  | CycleDetected string

record dag =
  nodes :: "(string, bool) gomap"
  edges :: "(string, string list) gomap"
  inDegree :: "(string, int) gomap"
  completed :: "(string, bool) gomap"

definition NewDAG :: dag where
  "NewDAG = \<lparr>nodes = [], edges = [], inDegree = [], completed = []\<rparr>"

definition AddNode :: "string \<Rightarrow> dag \<Rightarrow> dag" where
  "AddNode n d =
     (if mget False (nodes d) n then d
      else let d1 = d\<lparr>nodes := mput n True (nodes d)\<rparr>
           in case mlookup (inDegree d1) n of
                None \<Rightarrow> d1\<lparr>inDegree := mput n 0 (inDegree d1)\<rparr>
              | Some _ \<Rightarrow> d1)"

abbreviation succs :: "(string, string list) gomap \<Rightarrow> string \<Rightarrow> string list" where
  "succs es \<equiv> mget [] es"

text \<open>
  The stack is a list whose head is the top. \<open>push_succs\<close> is the inner loop: \<^term>\<open>None\<close> is its
  early \<open>return true\<close>.
\<close>

fun push_succs :: "string \<Rightarrow> string list \<Rightarrow> string list \<Rightarrow> string list option" where
  "push_succs target [] stack = Some stack"
| "push_succs target (next # rest) stack =
     (if next = target then None else push_succs target rest (next # stack))"

text \<open>The nodes an edge map mentions, a finite set: what bounds the two searches.\<close>

definition edge_nodes :: "(string, string list) gomap \<Rightarrow> string set" where
  "edge_nodes es = set (mkeys es) \<union> (\<Union>k \<in> set (mkeys es). set (succs es k))"

lemma finite_edge_nodes [simp]: "finite (edge_nodes es)"
  by (simp add: edge_nodes_def)

lemma succs_outside: "k \<notin> edge_nodes es \<Longrightarrow> succs es k = []"
  by (simp add: edge_nodes_def mget_notin)

lemma succs_edge_nodes: "x \<in> set (succs es k) \<Longrightarrow> x \<in> edge_nodes es"
  by (cases "k \<in> set (mkeys es)") (auto simp: edge_nodes_def mget_notin)

lemma push_succs_Some: "push_succs t ns st = Some st' \<longleftrightarrow> t \<notin> set ns \<and> st' = rev ns @ st"
  by (induction ns arbitrary: st) auto

lemma push_succs_None: "push_succs t ns st = None \<longleftrightarrow> t \<in> set ns"
  by (induction ns arbitrary: st) auto

function reach_loop ::
  "(string, string list) gomap \<Rightarrow> string \<Rightarrow> (string, bool) gomap \<Rightarrow> string list \<Rightarrow> bool" where
  "reach_loop es target visited [] = False"
| "reach_loop es target visited (cur # stack) =
     (if mget False visited cur then reach_loop es target visited stack
      else case push_succs target (succs es cur) stack of
             None \<Rightarrow> True
           | Some stack' \<Rightarrow> reach_loop es target (mput cur True visited) stack')"
  by pat_completeness auto
termination
proof (relation "inv_image (finite_psubset <*lex*> less_than)
    (\<lambda>(es, t, vis, st). (edge_nodes es - mset_keys vis, length st))", goal_cases)
  case 1
  show ?case by auto
next
  case (2 es target visited cur stack)
  then show ?case by simp
next
  case (3 es target visited cur stack stack')
  then have new: "cur \<notin> mset_keys visited" and st: "stack' = rev (succs es cur) @ stack"
    by (simp_all add: push_succs_Some mem_mset_keys)
  show ?case
  proof (cases "cur \<in> edge_nodes es")
    case True
    with new have "edge_nodes es - insert cur (mset_keys visited) \<subset> edge_nodes es - mset_keys visited"
      by blast
    then show ?thesis by (simp add: finite_psubset_def)
  next
    case False
    then have "edge_nodes es - insert cur (mset_keys visited) = edge_nodes es - mset_keys visited"
      by blast
    with False st show ?thesis by (simp add: succs_outside)
  qed
qed

definition reachable :: "dag \<Rightarrow> string \<Rightarrow> string \<Rightarrow> bool" where
  "reachable d start target =
     (if start = target then True else reach_loop (edges d) target [] [start])"

definition AddEdge :: "string \<Rightarrow> string \<Rightarrow> dag \<Rightarrow> dag_error + dag" where
  "AddEdge from to d =
     (if from = to then Inl (SelfLoop from)
      else if \<not> mget False (nodes d) from then Inl (NodeNotFound from)
      else if \<not> mget False (nodes d) to then Inl (NodeNotFound to)
      else if reachable d to from then Inl (WouldCycle from to)
      else Inr (d\<lparr>edges := mput from (mget [] (edges d) from @ [to]) (edges d),
                  inDegree := mput to (mget 0 (inDegree d) to + 1) (inDegree d)\<rparr>))"

definition Ready :: "dag \<Rightarrow> string list" where
  "Ready d = sort (filter (\<lambda>n. \<not> mget False (completed d) n \<and> mget 0 (inDegree d) n = 0)
                     (mkeys (nodes d)))"

text \<open>The loop of \<open>Complete\<close> over the successors, with the slice \<open>newlyReady\<close> it appends to.\<close>

fun release :: "string list \<Rightarrow> dag \<Rightarrow> string list \<Rightarrow> dag \<times> string list" where
  "release [] d newlyReady = (d, newlyReady)"
| "release (succ # rest) d newlyReady =
     (let d1 = d\<lparr>inDegree := mput succ (mget 0 (inDegree d) succ - 1) (inDegree d)\<rparr>
      in release rest d1
           (if mget 0 (inDegree d1) succ = 0 \<and> \<not> mget False (completed d1) succ
            then newlyReady @ [succ] else newlyReady))"

definition Complete :: "string \<Rightarrow> dag \<Rightarrow> dag \<times> string list" where
  "Complete n d =
     (if mget False (completed d) n then (d, [])
      else let d1 = d\<lparr>completed := mput n True (completed d)\<rparr>
           in release (mget [] (edges d1) n) d1 [])"

definition Size :: "dag \<Rightarrow> nat" where
  "Size d = mlen (nodes d)"

definition Remaining :: "dag \<Rightarrow> int" where
  "Remaining d = int (mlen (nodes d)) - int (mlen (completed d))"

definition Dependents :: "dag \<Rightarrow> string \<Rightarrow> string list" where
  "Dependents d n = mget [] (edges d) n"

section \<open>Cycle detection by three-colour search\<close>

datatype color = White | Gray | Black

type_synonym coloring = "(string, color) gomap"

definition whites :: "(string, string list) gomap \<Rightarrow> coloring \<Rightarrow> string set" where
  "whites es c = {n \<in> edge_nodes es. mget White c n = White}"

lemma finite_whites [simp]: "finite (whites es c)"
  by (simp add: whites_def)

lemma whites_Gray [simp]: "whites es (mput n Gray c) = whites es c - {n}"
  by (auto simp: whites_def)

lemma whites_Black [simp]: "whites es (mput n Black c) = whites es c - {n}"
  by (auto simp: whites_def)

function dfs :: "(string, string list) gomap \<Rightarrow> string \<Rightarrow> coloring \<Rightarrow> dag_error + coloring"
  and dfs_succs ::
    "(string, string list) gomap \<Rightarrow> string list \<Rightarrow> coloring \<Rightarrow> dag_error + coloring" where
  "dfs es n c =
     (case dfs_succs es (succs es n) (mput n Gray c) of
        Inl e \<Rightarrow> Inl e
      | Inr c' \<Rightarrow> Inr (mput n Black c'))"
| "dfs_succs es [] c = Inr c"
| "dfs_succs es (succ # rest) c =
     (case mget White c succ of
        Gray \<Rightarrow> Inl (CycleDetected succ)
      | White \<Rightarrow> (case dfs es succ c of Inl e \<Rightarrow> Inl e | Inr c' \<Rightarrow> dfs_succs es rest c')
      | Black \<Rightarrow> dfs_succs es rest c)"
  by pat_completeness auto

lemma dfs_whites_partial:
  "dfs_dfs_succs_dom (Inl (es, n, c)) \<Longrightarrow> dfs es n c = Inr c1 \<Longrightarrow> whites es c1 \<subseteq> whites es c"
  "dfs_dfs_succs_dom (Inr (es, ss, c)) \<Longrightarrow> dfs_succs es ss c = Inr c1 \<Longrightarrow>
     whites es c1 \<subseteq> whites es c"
proof (induction es n c and es ss c arbitrary: c1 and c1 rule: dfs_dfs_succs.pinduct)
  case (1 es n c)
  then show ?case by (force simp: dfs.psimps split: sum.splits)
next
  case (2 es c)
  then show ?case by (simp add: dfs_succs.psimps)
next
  case (3 es succ rest c)
  show ?case
  proof (cases "mget White c succ")
    case White
    with 3 obtain c' where "dfs es succ c = Inr c'" "dfs_succs es rest c' = Inr c1"
      by (auto simp: dfs_succs.psimps split: sum.splits)
    with 3 White show ?thesis by (meson order_trans)
  next
    case Gray
    with 3 show ?thesis by (simp add: dfs_succs.psimps)
  next
    case Black
    with 3 show ?thesis by (simp add: dfs_succs.psimps)
  qed
qed

termination dfs
proof (relation "inv_image (less_than <*lex*> less_than)
    (\<lambda>x. case x of
       Inl (es, n, c) \<Rightarrow> (card (whites es c - {n}), 2 * length (succs es n) + 1)
     | Inr (es, ss, c) \<Rightarrow> (card (whites es c), 2 * length ss))", goal_cases)
  case 1
  show ?case by auto
next
  case (2 es n c)
  show ?case by simp
next
  case (3 es succ rest c)
  show ?case
  proof (cases "succ \<in> edge_nodes es")
    case True
    with 3 have "succ \<in> whites es c" by (simp add: whites_def)
    then have "card (whites es c - {succ}) < card (whites es c)"
      by (rule card_Diff1_less [OF finite_whites])
    then show ?thesis by simp
  next
    case False
    then have "whites es c - {succ} = whites es c" by (auto simp: whites_def)
    with False show ?thesis by (simp add: succs_outside)
  qed
next
  case (4 es succ rest c c')
  then have "whites es c' \<subseteq> whites es c" by (metis dfs_whites_partial(1))
  then have "card (whites es c') \<le> card (whites es c)" by (simp add: card_mono)
  then show ?case by auto
next
  case (5 es succ rest c)
  show ?case by simp
qed

declare dfs.simps [simp del]

text \<open>The loop of \<open>Validate\<close> over \<open>range d.nodes\<close>.\<close>

fun validate_nodes :: "(string, string list) gomap \<Rightarrow> string list \<Rightarrow> coloring \<Rightarrow> dag_error option"
where
  "validate_nodes es [] c = None"
| "validate_nodes es (n # rest) c =
     (if mget White c n = White
      then (case dfs es n c of Inl e \<Rightarrow> Some e | Inr c' \<Rightarrow> validate_nodes es rest c')
      else validate_nodes es rest c)"

definition Validate :: "dag \<Rightarrow> dag_error option" where
  "Validate d =
     (if mlen (nodes d) = 0 then Some EmptyGraph
      else validate_nodes (edges d) (mkeys (nodes d)) [])"

section \<open>Reachability\<close>

definition erel :: "(string, string list) gomap \<Rightarrow> (string \<times> string) set" where
  "erel es = {(a, b). b \<in> set (succs es a)}"

lemma erel_iff: "(a, b) \<in> erel es \<longleftrightarrow> b \<in> set (succs es a)"
  by (simp add: erel_def)

lemma closed_rtrancl: "(x, y) \<in> R\<^sup>* \<Longrightarrow> x \<in> S \<Longrightarrow> R `` S \<subseteq> S \<Longrightarrow> y \<in> S"
  by (induction rule: rtrancl_induct) auto

lemma reach_loop_correct:
  assumes "\<And>v. v \<in> mset_keys vis \<Longrightarrow> set (succs es v) \<subseteq> mset_keys vis \<union> set st"
    and "t \<notin> mset_keys vis \<union> set st"
  shows "reach_loop es t vis st \<longleftrightarrow> (\<exists>x \<in> mset_keys vis \<union> set st. (x, t) \<in> (erel es)\<^sup>*)"
  using assms
proof (induction es t vis st rule: reach_loop.induct)
  case (1 es t vis)
  then have "erel es `` mset_keys vis \<subseteq> mset_keys vis" by (fastforce simp: erel_iff)
  with 1 show ?case by (auto dest: closed_rtrancl)
next
  case (2 es t vis cur st)
  show ?case
  proof (cases "mget False vis cur")
    case True
    then have "mset_keys vis \<union> set (cur # st) = mset_keys vis \<union> set st"
      by (auto simp: mem_mset_keys)
    with True 2 show ?thesis by auto
  next
    case False
    show ?thesis
    proof (cases "t \<in> set (succs es cur)")
      case True
      then have "(cur, t) \<in> (erel es)\<^sup>*" by (auto simp: erel_iff)
      with True False show ?thesis by (simp add: push_succs_None [THEN iffD2])
    next
      case nt: False
      let ?vis = "mput cur True vis" and ?st = "rev (succs es cur) @ st"
      have "reach_loop es t ?vis ?st \<longleftrightarrow>
          (\<exists>x \<in> mset_keys ?vis \<union> set ?st. (x, t) \<in> (erel es)\<^sup>*)"
        using False nt 2(3,4) by (intro 2(2)) (fastforce simp: push_succs_Some)+
      also have "\<dots> \<longleftrightarrow> (\<exists>x \<in> mset_keys vis \<union> set (cur # st). (x, t) \<in> (erel es)\<^sup>*)"
        by (auto simp: erel_iff intro: converse_rtrancl_into_rtrancl)
      finally show ?thesis
        using False nt by (simp add: push_succs_Some [THEN iffD2])
    qed
  qed
qed

lemma reachable_iff: "reachable d s t \<longleftrightarrow> (s, t) \<in> (erel (edges d))\<^sup>*"
  using reach_loop_correct [of "[]" "edges d" "[s]" t] by (auto simp: reachable_def simp del: reach_loop.simps)

section \<open>Soundness and completeness of the cycle check\<close>

definition grays :: "coloring \<Rightarrow> string set" where
  "grays c = {n. mget White c n = Gray}"

definition blacks :: "coloring \<Rightarrow> string set" where
  "blacks c = {n. mget White c n = Black}"

text \<open>Everything below a black node is black, and no cycle passes through it.\<close>

definition black_ok :: "(string, string list) gomap \<Rightarrow> coloring \<Rightarrow> bool" where
  "black_ok es c \<longleftrightarrow>
     (\<forall>b \<in> blacks c. set (succs es b) \<subseteq> blacks c \<and> (b, b) \<notin> (erel es)\<^sup>+)"

lemma dfs_grays:
  "dfs es n c = Inr c1 \<Longrightarrow> mget White c n = White \<Longrightarrow> grays c1 = grays c \<and> blacks c \<subseteq> blacks c1"
  "dfs_succs es ss c = Inr c1 \<Longrightarrow> grays c1 = grays c \<and> blacks c \<subseteq> blacks c1"
proof (induction es n c and es ss c arbitrary: c1 and c1 rule: dfs_dfs_succs.induct)
  case (1 es n c)
  then obtain c' where "dfs_succs es (succs es n) (mput n Gray c) = Inr c'"
    and c1: "c1 = mput n Black c'" by (auto simp: dfs.simps split: sum.splits)
  with 1 have "grays c' = grays (mput n Gray c)" "blacks (mput n Gray c) \<subseteq> blacks c'" by auto
  with 1(3) c1 show ?case by (auto simp: grays_def blacks_def set_eq_iff split: if_splits)
next
  case (3 es succ rest c)
  then show ?case by (fastforce split: color.splits sum.splits)
qed simp

lemma dfs_black_ok:
  "dfs es n c = Inr c1 \<Longrightarrow> mget White c n = White \<Longrightarrow> black_ok es c \<Longrightarrow>
     black_ok es c1 \<and> n \<in> blacks c1"
  "dfs_succs es ss c = Inr c1 \<Longrightarrow> black_ok es c \<Longrightarrow> black_ok es c1 \<and> set ss \<subseteq> blacks c1"
proof (induction es n c and es ss c arbitrary: c1 and c1 rule: dfs_dfs_succs.induct)
  case (1 es n c)
  then obtain c' where c': "dfs_succs es (succs es n) (mput n Gray c) = Inr c'"
    and c1: "c1 = mput n Black c'" by (auto simp: dfs.simps split: sum.splits)
  have "black_ok es (mput n Gray c)"
    using 1(3,4) by (fastforce simp: black_ok_def blacks_def)
  with 1 c' have ok: "black_ok es c'" and below: "set (succs es n) \<subseteq> blacks c'" by auto
  have "n \<in> grays (mput n Gray c)" by (simp add: grays_def)
  with dfs_grays(2) [OF c'] have "n \<in> grays c'" by simp
  then have n: "n \<notin> blacks c'" by (simp add: grays_def blacks_def)
  have B: "blacks c1 = insert n (blacks c')" by (auto simp: c1 blacks_def)
  have "(n, n) \<notin> (erel es)\<^sup>+"
  proof
    assume "(n, n) \<in> (erel es)\<^sup>+"
    then obtain y where "(n, y) \<in> erel es" and y: "(y, n) \<in> (erel es)\<^sup>*"
      by (meson tranclD)
    with below have "y \<in> blacks c'" by (auto simp: erel_iff)
    moreover have "erel es `` blacks c' \<subseteq> blacks c'"
      using ok by (fastforce simp: black_ok_def erel_iff)
    ultimately show False using y n by (auto dest: closed_rtrancl)
  qed
  with ok below show ?case by (auto simp: black_ok_def B)
next
  case (3 es succ rest c)
  show ?case
  proof (cases "mget White c succ")
    case White
    with 3 obtain c' where c': "dfs es succ c = Inr c'" "dfs_succs es rest c' = Inr c1"
      by (auto split: sum.splits)
    with 3 White show ?thesis using dfs_grays(2) [OF c'(2)] by auto
  next
    case Gray
    with 3 show ?thesis by simp
  next
    case Black
    with 3 show ?thesis using dfs_grays(2) [of es rest c c1] by (auto simp: blacks_def)
  qed
qed simp

lemma dfs_error_cycle:
  "dfs es n c = Inl e \<Longrightarrow> mget White c n = White \<Longrightarrow> \<forall>g \<in> grays c. (g, n) \<in> (erel es)\<^sup>* \<Longrightarrow>
     \<exists>x. e = CycleDetected x \<and> (x, x) \<in> (erel es)\<^sup>+"
  "dfs_succs es ss c = Inl e \<Longrightarrow> \<forall>g \<in> grays c. \<forall>s \<in> set ss. (g, s) \<in> (erel es)\<^sup>+ \<Longrightarrow>
     \<exists>x. e = CycleDetected x \<and> (x, x) \<in> (erel es)\<^sup>+"
proof (induction es n c and es ss c arbitrary: e and e rule: dfs_dfs_succs.induct)
  case (1 es n c)
  have "\<forall>g \<in> grays (mput n Gray c). \<forall>s \<in> set (succs es n). (g, s) \<in> (erel es)\<^sup>+"
    using 1(4) by (auto simp: grays_def erel_iff intro: rtrancl_into_trancl1)
  with 1 show ?case by (auto simp: dfs.simps split: sum.splits)
next
  case (3 es succ rest c)
  show ?case
  proof (cases "mget White c succ")
    case White
    show ?thesis
    proof (cases "dfs es succ c")
      case (Inl e')
      with 3 White show ?thesis by (auto intro: trancl_into_rtrancl)
    next
      case (Inr c')
      with 3 White dfs_grays(1) [OF Inr] show ?thesis by auto
    qed
  next
    case Gray
    with 3 show ?thesis by (auto simp: grays_def)
  next
    case Black
    with 3 show ?thesis by auto
  qed
qed simp

lemma validate_nodes_None:
  "validate_nodes es ns c = None \<Longrightarrow> black_ok es c \<Longrightarrow> grays c = {} \<Longrightarrow>
     \<forall>n \<in> set ns. (n, n) \<notin> (erel es)\<^sup>+"
proof (induction ns arbitrary: c)
  case (Cons n ns)
  show ?case
  proof (cases "mget White c n = White")
    case True
    with Cons.prems obtain c' where c': "dfs es n c = Inr c'" "validate_nodes es ns c' = None"
      by (auto split: sum.splits)
    with True Cons.prems dfs_grays(1) [OF c'(1)] dfs_black_ok(1) [OF c'(1)]
    have "black_ok es c'" "n \<in> blacks c'" "grays c' = {}" by auto
    with Cons.IH c'(2) show ?thesis by (auto simp: black_ok_def)
  next
    case False
    with Cons.prems have "n \<in> blacks c"
      by (cases "mget White c n") (auto simp: grays_def blacks_def)
    with False Cons show ?thesis by (auto simp: black_ok_def)
  qed
qed simp

lemma validate_nodes_Some:
  "validate_nodes es ns c = Some e \<Longrightarrow> grays c = {} \<Longrightarrow>
     \<exists>x. e = CycleDetected x \<and> (x, x) \<in> (erel es)\<^sup>+"
proof (induction ns arbitrary: c)
  case (Cons n ns)
  then show ?case
    using dfs_error_cycle(1) [of es n c] dfs_grays(1) [of es n c]
    by (fastforce split: if_splits sum.splits)
qed simp

lemma trancl_source_key: "(x, y) \<in> (erel es)\<^sup>+ \<Longrightarrow> x \<in> set (mkeys es)"
  by (cases "x \<in> set (mkeys es)") (auto simp: erel_iff mget_notin dest: tranclD)

lemma Validate_iff:
  assumes "set (mkeys (edges d)) \<subseteq> set (mkeys (nodes d))"
  shows "Validate d = None \<longleftrightarrow> nodes d \<noteq> [] \<and> acyclic (erel (edges d))"
proof -
  have [simp]: "black_ok es []" "grays [] = {}" for es
    by (auto simp: black_ok_def blacks_def grays_def)
  have "validate_nodes (edges d) (mkeys (nodes d)) [] = None \<longleftrightarrow> acyclic (erel (edges d))"
    using validate_nodes_None [of "edges d" "mkeys (nodes d)" "[]"]
      validate_nodes_Some [of "edges d" "mkeys (nodes d)" "[]"]
      assms trancl_source_key [of _ _ "edges d"]
    by (cases "validate_nodes (edges d) (mkeys (nodes d)) []") (auto simp: acyclic_def)
  then show ?thesis by (simp add: Validate_def mlen_def)
qed

section \<open>The graph invariant\<close>

definition node_set :: "dag \<Rightarrow> string set" where
  "node_set d = set (mkeys (nodes d))"

definition done_set :: "dag \<Rightarrow> string set" where
  "done_set d = set (mkeys (completed d))"

text \<open>The maps used as sets only ever hold \<open>true\<close>.\<close>

definition only_true :: "(string, bool) gomap \<Rightarrow> bool" where
  "only_true m \<longleftrightarrow> (\<forall>k \<in> set (mkeys m). mget False m k)"

text \<open>The number of edges into a node from nodes that are not completed.\<close>

definition open_preds :: "dag \<Rightarrow> string \<Rightarrow> nat" where
  "open_preds d n = (\<Sum>p \<in> node_set d - done_set d. count_list (succs (edges d) p) n)"

definition dag_wf :: "dag \<Rightarrow> bool" where
  "dag_wf d \<longleftrightarrow>
     mwf (nodes d) \<and> mwf (edges d) \<and> mwf (inDegree d) \<and> mwf (completed d) \<and>
     only_true (nodes d) \<and> only_true (completed d) \<and>
     set (mkeys (inDegree d)) = node_set d \<and>
     erel (edges d) \<subseteq> node_set d \<times> node_set d \<and>
     set (mkeys (edges d)) \<subseteq> node_set d \<and>
     done_set d \<subseteq> node_set d \<and>
     acyclic (erel (edges d)) \<and>
     (\<forall>n \<in> node_set d. mget 0 (inDegree d) n = int (open_preds d n))"

lemma only_true_get: "only_true m \<Longrightarrow> mget False m k \<longleftrightarrow> k \<in> set (mkeys m)"
  by (metis mget_notin only_true_def)

lemma only_true_put [simp]: "only_true m \<Longrightarrow> only_true (mput k True m)"
  by (auto simp: only_true_def)

lemma only_true_empty [simp]: "only_true []"
  by (simp add: only_true_def)

lemma wf_node: "dag_wf d \<Longrightarrow> mget False (nodes d) n \<longleftrightarrow> n \<in> node_set d"
  by (simp add: dag_wf_def node_set_def only_true_get)

lemma wf_done: "dag_wf d \<Longrightarrow> mget False (completed d) n \<longleftrightarrow> n \<in> done_set d"
  by (simp add: dag_wf_def done_set_def only_true_get)

lemma finite_node_set [simp]: "finite (node_set d)" "finite (done_set d)"
  by (simp_all add: node_set_def done_set_def)

lemma node_set_update [simp]:
  "node_set (edges_update f d) = node_set d" "node_set (inDegree_update g d) = node_set d"
  "node_set (completed_update h d) = node_set d" "done_set (edges_update f d) = done_set d"
  "done_set (inDegree_update g d) = done_set d" "done_set (nodes_update h d) = done_set d"
  by (simp_all add: node_set_def done_set_def)

lemma NewDAG_wf: "dag_wf NewDAG"
  by (simp add: dag_wf_def NewDAG_def node_set_def done_set_def erel_def acyclic_def)

lemma node_set_AddNode [simp]: "node_set (AddNode n d) = insert n (node_set d)"
  by (auto simp: AddNode_def node_set_def Let_def mget_notin split: option.splits)
    (metis mget_notin)+

lemma done_set_AddNode [simp]: "done_set (AddNode n d) = done_set d"
  by (simp add: AddNode_def done_set_def Let_def split: option.splits)

lemma edges_AddNode [simp]: "edges (AddNode n d) = edges d"
  by (simp add: AddNode_def Let_def split: option.splits)

lemma succs_fresh: "dag_wf d \<Longrightarrow> n \<notin> node_set d \<Longrightarrow> succs (edges d) n = []"
  by (auto simp: dag_wf_def intro!: mget_notin)

lemma count_fresh: "dag_wf d \<Longrightarrow> n \<notin> node_set d \<Longrightarrow> count_list (succs (edges d) p) n = 0"
  by (force simp: dag_wf_def erel_def count_list_0_iff)

lemma AddNode_wf: "dag_wf d \<Longrightarrow> dag_wf (AddNode n d)"
proof (cases "n \<in> node_set d")
  case True
  assume wf: "dag_wf d"
  with True have "AddNode n d = d" by (simp add: AddNode_def wf_node)
  with wf show ?thesis by simp
next
  case False
  assume wf: "dag_wf d"
  have new: "mlookup (inDegree d) n = None"
    using wf False by (simp add: dag_wf_def mlookup_None_keys)
  have d': "AddNode n d = d\<lparr>nodes := mput n True (nodes d), inDegree := mput n 0 (inDegree d)\<rparr>"
    using wf False new by (simp add: AddNode_def wf_node Let_def)
  have "open_preds (AddNode n d) m = open_preds d m" for m
  proof -
    have "insert n (node_set d) - done_set d = insert n (node_set d - done_set d)"
      using wf False by (auto simp: dag_wf_def)
    then show ?thesis
      using False by (simp add: open_preds_def succs_fresh [OF wf])
  qed
  moreover have "open_preds d n = 0"
    using wf False by (simp add: open_preds_def count_fresh)
  ultimately show ?thesis
    using wf by (auto simp: dag_wf_def d' node_set_def done_set_def)
qed

section \<open>Adding edges\<close>

lemma erel_add_edge:
  "erel (mput a (succs es a @ [b]) es) = insert (a, b) (erel es)"
  by (auto simp: erel_def split: if_splits)

lemma AddEdge_Inr:
  "AddEdge a b d = Inr d' \<Longrightarrow>
     a \<noteq> b \<and> mget False (nodes d) a \<and> mget False (nodes d) b \<and> (b, a) \<notin> (erel (edges d))\<^sup>* \<and>
     d' = d\<lparr>edges := mput a (succs (edges d) a @ [b]) (edges d),
            inDegree := mput b (mget 0 (inDegree d) b + 1) (inDegree d)\<rparr>"
  by (auto simp: AddEdge_def reachable_iff split: if_splits)

lemma AddEdge_frame:
  assumes "AddEdge a b d = Inr d'"
  shows "node_set d' = node_set d" "done_set d' = done_set d"
    "erel (edges d') = insert (a, b) (erel (edges d))"
  using AddEdge_Inr [OF assms] by (simp_all add: node_set_def done_set_def erel_add_edge)

lemma AddEdge_wf:
  assumes wf: "dag_wf d" and add: "AddEdge a b d = Inr d'" and pending: "a \<notin> done_set d"
  shows "dag_wf d'"
proof -
  note facts = AddEdge_Inr [OF add]
  let ?es = "mput a (succs (edges d) a @ [b]) (edges d)"
  have es: "edges d' = ?es" using facts by simp
  have ab: "a \<in> node_set d" "b \<in> node_set d"
    using facts wf_node [OF wf] by auto
  have "acyclic (insert (a, b) (erel (edges d)))"
    using wf facts by (simp add: dag_wf_def acyclic_insert)
  then have "acyclic (erel (edges d'))"
    by (simp only: AddEdge_frame(3) [OF add])
  moreover have "open_preds d' n = open_preds d n + (if n = b then 1 else 0)" for n
  proof -
    have cnt: "count_list (succs ?es p) n =
        count_list (succs (edges d) p) n + (if p = a \<and> n = b then 1 else 0)" for p
      by auto
    have "open_preds d' n = (\<Sum>p \<in> node_set d - done_set d.
        count_list (succs (edges d) p) n + (if p = a \<and> n = b then 1 else 0))"
      by (simp only: open_preds_def AddEdge_frame [OF add] es cnt)
    also have "\<dots> = open_preds d n + (\<Sum>p \<in> node_set d - done_set d. if p = a \<and> n = b then 1 else 0)"
      by (simp only: sum.distrib open_preds_def)
    also have "\<dots> = open_preds d n + (if n = b then 1 else 0)"
      using ab pending by (cases "n = b") simp_all
    finally show ?thesis .
  qed
  moreover have "set (mkeys (inDegree d')) = node_set d'"
    using wf facts ab by (auto simp: dag_wf_def AddEdge_frame [OF add])
  ultimately show ?thesis
    using wf facts ab AddEdge_frame [OF add] by (auto simp: dag_wf_def)
qed

section \<open>Completing nodes\<close>

lemma release_frame [simp]:
  "nodes (fst (release ss d acc)) = nodes d"
  "edges (fst (release ss d acc)) = edges d"
  "completed (fst (release ss d acc)) = completed d"
  by (induction ss arbitrary: d acc) (simp_all add: Let_def)

lemma release_inDegree:
  "mget 0 (inDegree (fst (release ss d acc))) n = mget 0 (inDegree d) n - int (count_list ss n)"
  by (induction ss arbitrary: d acc) (simp_all add: Let_def)

lemma release_inDegree_wf:
  "mwf (inDegree d) \<Longrightarrow> mwf (inDegree (fst (release ss d acc)))"
  by (induction ss arbitrary: d acc) (simp_all add: Let_def)

lemma release_inDegree_keys:
  "set (mkeys (inDegree (fst (release ss d acc)))) = set (mkeys (inDegree d)) \<union> set ss"
  by (induction ss arbitrary: d acc) (simp_all add: Let_def)

lemma release_newly:
  assumes "\<forall>x \<in> set ss. int (count_list ss x) \<le> mget 0 (inDegree d) x"
  shows "set (snd (release ss d acc)) =
    set acc \<union> {x \<in> set ss. mget 0 (inDegree d) x = int (count_list ss x) \<and>
                           \<not> mget False (completed d) x}"
  using assms
proof (induction ss arbitrary: d acc)
  case (Cons s ss)
  let ?d1 = "d\<lparr>inDegree := mput s (mget 0 (inDegree d) s - 1) (inDegree d)\<rparr>"
  have "\<forall>x \<in> set ss. int (count_list ss x) \<le> mget 0 (inDegree ?d1) x"
    using Cons.prems by (auto split: if_splits)
  note IH = Cons.IH [OF this]
  have s: "int (count_list ss s) + 1 \<le> mget 0 (inDegree d) s"
    using Cons.prems by simp
  show ?case
    using s by (auto simp: Let_def IH count_list_0_iff split: if_splits)
qed simp

lemma Complete_done: "mget False (completed d) n \<Longrightarrow> Complete n d = (d, [])"
  by (simp add: Complete_def)

lemma Complete_frame [simp]:
  "nodes (fst (Complete n d)) = nodes d" "edges (fst (Complete n d)) = edges d"
  "node_set (fst (Complete n d)) = node_set d"
  by (simp_all add: Complete_def Let_def node_set_def)

lemma completed_Complete:
  "completed (fst (Complete n d)) =
     (if mget False (completed d) n then completed d else mput n True (completed d))"
  by (simp add: Complete_def Let_def)

lemma done_set_Complete:
  "dag_wf d \<Longrightarrow> done_set (fst (Complete n d)) = insert n (done_set d)"
  by (auto simp: done_set_def completed_Complete wf_done)

lemma open_preds_Complete:
  assumes wf: "dag_wf d" and n: "n \<in> node_set d" "n \<notin> done_set d"
  shows "open_preds d m = open_preds (fst (Complete n d)) m + count_list (succs (edges d) n) m"
proof -
  have "open_preds d m = count_list (succs (edges d) n) m +
      (\<Sum>p \<in> node_set d - done_set d - {n}. count_list (succs (edges d) p) m)"
    unfolding open_preds_def by (rule sum.remove) (use n in auto)
  moreover have "node_set d - done_set d - {n} = node_set d - insert n (done_set d)"
    by auto
  ultimately show ?thesis
    by (simp add: open_preds_def done_set_Complete [OF wf])
qed

lemma Complete_wf:
  assumes wf: "dag_wf d" and n: "n \<in> node_set d"
  shows "dag_wf (fst (Complete n d))"
proof (cases "n \<in> done_set d")
  case True
  with wf show ?thesis by (simp add: Complete_done wf_done)
next
  case False
  let ?d1 = "d\<lparr>completed := mput n True (completed d)\<rparr>"
  let ?d' = "fst (Complete n d)"
  have d': "?d' = fst (release (succs (edges d) n) ?d1 [])"
    using False by (simp add: Complete_def wf_done [OF wf])
  have keys: "set (mkeys (inDegree ?d')) = node_set d"
    using wf n by (auto simp: d' release_inDegree_keys dag_wf_def erel_def)
  have "mget 0 (inDegree ?d') m = int (open_preds ?d' m)" if "m \<in> node_set d" for m
    using that wf open_preds_Complete [OF wf n False, of m]
    by (simp add: d' release_inDegree dag_wf_def)
  moreover have "mwf (inDegree ?d')" "mwf (completed ?d')" "only_true (completed ?d')"
    using wf by (auto simp: d' release_inDegree_wf dag_wf_def)
  ultimately show ?thesis
    using wf n keys by (auto simp: dag_wf_def done_set_Complete [OF wf])
qed

section \<open>Ready nodes and progress\<close>

lemma open_preds_0_iff:
  "open_preds d n = 0 \<longleftrightarrow> (\<forall>p \<in> node_set d - done_set d. (p, n) \<notin> erel (edges d))"
  by (simp add: open_preds_def count_list_0_iff erel_iff)

lemma set_Ready:
  assumes wf: "dag_wf d"
  shows "set (Ready d) =
    {n \<in> node_set d - done_set d. \<forall>p. (p, n) \<in> erel (edges d) \<longrightarrow> p \<in> done_set d}"
proof -
  have "mget 0 (inDegree d) n = 0 \<longleftrightarrow> (\<forall>p. (p, n) \<in> erel (edges d) \<longrightarrow> p \<in> done_set d)"
    if "n \<in> node_set d" for n
  proof -
    have "erel (edges d) \<subseteq> node_set d \<times> node_set d" using wf by (simp add: dag_wf_def)
    then show ?thesis
      using wf that open_preds_0_iff [of d n] by (auto simp: dag_wf_def)
  qed
  then show ?thesis
    by (auto simp: Ready_def wf_done [OF wf] node_set_def [symmetric])
qed

lemma distinct_Ready: "dag_wf d \<Longrightarrow> distinct (Ready d)"
  by (simp add: Ready_def dag_wf_def gm.distinct_keys)

lemma sorted_Ready: "sorted (Ready d)"
  by (simp add: Ready_def)

lemma Ready_progress:
  assumes wf: "dag_wf d" and left: "done_set d \<noteq> node_set d"
  shows "Ready d \<noteq> []"
proof -
  let ?open = "node_set d - done_set d"
  have sub: "erel (edges d) \<subseteq> node_set d \<times> node_set d" and "acyclic (erel (edges d))"
    using wf by (simp_all add: dag_wf_def)
  moreover have "finite (erel (edges d))"
    by (rule finite_subset [OF sub]) simp
  ultimately have "wf (erel (edges d))" by (simp add: finite_acyclic_wf)
  moreover obtain x where "x \<in> ?open" using left wf by (auto simp: dag_wf_def)
  ultimately obtain n where n: "n \<in> ?open" "\<And>p. (p, n) \<in> erel (edges d) \<Longrightarrow> p \<notin> ?open"
    by (metis wfE_min)
  with sub have "n \<in> set (Ready d)" by (auto simp: set_Ready [OF wf])
  then show ?thesis by auto
qed

lemma Remaining_card: "dag_wf d \<Longrightarrow> Remaining d = int (card (node_set d - done_set d))"
  by (simp add: Remaining_def dag_wf_def mlen_card node_set_def [symmetric]
      done_set_def [symmetric] card_Diff_subset of_nat_diff card_mono)

section \<open>What the scheduler relies on\<close>

locale dependency_graph =
  fixes inv :: "'g \<Rightarrow> bool"
    and tasks :: "'g \<Rightarrow> 'a set"
    and finished :: "'g \<Rightarrow> 'a set"
    and before :: "'g \<Rightarrow> ('a \<times> 'a) set"
    and ready :: "'g \<Rightarrow> 'a list"
    and finish :: "'a \<Rightarrow> 'g \<Rightarrow> 'g"
    and left :: "'g \<Rightarrow> int"
  assumes finite_tasks: "finite (tasks g)"
    and finished_tasks: "inv g \<Longrightarrow> finished g \<subseteq> tasks g"
    and set_ready: "inv g \<Longrightarrow> set (ready g) =
      {n \<in> tasks g - finished g. \<forall>p. (p, n) \<in> before g \<longrightarrow> p \<in> finished g}"
    and distinct_ready: "inv g \<Longrightarrow> distinct (ready g)"
    and progress: "inv g \<Longrightarrow> finished g \<noteq> tasks g \<Longrightarrow> ready g \<noteq> []"
    and left_card: "inv g \<Longrightarrow> left g = int (card (tasks g - finished g))"
    and inv_finish: "inv g \<Longrightarrow> n \<in> tasks g \<Longrightarrow> inv (finish n g)"
    and finished_finish: "inv g \<Longrightarrow> finished (finish n g) = insert n (finished g)"
    and tasks_finish: "tasks (finish n g) = tasks g"
    and before_finish: "before (finish n g) = before g"
begin

lemma ready_left: "inv g \<Longrightarrow> 0 < left g \<Longrightarrow> ready g \<noteq> []"
  using progress finished_tasks left_card by fastforce

lemma ready_finish_other:
  "inv g \<Longrightarrow> n \<in> tasks g \<Longrightarrow> m \<in> set (ready g) \<Longrightarrow> m \<noteq> n \<Longrightarrow> m \<in> set (ready (finish n g))"
  by (auto simp: set_ready inv_finish finished_finish tasks_finish before_finish)

lemma left_finish:
  assumes "inv g" "n \<in> tasks g" "n \<notin> finished g"
  shows "left (finish n g) = left g - 1"
proof -
  have "tasks g - insert n (finished g) = (tasks g - finished g) - {n}" by auto
  then have "card (tasks g - insert n (finished g)) = card (tasks g - finished g) - 1"
    using assms by simp
  moreover have "0 < card (tasks g - finished g)"
    using assms finite_tasks by (auto simp: card_gt_0_iff)
  ultimately show ?thesis
    using assms by (simp add: left_card inv_finish finished_finish tasks_finish)
qed

lemma fold_finish:
  assumes "inv g" "set ns \<subseteq> tasks g"
  shows "inv (fold finish ns g)" "finished (fold finish ns g) = finished g \<union> set ns"
    "tasks (fold finish ns g) = tasks g" "before (fold finish ns g) = before g"
  using assms
  by (induction ns arbitrary: g)
    (simp_all add: inv_finish finished_finish tasks_finish before_finish)

lemma wave_decreases:
  assumes "inv g" "0 < left g"
  shows "left (fold finish (ready g) g) < left g"
proof -
  have sub: "set (ready g) \<subseteq> tasks g - finished g" using assms by (auto simp: set_ready)
  obtain r where "r \<in> set (ready g)" using ready_left [OF assms] by (cases "ready g") auto
  with sub have "tasks g - (finished g \<union> set (ready g)) \<subset> tasks g - finished g" by auto
  then have "card (tasks g - (finished g \<union> set (ready g))) < card (tasks g - finished g)"
    by (simp add: psubset_card_mono finite_tasks)
  moreover have "set (ready g) \<subseteq> tasks g" using sub by auto
  ultimately show ?thesis
    using assms by (simp add: left_card fold_finish)
qed

end

interpretation dg: dependency_graph dag_wf node_set done_set "\<lambda>d. erel (edges d)" Ready
  "\<lambda>n d. fst (Complete n d)" Remaining
proof unfold_locales
  show "dag_wf g \<Longrightarrow> done_set g \<subseteq> node_set g" for g by (simp add: dag_wf_def)
qed (simp_all add: set_Ready distinct_Ready Ready_progress Remaining_card Complete_wf
    done_set_Complete)

section \<open>Properties of the graph\<close>


definition example_dag :: dag where
  "example_dag = AddNode ''c'' (AddNode ''b'' (AddNode ''a'' NewDAG))"

lemma example_dag_wf: "dag_wf example_dag"
  by (simp add: example_dag_def AddNode_wf NewDAG_wf)

lemma example_dag_sets: "done_set example_dag = {}" "node_set example_dag = {''a'', ''b'', ''c''}"
proof -
  have "done_set NewDAG = {}" "node_set NewDAG = {}"
    by (simp_all add: NewDAG_def done_set_def node_set_def)
  then show "done_set example_dag = {}" "node_set example_dag = {''a'', ''b'', ''c''}"
    by (auto simp: example_dag_def)
qed

definition example_edge :: dag where
  "example_edge = projr (AddEdge ''a'' ''b'' example_dag)"

lemma example_edge: "AddEdge ''a'' ''b'' example_dag = Inr example_edge"
  unfolding example_edge_def by code_simp

lemma example_edge_wf: "dag_wf example_edge"
  using AddEdge_wf [OF example_dag_wf example_edge] by (simp add: example_dag_sets)

lemma example_edge_sets: "done_set example_edge = {}" "node_set example_edge = {''a'', ''b'', ''c''}"
  using AddEdge_frame [OF example_edge] by (simp_all add: example_dag_sets)


text \<open>
  C8: On a well-formed graph, \<open>Ready\<close> returns, sorted and without repetition, exactly the
  registered nodes that are not completed and whose predecessors are all completed, and it
  returns some node as long as not every node is completed.
\<close>

theorem Ready_correct:
  assumes "dag_wf d"
  shows "set (Ready d) =
      {n \<in> node_set d - done_set d. \<forall>p. (p, n) \<in> erel (edges d) \<longrightarrow> p \<in> done_set d} \<and>
    sorted (Ready d) \<and> distinct (Ready d) \<and> (Ready d = [] \<longleftrightarrow> done_set d = node_set d)"
proof -
  have "Ready d = [] \<longleftrightarrow> done_set d = node_set d"
    using Ready_progress [OF assms] set_Ready [OF assms] by (cases "Ready d") auto
  then show ?thesis
    by (simp add: set_Ready [OF assms] sorted_Ready distinct_Ready [OF assms])
qed

theorem Ready_correct_witness:
  "dag_wf example_edge \<and> Ready example_edge = [''a'', ''c''] \<and> sorted (Ready example_edge)"
proof -
  have "Ready example_edge = [''a'', ''c'']" by code_simp
  then show ?thesis using Ready_correct [OF example_edge_wf] by (simp add: example_edge_wf)
qed



text \<open>
  C10: \<open>Validate\<close> accepts a graph whose edges start at registered nodes exactly when it has a node
  and no cycle: the three-colour search neither misses a cycle nor reports one that is not there.
\<close>

theorem Validate_correct:
  assumes "set (mkeys (edges d)) \<subseteq> node_set d"
  shows "Validate d = None \<longleftrightarrow> node_set d \<noteq> {} \<and> acyclic (erel (edges d))"
  using Validate_iff [of d] assms by (simp add: node_set_def mkeys_def)

theorem Validate_correct_witness:
  "set (mkeys (edges example_edge)) \<subseteq> node_set example_edge \<and> Validate example_edge = None \<and>
   acyclic (erel (edges example_edge))"
proof -
  have keys: "set (mkeys (edges example_edge)) \<subseteq> node_set example_edge"
    using example_edge_wf by (simp add: dag_wf_def)
  have "Validate example_edge = None" by code_simp
  with keys Validate_correct [OF keys] show ?thesis by simp
qed

section \<open>Behaviour outside the invariant\<close>

text \<open>
  The comment on \<open>DAG\<close> says that the in-degree equals the number of incomplete predecessors. An
  edge added after its source was completed breaks that: the target is counted as waiting for a
  node that is done, so it can never become ready.
\<close>

lemma AddEdge_after_Complete:
  assumes wf: "dag_wf d" and past: "from \<in> done_set d" and add: "AddEdge from to d = Inr d'"
  shows "to \<notin> set (Ready d')" "mget 0 (inDegree d') to = int (open_preds d' to) + 1"
proof -
  note facts = AddEdge_Inr [OF add]
  have "to \<in> node_set d" using facts wf_node [OF wf] by simp
  then have deg: "mget 0 (inDegree d') to = int (open_preds d to) + 1"
    using facts wf by (simp add: dag_wf_def)
  then show "to \<notin> set (Ready d')"
    by (simp add: Ready_def)
  have "open_preds d' to = open_preds d to"
    using facts past by (auto simp: open_preds_def AddEdge_frame [OF add] intro!: sum.cong)
  with deg show "mget 0 (inDegree d') to = int (open_preds d' to) + 1" by simp
qed

text \<open>
  \<open>Remaining\<close> is documented as the number of nodes not yet completed; completing an identifier
  that was never registered lowers it all the same.
\<close>

lemma Remaining_unregistered:
  assumes "dag_wf d" "n \<notin> node_set d"
  shows "Remaining (fst (Complete n d)) = Remaining d - 1"
  using assms wf_done [OF assms(1), of n]
  by (auto simp: Remaining_def completed_Complete dag_wf_def mlen_put done_set_def)

end
