(* ===== verification/A2A.thy ===== *)
theory A2A
  imports Prelude
begin

text \<open>
  The wire types of the Agent-to-Agent protocol (\<open>src/internal/a2a/types.go\<close>), one record per Go
  struct, and the one operation on them. A Go pointer is an \<open>option\<close>, \<open>json.RawMessage\<close> is the
  byte string it holds, and \<open>map[string]any\<close> is a \<open>gomap\<close> into \<open>anyval\<close>.
\<close>

datatype anyval =
    AnyNil
  | AnyStr string
  | AnyInt int
  | AnyBool bool
  | AnySeq "anyval list"
  | AnyMap "(string \<times> anyval) list"

type_synonym metadata = "(string, anyval) gomap"

text \<open>The type assertion \<open>v.(string)\<close> with its zero value on failure.\<close>

fun any_string :: "anyval \<Rightarrow> string" where
  "any_string (AnyStr s) = s"
| "any_string _ = []"

type_synonym TaskState = string

definition TaskStateSubmitted :: TaskState where "TaskStateSubmitted = ''submitted''"
definition TaskStateWorking :: TaskState where "TaskStateWorking = ''working''"
definition TaskStateCompleted :: TaskState where "TaskStateCompleted = ''completed''"
definition TaskStateFailed :: TaskState where "TaskStateFailed = ''failed''"
definition TaskStateCanceled :: TaskState where "TaskStateCanceled = ''canceled''"
definition TaskStateInputRequired :: TaskState where "TaskStateInputRequired = ''input-required''"
definition TaskStateRejected :: TaskState where "TaskStateRejected = ''rejected''"

lemmas task_state_defs = TaskStateSubmitted_def TaskStateWorking_def TaskStateCompleted_def
  TaskStateFailed_def TaskStateCanceled_def TaskStateInputRequired_def TaskStateRejected_def

record Part =
  p_Text :: string
  p_Data :: string
  p_MediaType :: string
  p_Metadata :: metadata

record Message =
  m_MessageID :: string
  m_ContextID :: string
  m_TaskID :: string
  m_Role :: string
  m_Parts :: "Part list"
  m_Metadata :: metadata

record TaskStatus =
  ts_State :: TaskState
  ts_Message :: "Message option"
  ts_Timestamp :: string

record Artifact =
  a_ArtifactID :: string
  a_Name :: string
  a_Description :: string
  a_Parts :: "Part list"
  a_Metadata :: metadata

record Task =
  t_ID :: string
  t_ContextID :: string
  t_Status :: TaskStatus
  t_Artifacts :: "Artifact list"
  t_History :: "Message list"
  t_Metadata :: metadata

record SendMessageConfiguration =
  c_AcceptedOutputModes :: "string list"
  c_HistoryLength :: "int option"

record SendMessageRequest =
  r_Message :: Message
  r_Configuration :: "SendMessageConfiguration option"

record AgentCapabilities =
  cap_Streaming :: bool
  cap_PushNotifications :: bool

record AgentSkill =
  sk_ID :: string
  sk_Name :: string
  sk_Description :: string
  sk_Tags :: "string list"
  sk_Examples :: "string list"

record AgentCard =
  ac_Name :: string
  ac_Description :: string
  ac_Version :: string
  ac_DefaultInputModes :: "string list"
  ac_DefaultOutputModes :: "string list"
  ac_Skills :: "AgentSkill list"
  ac_Capabilities :: AgentCapabilities

definition text_part :: "string \<Rightarrow> Part" where
  "text_part s = \<lparr>p_Text = s, p_Data = [], p_MediaType = [], p_Metadata = []\<rparr>"

fun extract_loop :: "Part list \<Rightarrow> string \<Rightarrow> string" where
  "extract_loop [] result = result"
| "extract_loop (part # parts) result =
     extract_loop parts (if p_Text part \<noteq> [] then result @ p_Text part else result)"

definition ExtractPromptText :: "Message \<Rightarrow> string" where
  "ExtractPromptText m = extract_loop (m_Parts m) []"

lemma extract_loop_concat: "extract_loop ps r = r @ concat (map p_Text ps)"
  by (induction ps arbitrary: r) auto

lemma ExtractPromptText_concat: "ExtractPromptText m = concat (map p_Text (m_Parts m))"
  by (simp add: ExtractPromptText_def extract_loop_concat)

lemma text_part_simps [simp]: "p_Text (text_part s) = s"
  by (simp add: text_part_def)

end
