(* ===== verification/Float64.thy ===== *)
theory Float64
  imports Prelude Complex_Main "HOL-Library.Log_Nat"
begin

text \<open>
  Go's \<open>float64\<close> arithmetic, as far as the program uses it. A finite double is the rational it
  denotes; every operation rounds its exact result to 53 significant bits, ties to even
  (IEEE 754 binary64). The program's values lie between $2^{-70}$ and $2^{70}$ in absolute value,
  far inside the normal range, so there is no overflow, underflow, infinity or NaN to represent.

  The lemmas are the three facts the components need: rounding is monotone, it is exact on
  numbers with at most 53 significant bits, and its relative error is at most $2^{-53}$.
\<close>

section \<open>Rounding\<close>

definition rne :: "rat \<Rightarrow> int" where
  "rne y = (let f = \<lfloor>y\<rfloor>; r = y - of_int f
            in if r < 1/2 then f else if 1/2 < r then f + 1 else if even f then f else f + 1)"

definition flog2 :: "rat \<Rightarrow> int" where
  "flog2 x = (let (p, q) = quotient_of x; e = bitlen p - bitlen q
              in if 2 powi e \<le> x then e else e - 1)"

definition fl64_pos :: "rat \<Rightarrow> rat" where
  "fl64_pos x = (let e = flog2 x - 52 in of_int (rne (x / 2 powi e)) * 2 powi e)"

definition fl64 :: "rat \<Rightarrow> rat" where
  "fl64 x = (if x = 0 then 0 else if 0 < x then fl64_pos x else - fl64_pos (- x))"

definition fadd :: "rat \<Rightarrow> rat \<Rightarrow> rat" where "fadd a b = fl64 (a + b)"
definition fmul :: "rat \<Rightarrow> rat \<Rightarrow> rat" where "fmul a b = fl64 (a * b)"
definition fdiv :: "rat \<Rightarrow> rat \<Rightarrow> rat" where "fdiv a b = fl64 (a / b)"
definition f64_of_int :: "int \<Rightarrow> rat" where "f64_of_int n = fl64 (of_int n)"

section \<open>Rounding to the nearest integer\<close>

lemma rne_bounds: "\<lfloor>y\<rfloor> \<le> rne y" "rne y \<le> \<lfloor>y\<rfloor> + 1"
  by (auto simp: rne_def Let_def)

lemma rne_error: "\<bar>of_int (rne y) - y\<bar> \<le> 1/2"
  using of_int_floor_le [of y] floor_correct [of y] by (auto simp: rne_def Let_def abs_le_iff)

lemma rne_int [simp]: "rne (of_int n) = n"
  by (simp add: rne_def)

lemma rne_mono: "x \<le> y \<Longrightarrow> rne x \<le> rne y"
proof (cases "\<lfloor>x\<rfloor> = \<lfloor>y\<rfloor>")
  case True
  assume "x \<le> y"
  with True show ?thesis by (auto simp: rne_def Let_def)
next
  case False
  assume "x \<le> y"
  with False have "\<lfloor>x\<rfloor> < \<lfloor>y\<rfloor>" using floor_mono [of x y] by linarith
  with rne_bounds [of x] rne_bounds [of y] show ?thesis by linarith
qed

section \<open>The exponent\<close>

lemma powi_mono: "a \<le> b \<Longrightarrow> (2::rat) powi a \<le> 2 powi b"
  by (rule power_int_increasing) auto

lemma powi_strict_mono: "a < b \<Longrightarrow> (2::rat) powi a < 2 powi b"
  by (rule power_int_strict_increasing) auto

lemma powi_pos [simp]: "0 < (2::rat) powi a"
  by simp

lemma powi_Suc: "(2::rat) powi (a + 1) = 2 * 2 powi a"
  by (simp add: power_int_add)

lemma powi_diff: "(2::rat) powi (a - b) = 2 powi a / 2 powi b"
  by (simp add: power_int_diff)

lemma bitlen_powi:
  assumes "0 < p"
  shows "(2::rat) powi (bitlen p - 1) \<le> of_int p" "of_int p < (2::rat) powi bitlen p"
proof -
  from assms have 1: "2 ^ nat (bitlen p - 1) \<le> p" "p < 2 ^ nat (bitlen p)"
    using bitlen_bounds by auto
  have "bitlen p \<noteq> 0" using assms by (simp add: bitlen_eq_zero_iff)
  then have b: "1 \<le> bitlen p" using bitlen_nonneg [of p] by linarith
  have "(of_int (2 ^ nat (bitlen p - 1)) :: rat) \<le> of_int p" using 1(1) by (simp only: of_int_le_iff)
  then show "(2::rat) powi (bitlen p - 1) \<le> of_int p" using b by (simp add: power_int_def)
  have "(of_int p :: rat) < of_int (2 ^ nat (bitlen p))" using 1(2) by (simp only: of_int_less_iff)
  then show "of_int p < (2::rat) powi bitlen p" using b by (simp add: power_int_def)
qed

lemma flog2_bounds:
  assumes "0 < x"
  shows "2 powi flog2 x \<le> x" "x < 2 powi (flog2 x + 1)"
proof -
  obtain p q where pq: "quotient_of x = (p, q)" by (cases "quotient_of x")
  have q: "0 < q" using quotient_of_denom_pos [OF pq] .
  have x: "x = of_int p / of_int q" using quotient_of_div [OF pq] .
  have p: "0 < p" using assms q by (simp add: x zero_less_divide_iff)
  define e where "e = bitlen p - bitlen q"
  have f: "flog2 x = (if 2 powi e \<le> x then e else e - 1)"
    by (simp add: flog2_def pq e_def)
  have "x < 2 powi bitlen p / 2 powi (bitlen q - 1)"
    unfolding x using bitlen_powi [OF p] bitlen_powi [OF q] p q
    by (intro frac_less) auto
  also have "\<dots> = 2 powi (bitlen p - (bitlen q - 1))" by (simp only: powi_diff)
  also have "bitlen p - (bitlen q - 1) = e + 1" by (simp add: e_def)
  finally have up: "x < 2 powi (e + 1)" .
  have "e - 1 = bitlen p - 1 - bitlen q" by (simp add: e_def)
  then have "2 powi (e - 1) = 2 powi (bitlen p - 1) / (2::rat) powi bitlen q"
    by (simp only: powi_diff [of "bitlen p - 1" "bitlen q"])
  also have "\<dots> \<le> x"
    unfolding x using bitlen_powi [OF p] bitlen_powi [OF q] p q
    by (intro frac_le) auto
  finally have low: "2 powi (e - 1) \<le> x" .
  show "2 powi flog2 x \<le> x" "x < 2 powi (flog2 x + 1)"
    using up low by (auto simp: f)
qed

lemma flog2_unique:
  assumes "0 < x" "2 powi e \<le> x" "x < 2 powi (e + 1)"
  shows "flog2 x = e"
proof (rule ccontr)
  assume "flog2 x \<noteq> e"
  then consider "flog2 x + 1 \<le> e" | "e + 1 \<le> flog2 x" by linarith
  then show False
  proof cases
    case 1
    then show False using powi_mono [OF 1] flog2_bounds [OF assms(1)] assms by linarith
  next
    case 2
    then show False using powi_mono [OF 2] flog2_bounds [OF assms(1)] assms by linarith
  qed
qed

lemma flog2_mono: "0 < x \<Longrightarrow> x \<le> y \<Longrightarrow> flog2 x \<le> flog2 y"
proof (rule ccontr)
  assume x: "0 < x" "x \<le> y" and "\<not> flog2 x \<le> flog2 y"
  then have "flog2 y + 1 \<le> flog2 x" by linarith
  from powi_mono [OF this] flog2_bounds [OF x(1)] flog2_bounds [of y] x show False by linarith
qed

section \<open>Monotonicity, exactness, error\<close>

text \<open>The significand before rounding lies in the binade from $2^{52}$ to $2^{53}$.\<close>

lemma significand_bounds:
  assumes "0 < x"
  shows "2 ^ 52 \<le> x / 2 powi (flog2 x - 52)" "x / 2 powi (flog2 x - 52) < 2 ^ 53"
proof -
  have a: "(2::rat) powi flog2 x = 2 ^ 52 * 2 powi (flog2 x - 52)"
    by (simp add: powi_diff)
  show "2 ^ 52 \<le> x / 2 powi (flog2 x - 52)"
    using flog2_bounds(1) [OF assms] a by (simp add: pos_le_divide_eq)
  show "x / 2 powi (flog2 x - 52) < 2 ^ 53"
    using flog2_bounds(2) [OF assms] a by (simp add: pos_divide_less_eq powi_Suc)
qed

lemma rne_significand:
  assumes "0 < x"
  shows "2 ^ 52 \<le> rne (x / 2 powi (flog2 x - 52))" "rne (x / 2 powi (flog2 x - 52)) \<le> 2 ^ 53"
proof -
  let ?y = "x / 2 powi (flog2 x - 52)"
  have "rne (of_int (2 ^ 52)) \<le> rne ?y"
    using significand_bounds(1) [OF assms] by (intro rne_mono) simp
  then show "2 ^ 52 \<le> rne ?y" by (simp only: rne_int)
  have "rne ?y \<le> rne (of_int (2 ^ 53))"
    using significand_bounds(2) [OF assms] by (intro rne_mono) simp
  then show "rne ?y \<le> 2 ^ 53" by (simp only: rne_int)
qed

lemma fl64_pos_eq:
  "fl64_pos x = of_int (rne (x / 2 powi (flog2 x - 52))) * 2 powi (flog2 x - 52)"
  by (simp add: fl64_pos_def Let_def)

lemma fl64_pos_binade:
  assumes "0 < x"
  shows "2 powi flog2 x \<le> fl64_pos x" "fl64_pos x \<le> 2 powi (flog2 x + 1)"
proof -
  let ?e = "flog2 x - 52"
  have m: "(2::rat) ^ 52 \<le> of_int (rne (x / 2 powi ?e))" "of_int (rne (x / 2 powi ?e)) \<le> (2::rat) ^ 53"
    using rne_significand [OF assms, THEN of_int_le_iff [where 'a = rat, THEN iffD2]]
    by simp_all
  have a: "(2::rat) powi flog2 x = 2 ^ 52 * 2 powi ?e"
    by (simp add: powi_diff)
  show "2 powi flog2 x \<le> fl64_pos x"
    unfolding a fl64_pos_eq by (rule mult_right_mono [OF m(1)]) simp
  have "fl64_pos x \<le> 2 ^ 53 * 2 powi ?e"
    unfolding fl64_pos_eq by (rule mult_right_mono [OF m(2)]) simp
  also have "\<dots> = 2 powi (flog2 x + 1)" by (simp add: powi_Suc a)
  finally show "fl64_pos x \<le> 2 powi (flog2 x + 1)" .
qed

lemma fl64_pos_pos: "0 < x \<Longrightarrow> 0 < fl64_pos x"
  using fl64_pos_binade(1) [of x] powi_pos [of "flog2 x"] by linarith

lemma fl64_pos_mono:
  assumes "0 < x" "x \<le> y"
  shows "fl64_pos x \<le> fl64_pos y"
proof (cases "flog2 x = flog2 y")
  case True
  have "rne (x / 2 powi (flog2 y - 52)) \<le> rne (y / 2 powi (flog2 y - 52))"
    using assms by (intro rne_mono divide_right_mono) auto
  then show ?thesis
    by (simp add: fl64_pos_eq True)
next
  case False
  with flog2_mono [OF assms] have "flog2 x + 1 \<le> flog2 y" by linarith
  from powi_mono [OF this] fl64_pos_binade(2) [OF assms(1)] fl64_pos_binade(1) [of y] assms
  show ?thesis by linarith
qed

lemma fl64_mono: "x \<le> y \<Longrightarrow> fl64 x \<le> fl64 y"
  using fl64_pos_mono [of x y] fl64_pos_mono [of "- y" "- x"] fl64_pos_pos [of y] fl64_pos_pos [of "- x"]
  by (auto simp: fl64_def)

lemma fl64_pos_error:
  assumes "0 < x"
  shows "\<bar>fl64_pos x - x\<bar> \<le> x / 2 ^ 53"
proof -
  let ?u = "(2::rat) powi (flog2 x - 52)"
  have "fl64_pos x - x = (of_int (rne (x / ?u)) - x / ?u) * ?u"
    by (simp add: fl64_pos_eq field_simps)
  then have "\<bar>fl64_pos x - x\<bar> = \<bar>of_int (rne (x / ?u)) - x / ?u\<bar> * ?u"
    by (simp add: abs_mult)
  also have "\<dots> \<le> 1/2 * ?u"
    by (intro mult_right_mono rne_error) simp
  also have "\<dots> \<le> x / 2 ^ 53"
    using significand_bounds(1) [OF assms] by (simp add: field_simps)
  finally show ?thesis .
qed

lemma fl64_error: "\<bar>fl64 x - x\<bar> \<le> \<bar>x\<bar> / 2 ^ 53"
proof -
  consider "0 < x" | "x = 0" | "x < 0" by linarith
  then show ?thesis
  proof cases
    case 1
    then show ?thesis using fl64_pos_error [of x] by (simp add: fl64_def)
  next
    case 3
    then have "\<bar>fl64 x - x\<bar> = \<bar>fl64_pos (- x) - (- x)\<bar>" by (simp add: fl64_def abs_if)
    with 3 fl64_pos_error [of "- x"] show ?thesis by simp
  qed (simp add: fl64_def)
qed

lemma fl64_pos_exact:
  assumes x: "x = of_int k * 2 powi s" and k: "0 < k" "k \<le> 2 ^ 53"
  shows "fl64_pos x = x"
proof -
  let ?e = "flog2 x - 52"
  have pos: "0 < x" using k by (simp add: x)
  have "\<exists>n. x / 2 powi ?e = of_int n"
  proof (cases "?e \<le> s")
    case True
    then have "(2::rat) powi (s - ?e) = 2 ^ nat (s - ?e)" by (simp add: power_int_def)
    moreover have "x / 2 powi ?e = of_int k * 2 powi (s - ?e)"
      by (simp only: powi_diff [of s ?e]) (simp add: x)
    ultimately have "x / 2 powi ?e = of_int (k * 2 ^ nat (s - ?e))" by simp
    then show ?thesis by blast
  next
    case False
    then have "(2::rat) powi (s + 1) \<le> 2 powi ?e" by (intro powi_mono) simp
    moreover have "2 ^ 52 * 2 powi ?e \<le> x"
      using significand_bounds(1) [OF pos] by (simp add: pos_le_divide_eq)
    ultimately have "2 ^ 53 * 2 powi s \<le> x" by (simp add: powi_Suc)
    then have "(2::rat) ^ 53 \<le> of_int k" by (simp add: x)
    then have "(of_int (2 ^ 53) :: rat) \<le> of_int k" by simp
    then have k53: "k = 2 ^ 53" using k(2) by (simp only: of_int_le_iff)
    have "x = 2 powi (s + 53)" by (simp add: x k53 power_int_add)
    then have "flog2 x = s + 53"
      using pos powi_strict_mono [of "s + 53" "s + 54"] by (intro flog2_unique) (simp_all add: add.assoc)
    then have "x / 2 powi ?e = of_int (2 ^ 52)"
      using \<open>x = 2 powi (s + 53)\<close> by (simp add: powi_diff power_int_add)
    then show ?thesis by blast
  qed
  then obtain n where "x / 2 powi ?e = of_int n" by blast
  then have "of_int (rne (x / 2 powi ?e)) = x / 2 powi ?e" by simp
  then show ?thesis by (simp add: fl64_pos_eq)
qed

lemma fl64_exact:
  assumes "x = of_int k * 2 powi s" and "\<bar>k\<bar> \<le> 2 ^ 53"
  shows "fl64 x = x"
proof -
  consider "k = 0" | "0 < k" | "k < 0" by linarith
  then show ?thesis
  proof cases
    case 1
    then show ?thesis using assms by (simp add: fl64_def)
  next
    case 2
    then show ?thesis using assms fl64_pos_exact [of x k s] by (simp add: fl64_def)
  next
    case 3
    then have "fl64_pos (- x) = - x"
      using assms by (intro fl64_pos_exact [of _ "- k" s]) auto
    moreover have "x < 0" using 3 assms by (simp add: mult_neg_pos)
    ultimately show ?thesis by (simp add: fl64_def)
  qed
qed

lemma fl64_int: "\<bar>n\<bar> \<le> 2 ^ 53 \<Longrightarrow> fl64 (of_int n) = of_int n"
  by (rule fl64_exact [of _ n 0]) auto

lemma fl64_0 [simp]: "fl64 0 = 0"
  by (simp add: fl64_def)

lemma fl64_nonneg: "0 \<le> x \<Longrightarrow> 0 \<le> fl64 x"
  using fl64_mono [of 0 x] by simp

lemma fl64_neg: "fl64 (- x) = - fl64 x"
  by (simp add: fl64_def)

end
