(* ===== verification/Registry.thy ===== *)
theory Registry
  imports A2A Float64
begin

text \<open>
  The static agent registry (\<open>src/internal/registry/registry.go\<close>), the routing score
  (\<open>scorer.go\<close>) and the interface both registries implement (\<open>interface.go\<close>), which is the
  locale \<open>agent_registry\<close>. Scores are \<open>float64\<close> values with their rounding; \<open>score_tenths\<close> is the
  exact score, and the two order agents alike. JSON decoding and the file system are parameters.
\<close>

section \<open>Entries, loading, validation\<close>

record AgentEntry =
  e_Card :: AgentCard
  e_QueueSubject :: string
  e_Runtime :: string
  e_ACPPort :: int

record RoutingRequest =
  q_SkillID :: string
  q_Tags :: "string list"
  q_PreferredRuntime :: string

record Registry =
  agents :: "AgentEntry list"

datatype registry_error =
    OpenFailed string
  | DecodeFailed string
  | EncodeFailed string
  | FieldRequired nat string
  | SkillFieldRequired nat nat string
  | BadPort nat
  | NoSkills nat
  | DuplicateName string
  | DuplicateSubject string
  | NoAgentForSkill string
  | NoAgentMatched
  | KeyValueFailed string
  | ContextEnded string

abbreviation e_Name :: "AgentEntry \<Rightarrow> string" where
  "e_Name e \<equiv> ac_Name (e_Card e)"

abbreviation e_Skills :: "AgentEntry \<Rightarrow> AgentSkill list" where
  "e_Skills e \<equiv> ac_Skills (e_Card e)"

fun validate_skills :: "nat \<Rightarrow> nat \<Rightarrow> AgentSkill list \<Rightarrow> registry_error option" where
  "validate_skills i j [] = None"
| "validate_skills i j (s # ss) =
     (if sk_ID s = [] then Some (SkillFieldRequired i j ''id'')
      else if sk_Name s = [] then Some (SkillFieldRequired i j ''name'')
      else validate_skills i (Suc j) ss)"

fun validate_loop ::
  "nat \<Rightarrow> (string, bool) gomap \<Rightarrow> (string, bool) gomap \<Rightarrow> AgentEntry list \<Rightarrow> registry_error option"
where
  "validate_loop i names subjects [] = None"
| "validate_loop i names subjects (e # es) =
     (if e_Name e = [] then Some (FieldRequired i ''name'')
      else if ac_Description (e_Card e) = [] then Some (FieldRequired i ''description'')
      else if ac_Version (e_Card e) = [] then Some (FieldRequired i ''version'')
      else if e_QueueSubject e = [] then Some (FieldRequired i ''queueSubject'')
      else if e_Runtime e = [] then Some (FieldRequired i ''runtime'')
      else if e_ACPPort e \<le> 0 then Some (BadPort i)
      else if e_Skills e = [] then Some (NoSkills i)
      else case validate_skills i 0 (e_Skills e) of
             Some err \<Rightarrow> Some err
           | None \<Rightarrow>
               if mget False names (e_Name e) then Some (DuplicateName (e_Name e))
               else if mget False subjects (e_QueueSubject e)
                 then Some (DuplicateSubject (e_QueueSubject e))
               else validate_loop (Suc i) (mput (e_Name e) True names)
                      (mput (e_QueueSubject e) True subjects) es)"

definition validate :: "AgentEntry list \<Rightarrow> registry_error option" where
  "validate entries = validate_loop 0 [] [] entries"

definition LoadFromReader ::
  "('b \<Rightarrow> string + AgentEntry list) \<Rightarrow> 'b \<Rightarrow> registry_error + Registry" where
  "LoadFromReader decode r =
     (case decode r of
        Inl err \<Rightarrow> Inl (DecodeFailed err)
      | Inr entries \<Rightarrow>
          (case validate entries of
             Some err \<Rightarrow> Inl err
           | None \<Rightarrow> Inr \<lparr>agents = entries\<rparr>))"

definition LoadFromFile ::
  "(string \<Rightarrow> string + 'b) \<Rightarrow> ('b \<Rightarrow> string + AgentEntry list) \<Rightarrow> string \<Rightarrow> registry_error + Registry"
where
  "LoadFromFile open_file decode path =
     (case open_file path of
        Inl err \<Rightarrow> Inl (OpenFailed err)
      | Inr f \<Rightarrow> LoadFromReader decode f)"

section \<open>Lookups\<close>

fun has_skill :: "string \<Rightarrow> AgentSkill list \<Rightarrow> bool" where
  "has_skill skillID [] = False"
| "has_skill skillID (s # ss) = (if sk_ID s = skillID then True else has_skill skillID ss)"

fun find_by_skill :: "string \<Rightarrow> AgentEntry list \<Rightarrow> AgentEntry list" where
  "find_by_skill skillID [] = []"
| "find_by_skill skillID (e # es) =
     (if has_skill skillID (e_Skills e) then e # find_by_skill skillID es
      else find_by_skill skillID es)"

definition FindBySkill :: "Registry \<Rightarrow> string \<Rightarrow> AgentEntry list" where
  "FindBySkill reg skillID = find_by_skill skillID (agents reg)"

fun has_tag :: "string \<Rightarrow> AgentSkill list \<Rightarrow> bool" where
  "has_tag tag [] = False"
| "has_tag tag (s # ss) = (if tag \<in> set (sk_Tags s) then True else has_tag tag ss)"

fun find_by_tag :: "string \<Rightarrow> AgentEntry list \<Rightarrow> AgentEntry list" where
  "find_by_tag tag [] = []"
| "find_by_tag tag (e # es) =
     (if has_tag tag (e_Skills e) then e # find_by_tag tag es else find_by_tag tag es)"

definition FindByTag :: "Registry \<Rightarrow> string \<Rightarrow> AgentEntry list" where
  "FindByTag reg tag = find_by_tag tag (agents reg)"

fun find_by_name :: "string \<Rightarrow> AgentEntry list \<Rightarrow> AgentEntry option" where
  "find_by_name name [] = None"
| "find_by_name name (e # es) = (if e_Name e = name then Some e else find_by_name name es)"

definition FindByName :: "Registry \<Rightarrow> string \<Rightarrow> AgentEntry option" where
  "FindByName reg name = find_by_name name (agents reg)"

definition first_subject :: "string \<Rightarrow> AgentEntry list \<Rightarrow> registry_error + string" where
  "first_subject skillID matches =
     (case matches of
        [] \<Rightarrow> Inl (NoAgentForSkill skillID)
      | e # _ \<Rightarrow> Inr (e_QueueSubject e))"

definition Route :: "Registry \<Rightarrow> string \<Rightarrow> registry_error + string" where
  "Route reg skillID = first_subject skillID (FindBySkill reg skillID)"

definition All :: "Registry \<Rightarrow> AgentEntry list" where
  "All reg = agents reg"

section \<open>Scores\<close>

definition tenth :: rat where
  "tenth = fl64 (1 / 10)"

fun score_skill :: "string \<Rightarrow> AgentSkill list \<Rightarrow> rat \<Rightarrow> rat" where
  "score_skill skillID [] score = score"
| "score_skill skillID (s # ss) score =
     (if skillID \<noteq> [] \<and> sk_ID s = skillID then fadd score 1 else score_skill skillID ss score)"

text \<open>The set of an agent's tags, built by the nested loop over its skills.\<close>

fun agent_tags :: "AgentSkill list \<Rightarrow> (string, bool) gomap \<Rightarrow> (string, bool) gomap" where
  "agent_tags [] m = m"
| "agent_tags (s # ss) m = agent_tags ss (fold (\<lambda>t m. mput t True m) (sk_Tags s) m)"

fun score_tags :: "(string, bool) gomap \<Rightarrow> string list \<Rightarrow> rat \<Rightarrow> rat" where
  "score_tags tags [] score = score"
| "score_tags tags (t # ts) score =
     score_tags tags ts (if mget False tags t then fadd score (1 / 2) else score)"

definition Score :: "AgentEntry \<Rightarrow> RoutingRequest \<Rightarrow> rat" where
  "Score entry request =
     (let s1 = score_skill (q_SkillID request) (e_Skills entry) 0;
          s2 = (if q_Tags request \<noteq> []
                then score_tags (agent_tags (e_Skills entry) []) (q_Tags request) s1 else s1)
      in if q_PreferredRuntime request \<noteq> [] \<and> e_Runtime entry = q_PreferredRuntime request
         then fadd s2 tenth else s2)"

fun best_loop ::
  "RoutingRequest \<Rightarrow> AgentEntry list \<Rightarrow> AgentEntry option \<Rightarrow> rat \<Rightarrow> AgentEntry option" where
  "best_loop req [] best bestScore = best"
| "best_loop req (e # es) best bestScore =
     (let s = Score e req
      in if bestScore < s then best_loop req es (Some e) s else best_loop req es best bestScore)"

definition route_best :: "RoutingRequest \<Rightarrow> AgentEntry list \<Rightarrow> registry_error + AgentEntry" where
  "route_best req es =
     (case best_loop req es None 0 of None \<Rightarrow> Inl NoAgentMatched | Some e \<Rightarrow> Inr e)"

definition RouteByScore :: "Registry \<Rightarrow> RoutingRequest \<Rightarrow> registry_error + AgentEntry" where
  "RouteByScore reg req = route_best req (agents reg)"

section \<open>What validation accepts\<close>

definition skill_ok :: "AgentSkill \<Rightarrow> bool" where
  "skill_ok s \<longleftrightarrow> sk_ID s \<noteq> [] \<and> sk_Name s \<noteq> []"

definition entry_ok :: "AgentEntry \<Rightarrow> bool" where
  "entry_ok e \<longleftrightarrow> e_Name e \<noteq> [] \<and> ac_Description (e_Card e) \<noteq> [] \<and> ac_Version (e_Card e) \<noteq> [] \<and>
     e_QueueSubject e \<noteq> [] \<and> e_Runtime e \<noteq> [] \<and> 0 < e_ACPPort e \<and> e_Skills e \<noteq> [] \<and>
     (\<forall>s\<in>set (e_Skills e). skill_ok s)"

definition reg_wf :: "AgentEntry list \<Rightarrow> bool" where
  "reg_wf es \<longleftrightarrow> (\<forall>e\<in>set es. entry_ok e) \<and> distinct (map e_Name es) \<and>
     distinct (map e_QueueSubject es)"

lemma validate_skills_None: "validate_skills i j ss = None \<longleftrightarrow> (\<forall>s\<in>set ss. skill_ok s)"
  by (induction ss arbitrary: j) (auto simp: skill_ok_def)

fun err_index :: "registry_error \<Rightarrow> nat option" where
  "err_index (FieldRequired i _) = Some i"
| "err_index (SkillFieldRequired i _ _) = Some i"
| "err_index (BadPort i) = Some i"
| "err_index (NoSkills i) = Some i"
| "err_index _ = None"

lemma validate_skills_index: "validate_skills i j ss = Some err \<Longrightarrow> err_index err = Some i"
  by (induction ss arbitrary: j) (auto split: if_splits)

lemma validate_loop_ok:
  assumes "entry_ok e"
  shows "validate_loop i names subjects (e # es) =
    (if mget False names (e_Name e) then Some (DuplicateName (e_Name e))
     else if mget False subjects (e_QueueSubject e) then Some (DuplicateSubject (e_QueueSubject e))
     else validate_loop (Suc i) (mput (e_Name e) True names)
            (mput (e_QueueSubject e) True subjects) es)"
  using assms validate_skills_None [of i 0 "e_Skills e"] by (auto simp: entry_ok_def)

lemma validate_loop_bad:
  assumes "\<not> entry_ok e"
  shows "\<exists>err. validate_loop i names subjects (e # es) = Some err \<and> err_index err = Some i"
proof (cases "validate_skills i 0 (e_Skills e)")
  case None
  with assms validate_skills_None [of i 0 "e_Skills e"] show ?thesis
    by (auto simp: entry_ok_def)
next
  case (Some x)
  with validate_skills_index [OF Some] show ?thesis by simp
qed

lemma validate_loop_None:
  "validate_loop i names subjects es = None \<longleftrightarrow>
     reg_wf es \<and> (\<forall>e\<in>set es. \<not> mget False names (e_Name e) \<and> \<not> mget False subjects (e_QueueSubject e))"
proof (induction es arbitrary: i names subjects)
  case Nil
  then show ?case by (simp add: reg_wf_def)
next
  case (Cons e es)
  show ?case
  proof (cases "entry_ok e")
    case True
    show ?thesis
      unfolding validate_loop_ok [OF True] using True
      by (auto simp: Cons.IH reg_wf_def image_iff dest: sym) (metis+)?
  next
    case False
    then show ?thesis by (metis option.distinct(1) validate_loop_bad reg_wf_def list.set_intros(1))
  qed
qed

lemma validate_None_iff: "validate entries = None \<longleftrightarrow> reg_wf entries"
  by (simp add: validate_def validate_loop_None)

lemma LoadFromReader_Inr:
  "LoadFromReader decode r = Inr reg \<longleftrightarrow> decode r = Inr (agents reg) \<and> reg_wf (agents reg)"
  unfolding LoadFromReader_def
  by (cases reg; cases "decode r") (auto simp: validate_None_iff [symmetric] split: option.splits)

text \<open>The first faulty entry is the one reported: everything before it is well formed.\<close>

lemma validate_loop_index:
  assumes "validate_loop i names subjects es = Some err" "err_index err = Some k"
  shows "\<exists>m. k = i + m \<and> m < length es \<and> (\<forall>e\<in>set (take m es). entry_ok e) \<and> \<not> entry_ok (es ! m)"
  using assms
proof (induction es arbitrary: i names subjects)
  case (Cons e es)
  show ?case
  proof (cases "entry_ok e")
    case True
    with Cons.prems have "validate_loop (Suc i) (mput (e_Name e) True names)
        (mput (e_QueueSubject e) True subjects) es = Some err"
      unfolding validate_loop_ok [OF True] by (auto split: if_splits)
    from Cons.IH [OF this Cons.prems(2)] obtain m where
      "k = Suc i + m" "m < length es" "\<forall>e\<in>set (take m es). entry_ok e" "\<not> entry_ok (es ! m)"
      by blast
    with True show ?thesis by (intro exI [of _ "Suc m"]) simp
  next
    case False
    with Cons.prems show ?thesis
      by (intro exI [of _ 0]) (metis validate_loop_bad add.right_neutral empty_iff length_Cons
          list.set(1) nth_Cons_0 option.inject take_0 zero_less_Suc)
  qed
qed simp

section \<open>Lookups as filters\<close>

definition offers :: "string \<Rightarrow> AgentEntry \<Rightarrow> bool" where
  "offers skillID e \<longleftrightarrow> skillID \<in> sk_ID ` set (e_Skills e)"

definition tagged :: "string \<Rightarrow> AgentEntry \<Rightarrow> bool" where
  "tagged tag e \<longleftrightarrow> (\<exists>s\<in>set (e_Skills e). tag \<in> set (sk_Tags s))"

lemma has_skill_iff: "has_skill x ss \<longleftrightarrow> x \<in> sk_ID ` set ss"
  by (induction ss) auto

lemma has_tag_iff: "has_tag x ss \<longleftrightarrow> (\<exists>s\<in>set ss. x \<in> set (sk_Tags s))"
  by (induction ss) auto

lemma find_by_skill_filter: "find_by_skill x es = filter (offers x) es"
  by (induction es) (auto simp: has_skill_iff offers_def)

lemma find_by_tag_filter: "find_by_tag x es = filter (tagged x) es"
  by (induction es) (auto simp: has_tag_iff tagged_def)

lemma find_by_name_find: "find_by_name x es = List.find (\<lambda>e. e_Name e = x) es"
  by (induction es) auto

lemma find_by_name_Some:
  assumes "distinct (map e_Name es)"
  shows "find_by_name x es = Some e \<longleftrightarrow> e \<in> set es \<and> e_Name e = x"
  using assms by (induction es) auto

lemma find_by_name_None: "find_by_name x es = None \<longleftrightarrow> x \<notin> e_Name ` set es"
  by (induction es) auto

section \<open>The score, exactly\<close>

text \<open>
  \<open>halves\<close> counts the points of half a unit an agent collects and \<open>score_tenths\<close> is ten times
  the exact score. Sums of halves are exact in \<open>float64\<close>; the final addition of \<open>0.1\<close> rounds, and
  stays strictly between the neighbouring halves.
\<close>

definition runtime_match :: "AgentEntry \<Rightarrow> RoutingRequest \<Rightarrow> bool" where
  "runtime_match e req \<longleftrightarrow> q_PreferredRuntime req \<noteq> [] \<and> e_Runtime e = q_PreferredRuntime req"

definition halves :: "AgentEntry \<Rightarrow> RoutingRequest \<Rightarrow> nat" where
  "halves e req = (if q_SkillID req \<noteq> [] \<and> offers (q_SkillID req) e then 2 else 0) +
     length (filter (\<lambda>t. tagged t e) (q_Tags req))"

definition score_tenths :: "AgentEntry \<Rightarrow> RoutingRequest \<Rightarrow> nat" where
  "score_tenths e req = 5 * halves e req + (if runtime_match e req then 1 else 0)"

lemma fl64_nat_div:
  assumes "k \<le> 2 ^ 53"
  shows "fl64 (of_nat k / 2 ^ s) = of_nat k / 2 ^ s"
  using fl64_exact [of "of_nat k / 2 ^ s" "int k" "- int s"] assms
  by (simp add: power_int_minus divide_inverse)

lemma fadd_halves:
  assumes "k + m \<le> 2 ^ 53"
  shows "fadd (of_nat k / 2) (of_nat m / 2) = of_nat (k + m) / 2"
  using fl64_nat_div [OF assms, of 1] by (simp add: fadd_def add_divide_distrib)

lemma mget_fold_put: "mget False (fold (\<lambda>t m. mput t True m) ts m) x \<longleftrightarrow> x \<in> set ts \<or> mget False m x"
  by (induction ts arbitrary: m) auto

lemma mget_agent_tags:
  "mget False (agent_tags ss m) x \<longleftrightarrow> (\<exists>s\<in>set ss. x \<in> set (sk_Tags s)) \<or> mget False m x"
  by (induction ss arbitrary: m) (auto simp: mget_fold_put)

lemma score_tags_halves:
  assumes "k + length ts \<le> 2 ^ 53"
  shows "score_tags tags ts (of_nat k / 2) = of_nat (k + length (filter (mget False tags) ts)) / 2"
  using assms
proof (induction ts arbitrary: k)
  case (Cons t ts)
  from Cons.prems have f: "fadd (of_nat k / 2) (1 / 2) = of_nat (Suc k) / 2"
    using fadd_halves [of k 1] by simp
  show ?case
    using Cons.IH [of k] Cons.IH [of "Suc k"] Cons.prems by (simp add: f del: of_nat_Suc)
qed simp

lemma score_skill_halves:
  "score_skill x (e_Skills e) 0 = of_nat (if x \<noteq> [] \<and> offers x e then 2 else 0) / 2"
proof -
  have f: "fadd 0 1 = 1" using fl64_int [of 1] by (simp add: fadd_def)
  have "score_skill x ss 0 = (if x \<noteq> [] \<and> x \<in> sk_ID ` set ss then 1 else 0)" for ss
    by (induction ss) (auto simp: f)
  then show ?thesis by (simp add: offers_def)
qed

lemma Score_halves:
  assumes "length (q_Tags req) < 2 ^ 48"
  shows "Score e req = (if runtime_match e req then fl64 (of_nat (halves e req) / 2 + tenth)
                        else of_nat (halves e req) / 2)"
proof -
  define k :: nat where "k = (if q_SkillID req \<noteq> [] \<and> offers (q_SkillID req) e then 2 else 0)"
  have "k + length (q_Tags req) \<le> 2 ^ 53"
    using assms by (simp add: k_def)
  note tags = score_tags_halves [OF this, of "agent_tags (e_Skills e) []"]
  have eq: "mget False (agent_tags (e_Skills e) []) = (\<lambda>t. tagged t e)"
    by (rule ext) (simp add: mget_agent_tags tagged_def)
  have h: "halves e req = k + length (filter (\<lambda>t. tagged t e) (q_Tags req))"
    by (simp add: halves_def k_def)
  have "(if q_Tags req \<noteq> [] then score_tags (agent_tags (e_Skills e) []) (q_Tags req) (of_nat k / 2)
         else of_nat k / 2) = of_nat (halves e req) / 2"
    unfolding tags eq h by simp
  note total = this
  show ?thesis
    unfolding Score_def Let_def score_skill_halves k_def [symmetric] total fadd_def runtime_match_def
    by (rule refl)
qed

lemma tenth_bounds: "1 / 16 \<le> tenth" "tenth \<le> 1 / 4"
proof -
  have "fl64 (1 / 16) = 1 / 16" "fl64 (1 / 4) = 1 / 4"
    using fl64_nat_div [of 1 4] fl64_nat_div [of 1 2] by simp_all
  then show "1 / 16 \<le> tenth" "tenth \<le> 1 / 4"
    using fl64_mono [of "1 / 16" "1 / 10"] fl64_mono [of "1 / 10" "1 / 4"]
    by (simp_all add: tenth_def)
qed

lemma fl64_tenth_bounds:
  assumes "h < 2 ^ 49"
  shows "of_nat h / 2 + 1 / 16 \<le> fl64 (of_nat h / 2 + tenth)"
    and "fl64 (of_nat h / 2 + tenth) \<le> of_nat h / 2 + 1 / 4"
proof -
  have lo: "(of_nat h / 2 + 1 / 16 :: rat) = of_nat (8 * h + 1) / 2 ^ 4"
   and hi: "(of_nat h / 2 + 1 / 4 :: rat) = of_nat (2 * h + 1) / 2 ^ 2"
    by (simp_all add: add_divide_distrib)
  have "fl64 (of_nat h / 2 + 1 / 16) = of_nat h / 2 + 1 / 16"
   and "fl64 (of_nat h / 2 + 1 / 4) = of_nat h / 2 + 1 / 4"
    unfolding lo hi by (rule fl64_nat_div; use assms in simp)+
  then show "of_nat h / 2 + 1 / 16 \<le> fl64 (of_nat h / 2 + tenth)"
    and "fl64 (of_nat h / 2 + tenth) \<le> of_nat h / 2 + 1 / 4"
    using fl64_mono [of "of_nat h / 2 + 1 / 16" "of_nat h / 2 + tenth"]
      fl64_mono [of "of_nat h / 2 + tenth" "of_nat h / 2 + 1 / 4"] tenth_bounds
    by simp_all
qed

lemma halves_bound: "length (q_Tags req) < 2 ^ 48 \<Longrightarrow> halves e req < 2 ^ 49"
  by (drule order.strict_trans1 [OF length_filter_le [of "\<lambda>t. tagged t e"]]) (simp add: halves_def)

lemma Score_mono_tenths:
  assumes "length (q_Tags req) < 2 ^ 48" "score_tenths e req < score_tenths e' req"
  shows "Score e req < Score e' req"
proof -
  note b = fl64_tenth_bounds [OF halves_bound [OF assms(1), of e]]
    and b' = fl64_tenth_bounds [OF halves_bound [OF assms(1), of e']]
  show ?thesis
  proof (cases "halves e req = halves e' req")
    case True
    with assms(2) have "\<not> runtime_match e req" "runtime_match e' req"
      by (auto simp: score_tenths_def split: if_splits)
    then show ?thesis using True b' by (simp add: Score_halves [OF assms(1)])
  next
    case False
    with assms(2) have "halves e req < halves e' req"
      by (auto simp: score_tenths_def split: if_splits)
    then have "(of_nat (halves e req) / 2 + 1 / 2 :: rat) \<le> of_nat (halves e' req) / 2"
      by (simp add: field_simps)
    then show ?thesis using b b' by (auto simp: Score_halves [OF assms(1)])
  qed
qed

lemma Score_eq_tenths:
  assumes "length (q_Tags req) < 2 ^ 48" "score_tenths e req = score_tenths e' req"
  shows "Score e req = Score e' req"
proof -
  have "halves e req = halves e' req" "runtime_match e req = runtime_match e' req"
    using assms(2) by (auto simp: score_tenths_def split: if_splits) presburger+
  then show ?thesis by (simp add: Score_halves [OF assms(1)])
qed

lemma Score_less_iff:
  assumes "length (q_Tags req) < 2 ^ 48"
  shows "Score e req < Score e' req \<longleftrightarrow> score_tenths e req < score_tenths e' req"
  using Score_mono_tenths [OF assms] Score_eq_tenths [OF assms]
  by (metis linorder_neqE_nat less_asym less_irrefl)

lemma Score_pos_iff:
  assumes "length (q_Tags req) < 2 ^ 48"
  shows "0 < Score e req \<longleftrightarrow> 0 < score_tenths e req"
  using fl64_tenth_bounds(1) [OF halves_bound [OF assms, of e]]
  by (auto simp: Score_halves [OF assms] score_tenths_def intro: less_le_trans)

section \<open>Routing\<close>

text \<open>The entry a routing loop settles on: the first of those with the highest, positive score.\<close>

definition first_best :: "RoutingRequest \<Rightarrow> AgentEntry list \<Rightarrow> AgentEntry \<Rightarrow> bool" where
  "first_best req es e \<longleftrightarrow> 0 < Score e req \<and> (\<exists>xs ys. es = xs @ e # ys \<and>
     (\<forall>x\<in>set xs. Score x req < Score e req) \<and> (\<forall>y\<in>set ys. Score y req \<le> Score e req))"

lemma best_loop_cases:
  "best_loop req es best b = best \<and> (\<forall>e\<in>set es. Score e req \<le> b) \<or>
   (\<exists>xs e ys. best_loop req es best b = Some e \<and> es = xs @ e # ys \<and> b < Score e req \<and>
     (\<forall>x\<in>set xs. Score x req < Score e req) \<and> (\<forall>y\<in>set ys. Score y req \<le> Score e req))"
proof (induction es arbitrary: best b)
  case (Cons a es)
  show ?case
  proof (cases "b < Score a req")
    case True
    from Cons.IH [of "Some a" "Score a req"] show ?thesis
    proof (elim disjE exE conjE)
      assume "best_loop req es (Some a) (Score a req) = Some a" "\<forall>e\<in>set es. Score e req \<le> Score a req"
      with True show ?thesis
        by (intro disjI2 exI [of _ "[]"] exI [of _ a] exI [of _ es]) simp
    next
      fix xs e ys
      assume "best_loop req es (Some a) (Score a req) = Some e" "es = xs @ e # ys"
        "Score a req < Score e req" "\<forall>x\<in>set xs. Score x req < Score e req"
        "\<forall>y\<in>set ys. Score y req \<le> Score e req"
      with True show ?thesis
        by (intro disjI2 exI [of _ "a # xs"] exI [of _ e] exI [of _ ys]) simp
    qed
  next
    case False
    from Cons.IH [of best b] show ?thesis
    proof (elim disjE exE conjE)
      assume "best_loop req es best b = best" "\<forall>e\<in>set es. Score e req \<le> b"
      with False show ?thesis by simp
    next
      fix xs e ys
      assume "best_loop req es best b = Some e" "es = xs @ e # ys"
        "b < Score e req" "\<forall>x\<in>set xs. Score x req < Score e req"
        "\<forall>y\<in>set ys. Score y req \<le> Score e req"
      with False show ?thesis
        by (intro disjI2 exI [of _ "a # xs"] exI [of _ e] exI [of _ ys]) auto
    qed
  qed
qed simp

lemma first_best_unique:
  assumes "first_best req es e" "first_best req es e'"
  shows "e = e'"
proof -
  obtain xs ys xs' ys' where
    s: "es = xs @ e # ys" "\<forall>x\<in>set xs. Score x req < Score e req" "\<forall>y\<in>set ys. Score y req \<le> Score e req"
    and s': "es = xs' @ e' # ys'" "\<forall>x\<in>set xs'. Score x req < Score e' req" "\<forall>y\<in>set ys'. Score y req \<le> Score e' req"
    using assms unfolding first_best_def by blast
  from s(1) s'(1) have "xs @ e # ys = xs' @ e' # ys'" by simp
  then consider us where "xs = xs' @ us" "us @ e # ys = e' # ys'"
    | us where "xs' = xs @ us" "us @ e' # ys' = e # ys"
    by (auto simp: append_eq_append_conv2)
  then show ?thesis
  proof cases
    case 1
    then show ?thesis using s(2) s'(3) by (cases us) (auto simp: not_le [symmetric])
  next
    case 2
    then show ?thesis using s'(2) s(3) by (cases us) (auto simp: not_le [symmetric])
  qed
qed

lemma route_best_Inr: "route_best req es = Inr e \<longleftrightarrow> first_best req es e"
proof
  assume "route_best req es = Inr e"
  with best_loop_cases [of req es None 0] show "first_best req es e"
    by (auto simp: route_best_def first_best_def split: option.splits)
next
  assume fb: "first_best req es e"
  then have "e \<in> set es" "0 < Score e req" by (auto simp: first_best_def)
  then have "\<not> (\<forall>e\<in>set es. Score e req \<le> 0)" by (auto simp: not_le)
  with best_loop_cases [of req es None 0] obtain e' where
    "best_loop req es None 0 = Some e'" "first_best req es e'"
    unfolding first_best_def by blast
  with first_best_unique [OF fb] show "route_best req es = Inr e" by (simp add: route_best_def)
qed

lemma route_best_Inl: "route_best req es = Inl err \<longleftrightarrow> err = NoAgentMatched \<and> (\<forall>e\<in>set es. Score e req \<le> 0)"
  using best_loop_cases [of req es None 0]
  by (auto simp: route_best_def split: option.splits)

lemma first_best_tenths:
  assumes "length (q_Tags req) < 2 ^ 48"
  shows "first_best req es e \<longleftrightarrow> 0 < score_tenths e req \<and> (\<exists>xs ys. es = xs @ e # ys \<and>
     (\<forall>x\<in>set xs. score_tenths x req < score_tenths e req) \<and>
     (\<forall>y\<in>set ys. score_tenths y req \<le> score_tenths e req))"
proof -
  have le: "Score y req \<le> Score e req \<longleftrightarrow> score_tenths y req \<le> score_tenths e req" for y
    using Score_less_iff [OF assms, of e y] by (simp add: not_less [symmetric])
  show ?thesis
    unfolding first_best_def le Score_less_iff [OF assms] Score_pos_iff [OF assms] ..
qed

text \<open>A request that names only a skill scores \<open>1\<close> for the agents that offer it and \<open>0\<close> otherwise.\<close>

lemma Score_skill_only:
  "Score e \<lparr>q_SkillID = x, q_Tags = [], q_PreferredRuntime = []\<rparr> = (if x \<noteq> [] \<and> offers x e then 1 else 0)"
  by (simp add: Score_halves halves_def runtime_match_def)

lemma first_best_skill_only:
  assumes "first_best \<lparr>q_SkillID = x, q_Tags = [], q_PreferredRuntime = []\<rparr> es e"
  shows "\<exists>rest. filter (offers x) es = e # rest"
  using assms by (fastforce simp: first_best_def Score_skill_only filter_empty_conv split: if_splits)

section \<open>The registry interface\<close>

text \<open>
  \<open>AgentRegistry\<close> of \<open>interface.go\<close>. Every lookup is determined by \<open>all_entries\<close>; the lookup by name
  also relies on the invariant of the implementation. The lemmas are what a dispatcher may use of
  either implementation.
\<close>

locale agent_registry =
  fixes inv :: "'r \<Rightarrow> bool"
    and all_entries :: "'r \<Rightarrow> AgentEntry list"
    and find_skill :: "'r \<Rightarrow> string \<Rightarrow> AgentEntry list"
    and find_tag :: "'r \<Rightarrow> string \<Rightarrow> AgentEntry list"
    and find_name :: "'r \<Rightarrow> string \<Rightarrow> AgentEntry option"
    and route :: "'r \<Rightarrow> string \<Rightarrow> registry_error + string"
    and route_score :: "'r \<Rightarrow> RoutingRequest \<Rightarrow> registry_error + AgentEntry"
  assumes skill_law: "find_skill r x = filter (offers x) (all_entries r)"
    and tag_law: "find_tag r x = filter (tagged x) (all_entries r)"
    and name_law: "inv r \<Longrightarrow> find_name r x = Some e \<longleftrightarrow> e \<in> set (all_entries r) \<and> e_Name e = x"
    and route_law: "route r x = first_subject x (find_skill r x)"
    and score_law: "route_score r req = Inr e \<longleftrightarrow> first_best req (all_entries r) e"
    and no_score_law: "route_score r req = Inl err \<longleftrightarrow>
           err = NoAgentMatched \<and> (\<forall>e\<in>set (all_entries r). Score e req \<le> 0)"
begin

lemma route_sound:
  "route r x = Inr q \<Longrightarrow> \<exists>e\<in>set (all_entries r). offers x e \<and> e_QueueSubject e = q"
  by (auto simp: route_law skill_law first_subject_def filter_eq_Cons_iff split: list.splits)

lemma route_fails: "route r x = Inl err \<longleftrightarrow> err = NoAgentForSkill x \<and> (\<forall>e\<in>set (all_entries r). \<not> offers x e)"
  by (auto simp: route_law skill_law first_subject_def filter_empty_conv filter_eq_Cons_iff split: list.splits)

lemma name_unique:
  "inv r \<Longrightarrow> e \<in> set (all_entries r) \<Longrightarrow> e' \<in> set (all_entries r) \<Longrightarrow> e_Name e = e_Name e' \<Longrightarrow> e = e'"
  by (metis name_law option.inject)

lemma score_agrees_route:
  assumes "route_score r \<lparr>q_SkillID = x, q_Tags = [], q_PreferredRuntime = []\<rparr> = Inr e"
  shows "route r x = Inr (e_QueueSubject e)"
  using assms first_best_skill_only [of x "all_entries r" e]
  by (auto simp: score_law route_law skill_law first_subject_def)

end

lemma FindByName_law: "reg_wf (agents reg) \<Longrightarrow> FindByName reg x = Some e \<longleftrightarrow> e \<in> set (All reg) \<and> e_Name e = x"
  by (simp add: FindByName_def All_def reg_wf_def find_by_name_Some)

interpretation sr: agent_registry "\<lambda>reg. reg_wf (agents reg)" All FindBySkill FindByTag FindByName
  Route RouteByScore
  by unfold_locales
    (auto simp: FindBySkill_def FindByTag_def FindByName_law Route_def RouteByScore_def All_def
      find_by_skill_filter find_by_tag_filter route_best_Inr route_best_Inl)

section \<open>Properties\<close>

definition example_skill :: "string \<Rightarrow> string list \<Rightarrow> AgentSkill" where
  "example_skill x tags =
     \<lparr>sk_ID = x, sk_Name = x, sk_Description = [], sk_Tags = tags, sk_Examples = []\<rparr>"

definition example_agent :: "string \<Rightarrow> string \<Rightarrow> AgentSkill list \<Rightarrow> AgentEntry" where
  "example_agent name rt skills =
     \<lparr>e_Card = \<lparr>ac_Name = name, ac_Description = ''agent'', ac_Version = ''1'',
        ac_DefaultInputModes = [], ac_DefaultOutputModes = [], ac_Skills = skills,
        ac_Capabilities = \<lparr>cap_Streaming = False, cap_PushNotifications = False\<rparr>\<rparr>,
      e_QueueSubject = ''tasks.'' @ name, e_Runtime = rt, e_ACPPort = 3000\<rparr>"

definition example_writer :: AgentEntry where
  "example_writer = example_agent ''writer'' ''copilot'' [example_skill ''draft'' [''text'', ''docs'']]"

definition example_coder :: AgentEntry where
  "example_coder = example_agent ''coder'' ''claude''
     [example_skill ''draft'' [''text''], example_skill ''code'' [''go'']]"

definition example_request :: RoutingRequest where
  "example_request = \<lparr>q_SkillID = ''draft'', q_Tags = [''docs'', ''go''], q_PreferredRuntime = ''claude''\<rparr>"

lemma example_request_length: "length (q_Tags example_request) < 2 ^ 48"
  by (simp add: example_request_def)

lemma example_tenths:
  "score_tenths example_writer example_request = 15" "score_tenths example_coder example_request = 16"
  by code_simp+

text \<open>
  C14: loading accepts exactly the well-formed files. \<open>LoadFromReader\<close> returns a registry iff the
  decoder delivers its entries and every entry has its required fields, a positive port and at
  least one skill with id and name, and no two entries share a name or a queue subject; and an
  error that reports an index points at the first faulty entry.
\<close>

theorem LoadFromReader_correct:
  "(LoadFromReader decode r = Inr reg \<longleftrightarrow> decode r = Inr (agents reg) \<and> reg_wf (agents reg)) \<and>
   (validate es = Some err \<longrightarrow> err_index err = Some k \<longrightarrow>
     k < length es \<and> (\<forall>e\<in>set (take k es). entry_ok e) \<and> \<not> entry_ok (es ! k))"
  using validate_loop_index [of 0 "[]" "[]" es err k]
  by (simp add: validate_def LoadFromReader_Inr)

theorem LoadFromReader_correct_witness:
  "LoadFromReader (\<lambda>es. Inr es) [example_writer, example_coder] = Inr \<lparr>agents = [example_writer, example_coder]\<rparr> \<and>
   reg_wf [example_writer, example_coder] \<and>
   validate [example_writer, example_coder\<lparr>e_ACPPort := 0\<rparr>] = Some (BadPort 1) \<and>
   entry_ok example_writer \<and> \<not> entry_ok (example_coder\<lparr>e_ACPPort := 0\<rparr>)"
proof -
  have load: "LoadFromReader (\<lambda>es. Inr es) [example_writer, example_coder] =
      Inr \<lparr>agents = [example_writer, example_coder]\<rparr>"
    and bad: "validate [example_writer, example_coder\<lparr>e_ACPPort := 0\<rparr>] = Some (BadPort 1)"
    by code_simp+
  from load bad show ?thesis
    using LoadFromReader_correct [of "\<lambda>es. Inr es" "[example_writer, example_coder]"
      "\<lparr>agents = [example_writer, example_coder]\<rparr>"
      "[example_writer, example_coder\<lparr>e_ACPPort := 0\<rparr>]" "BadPort 1" 1]
    by simp
qed

text \<open>
  The routing score computed in \<open>float64\<close> orders agents exactly as the documented weights do
  (1 for the skill, 1/2 per matching requested tag, 1/10 for the runtime): the rounding of the
  last addition never makes two different exact scores tie or change order, and equal exact
  scores give the same float.
\<close>

lemma Score_order:
  assumes "length (q_Tags req) < 2 ^ 48"
  shows "(Score e req < Score e' req \<longleftrightarrow> score_tenths e req < score_tenths e' req) \<and>
    (Score e req = Score e' req \<longleftrightarrow> score_tenths e req = score_tenths e' req)"
  using Score_less_iff [OF assms] Score_eq_tenths [OF assms]
  by (metis linorder_neqE_nat less_irrefl)

text \<open>
  C13: \<open>RouteByScore\<close> returns the first agent of the file among those with the highest exact score,
  and fails exactly when every agent scores zero.
\<close>

theorem RouteByScore_correct:
  assumes "length (q_Tags req) < 2 ^ 48"
  shows "(RouteByScore reg req = Inr e \<longleftrightarrow> 0 < score_tenths e req \<and>
      (\<exists>xs ys. All reg = xs @ e # ys \<and> (\<forall>x\<in>set xs. score_tenths x req < score_tenths e req) \<and>
         (\<forall>y\<in>set ys. score_tenths y req \<le> score_tenths e req))) \<and>
    (RouteByScore reg req = Inl err \<longleftrightarrow>
      err = NoAgentMatched \<and> (\<forall>e\<in>set (All reg). score_tenths e req = 0))"
  using Score_pos_iff [OF assms]
  by (simp add: sr.score_law first_best_tenths [OF assms] sr.no_score_law not_less [symmetric])

theorem RouteByScore_correct_witness:
  "length (q_Tags example_request) < 2 ^ 48 \<and>
   RouteByScore \<lparr>agents = [example_writer, example_coder]\<rparr> example_request = Inr example_coder"
proof -
  have "\<exists>xs ys. All \<lparr>agents = [example_writer, example_coder]\<rparr> = xs @ example_coder # ys \<and>
     (\<forall>x\<in>set xs. score_tenths x example_request < score_tenths example_coder example_request) \<and>
     (\<forall>y\<in>set ys. score_tenths y example_request \<le> score_tenths example_coder example_request)"
    by (intro exI [of _ "[example_writer]"] exI [of _ "[]"]) (simp add: All_def example_tenths)
  then show ?thesis
    using RouteByScore_correct [OF example_request_length, THEN conjunct1] example_request_length
    by (simp add: example_tenths)
qed

text \<open>
  Lookups of a loaded registry. \<open>FindByName\<close> finds an entry iff it is in the registry under
  that name, names identify entries, \<open>Route\<close> returns the subject of an agent offering the skill
  and fails iff there is none, and routing by score on a bare skill agrees with \<open>Route\<close>.
\<close>

lemma lookup_correct:
  assumes "LoadFromReader decode r = Inr reg"
  shows "(FindByName reg x = Some e \<longleftrightarrow> e \<in> set (All reg) \<and> e_Name e = x) \<and>
    (e \<in> set (All reg) \<and> e' \<in> set (All reg) \<and> e_Name e = e_Name e' \<longrightarrow> e = e') \<and>
    (Route reg x = Inr q \<longrightarrow> (\<exists>e\<in>set (All reg). offers x e \<and> e_QueueSubject e = q)) \<and>
    (Route reg x = Inl err \<longleftrightarrow> err = NoAgentForSkill x \<and> (\<forall>e\<in>set (All reg). \<not> offers x e)) \<and>
    (RouteByScore reg \<lparr>q_SkillID = x, q_Tags = [], q_PreferredRuntime = []\<rparr> = Inr e \<longrightarrow>
      Route reg x = Inr (e_QueueSubject e))"
proof -
  have wf: "reg_wf (agents reg)" using assms by (simp add: LoadFromReader_Inr)
  show ?thesis
    using sr.name_law [OF wf, of x e] sr.name_unique [OF wf, of e e'] sr.route_sound [of reg x q]
      sr.route_fails [of reg x err] sr.score_agrees_route [of reg x e]
    by (intro conjI impI) simp_all
qed

section \<open>Repeated tags\<close>

text \<open>
  The comment on \<open>Score\<close> says that a tag counts once per unique tag; a tag repeated in the request
  counts once per repetition.
\<close>

lemma Score_duplicate_tags:
  assumes "tagged t e" "n < 2 ^ 48"
  shows "Score e \<lparr>q_SkillID = [], q_Tags = replicate n t, q_PreferredRuntime = []\<rparr> = of_nat n / 2"
  using assms by (simp add: Score_halves halves_def runtime_match_def)

end
