(* ===== verification/DynRegistry.thy ===== *)
theory DynRegistry
  imports Registry
begin

text \<open>
  The registry backed by a JetStream key-value bucket (\<open>src/internal/registry/dynamic.go\<close>): the
  local cache with its static fallback, the updates of the watcher, and the lookups. The bucket
  itself, JSON and the clock are parameters: the answers of the bucket are in a record \<open>kv_env\<close>, and
  the watcher consumes the list of events its \<open>select\<close> delivered. Go's \<open>sort.Slice\<close> is \<open>sort_key\<close>.
\<close>

section \<open>State and construction\<close>

record DynamicRegistry =
  d_agents :: "(string, AgentEntry) gomap"
  d_fallback :: "Registry option"

datatype nats_error =
    ErrStreamNameAlreadyInUse
  | ErrNoKeysFound
  | NatsError string

record 'b kv_env =
  kv_JetStream :: "nats_error option"
  kv_CreateKeyValue :: "int \<Rightarrow> nats_error option"
  kv_KeyValue :: "nats_error option"
  kv_Keys :: "nats_error + string list"
  kv_Get :: "string \<Rightarrow> nats_error + 'b"

fun nats_text :: "nats_error \<Rightarrow> string" where
  "nats_text ErrStreamNameAlreadyInUse = ''nats: stream name already in use''"
| "nats_text ErrNoKeysFound = ''nats: no keys found''"
| "nats_text (NatsError s) = s"

fun sync_loop ::
  "(string \<Rightarrow> nats_error + 'b) \<Rightarrow> ('b \<Rightarrow> string + AgentEntry) \<Rightarrow> string list \<Rightarrow>
   (string, AgentEntry) gomap \<Rightarrow> (string, AgentEntry) gomap" where
  "sync_loop get unmarshal [] m = m"
| "sync_loop get unmarshal (key # keys) m =
     (case get key of
        Inl _ \<Rightarrow> sync_loop get unmarshal keys m
      | Inr v \<Rightarrow>
          (case unmarshal v of
             Inl _ \<Rightarrow> sync_loop get unmarshal keys m
           | Inr ae \<Rightarrow> sync_loop get unmarshal keys (mput key ae m)))"

definition open_bucket :: "'b kv_env \<Rightarrow> int \<Rightarrow> nats_error option" where
  "open_bucket env TTL =
     (case kv_JetStream env of
        Some err \<Rightarrow> Some err
      | None \<Rightarrow>
          (case kv_CreateKeyValue env (if TTL \<le> 0 then 30 else TTL) of
             None \<Rightarrow> None
           | Some err \<Rightarrow> if err \<noteq> ErrStreamNameAlreadyInUse then Some err else kv_KeyValue env))"

definition initial_sync ::
  "'b kv_env \<Rightarrow> ('b \<Rightarrow> string + AgentEntry) \<Rightarrow> DynamicRegistry \<Rightarrow> registry_error + DynamicRegistry" where
  "initial_sync env unmarshal dr =
     (case kv_Keys env of
        Inl err \<Rightarrow> if err \<noteq> ErrNoKeysFound then Inl (KeyValueFailed (nats_text err)) else Inr dr
      | Inr keys \<Rightarrow> Inr (dr\<lparr>d_agents := sync_loop (kv_Get env) unmarshal keys (d_agents dr)\<rparr>))"

definition NewDynamicRegistry ::
  "'b kv_env \<Rightarrow> ('b \<Rightarrow> string + AgentEntry) \<Rightarrow> (string \<Rightarrow> registry_error + Registry) \<Rightarrow> string \<Rightarrow>
   int \<Rightarrow> registry_error + DynamicRegistry" where
  "NewDynamicRegistry env unmarshal load FallbackPath TTL =
     (case open_bucket env TTL of
        Some err \<Rightarrow> Inl (KeyValueFailed (nats_text err))
      | None \<Rightarrow>
          (let dr = \<lparr>d_agents = [], d_fallback = None\<rparr> in
           if FallbackPath \<noteq> [] then
             (case load FallbackPath of
                Inl err \<Rightarrow> Inl err
              | Inr reg \<Rightarrow> initial_sync env unmarshal (dr\<lparr>d_fallback := Some reg\<rparr>))
           else initial_sync env unmarshal dr))"

section \<open>The watcher\<close>

datatype 'b kv_entry =
    KeyValuePut string 'b
  | KeyValueDelete string
  | KeyValuePurge string

datatype 'b watch_event =
    CtxDone
  | UpdatesClosed
  | Update "'b kv_entry option"

fun apply_entry ::
  "('b \<Rightarrow> string + AgentEntry) \<Rightarrow> 'b kv_entry \<Rightarrow> DynamicRegistry \<Rightarrow> DynamicRegistry" where
  "apply_entry unmarshal (KeyValuePut key v) dr =
     (case unmarshal v of
        Inl _ \<Rightarrow> dr
      | Inr ae \<Rightarrow> dr\<lparr>d_agents := mput key ae (d_agents dr)\<rparr>)"
| "apply_entry unmarshal (KeyValueDelete key) dr = dr\<lparr>d_agents := mdel key (d_agents dr)\<rparr>"
| "apply_entry unmarshal (KeyValuePurge key) dr = dr\<lparr>d_agents := mdel key (d_agents dr)\<rparr>"

text \<open>
  How the watcher stands after the events delivered so far: still waiting, stopped cleanly, or
  stopped with an error.
\<close>

datatype watcher = Waiting | CleanStop | WatchFailed string

fun watch_loop ::
  "('b \<Rightarrow> string + AgentEntry) \<Rightarrow> 'b watch_event list \<Rightarrow> DynamicRegistry \<Rightarrow> DynamicRegistry \<times> watcher" where
  "watch_loop unmarshal [] dr = (dr, Waiting)"
| "watch_loop unmarshal (CtxDone # evs) dr = (dr, CleanStop)"
| "watch_loop unmarshal (UpdatesClosed # evs) dr = (dr, WatchFailed ''watch: updates channel closed'')"
| "watch_loop unmarshal (Update None # evs) dr = watch_loop unmarshal evs dr"
| "watch_loop unmarshal (Update (Some e) # evs) dr = watch_loop unmarshal evs (apply_entry unmarshal e dr)"

definition runWatcher ::
  "('b \<Rightarrow> string + AgentEntry) \<Rightarrow> string option \<Rightarrow> 'b watch_event list \<Rightarrow> DynamicRegistry \<Rightarrow>
   DynamicRegistry \<times> watcher" where
  "runWatcher unmarshal WatchAll_err evs dr =
     (case WatchAll_err of
        Some err \<Rightarrow> (dr, WatchFailed (''watch: failed to start watcher: '' @ err))
      | None \<Rightarrow> watch_loop unmarshal evs dr)"

text \<open>
  One round of \<open>watch\<close> as its environment shapes it: whether the context is done at the top, how
  \<open>WatchAll\<close> answers, the events, the running time in seconds, and whether the context ends
  during the pause. The function returns the registry and the pauses taken.
\<close>

record 'b watch_round =
  w_done :: bool
  w_start :: "string option"
  w_events :: "'b watch_event list"
  w_elapsed :: nat
  w_done_in_pause :: bool

definition initialBackoff :: nat where "initialBackoff = 1"
definition resetThreshold :: nat where "resetThreshold = 60"
definition maxBackoff :: nat where "maxBackoff = 30"

fun watch_rounds ::
  "('b \<Rightarrow> string + AgentEntry) \<Rightarrow> 'b watch_round list \<Rightarrow> nat \<Rightarrow> DynamicRegistry \<Rightarrow>
   DynamicRegistry \<times> nat list" where
  "watch_rounds unmarshal [] backoff dr = (dr, [])"
| "watch_rounds unmarshal (w # ws) backoff dr =
     (if w_done w then (dr, [])
      else case runWatcher unmarshal (w_start w) (w_events w) dr of
             (dr', Waiting) \<Rightarrow> (dr', [])
           | (dr', CleanStop) \<Rightarrow> (dr', [])
           | (dr', WatchFailed err) \<Rightarrow>
               (let b = (if resetThreshold \<le> w_elapsed w then initialBackoff else backoff) in
                if w_done_in_pause w then (dr', [b])
                else (case watch_rounds unmarshal ws (if b < maxBackoff then b * 2 else b) dr' of
                        (dr'', pauses) \<Rightarrow> (dr'', b # pauses))))"

definition watch ::
  "('b \<Rightarrow> string + AgentEntry) \<Rightarrow> 'b watch_round list \<Rightarrow> DynamicRegistry \<Rightarrow> DynamicRegistry \<times> nat list" where
  "watch unmarshal ws dr = watch_rounds unmarshal ws initialBackoff dr"

section \<open>Registration\<close>

text \<open>
  The requests sent to the bucket and the result. The request is sent by a goroutine that is
  started before the \<open>select\<close>, so it goes out also when the context wins.
\<close>

datatype 'b kv_op = KVPut string 'b | KVDelete string

definition Register ::
  "(AgentEntry \<Rightarrow> string + 'b) \<Rightarrow> string option \<Rightarrow> string option \<Rightarrow> AgentEntry \<Rightarrow>
   'b kv_op list \<times> registry_error option" where
  "Register marshal ctx_won put_err entry =
     (case marshal entry of
        Inl err \<Rightarrow> ([], Some (EncodeFailed err))
      | Inr data \<Rightarrow>
          ([KVPut (e_Name entry) data],
           case ctx_won of
             Some err \<Rightarrow> Some (ContextEnded err)
           | None \<Rightarrow> (case put_err of Some err \<Rightarrow> Some (KeyValueFailed err) | None \<Rightarrow> None)))"

definition Deregister ::
  "string option \<Rightarrow> string option \<Rightarrow> string \<Rightarrow> 'b kv_op list \<times> registry_error option" where
  "Deregister ctx_won del_err name =
     ([KVDelete name],
      case ctx_won of
        Some err \<Rightarrow> Some (ContextEnded err)
      | None \<Rightarrow> (case del_err of Some err \<Rightarrow> Some (KeyValueFailed err) | None \<Rightarrow> None))"

section \<open>Lookups\<close>

fun cache_loop ::
  "(string \<times> AgentEntry) list \<Rightarrow> (string, bool) gomap \<Rightarrow> AgentEntry list \<Rightarrow>
   (string, bool) gomap \<times> AgentEntry list" where
  "cache_loop [] seen result = (seen, result)"
| "cache_loop ((name, entry) # es) seen result =
     cache_loop es (mput name True seen) (result @ [entry])"

fun fallback_loop :: "(string, bool) gomap \<Rightarrow> AgentEntry list \<Rightarrow> AgentEntry list \<Rightarrow> AgentEntry list" where
  "fallback_loop seen [] result = result"
| "fallback_loop seen (entry # es) result =
     fallback_loop seen es (if \<not> mget False seen (e_Name entry) then result @ [entry] else result)"

definition dyn_All :: "DynamicRegistry \<Rightarrow> AgentEntry list" where
  "dyn_All dr =
     (let (seen, result) = cache_loop (d_agents dr) [] [];
          result = (case d_fallback dr of
                      None \<Rightarrow> result
                    | Some reg \<Rightarrow> fallback_loop seen (All reg) result)
      in sort_key e_Name result)"

definition dyn_FindBySkill :: "DynamicRegistry \<Rightarrow> string \<Rightarrow> AgentEntry list" where
  "dyn_FindBySkill dr skillID = find_by_skill skillID (dyn_All dr)"

definition dyn_FindByTag :: "DynamicRegistry \<Rightarrow> string \<Rightarrow> AgentEntry list" where
  "dyn_FindByTag dr tag = find_by_tag tag (dyn_All dr)"

definition dyn_FindByName :: "DynamicRegistry \<Rightarrow> string \<Rightarrow> AgentEntry option" where
  "dyn_FindByName dr name =
     (case mlookup (d_agents dr) name of
        Some e \<Rightarrow> Some e
      | None \<Rightarrow> (case d_fallback dr of Some reg \<Rightarrow> FindByName reg name | None \<Rightarrow> None))"

definition dyn_Route :: "DynamicRegistry \<Rightarrow> string \<Rightarrow> registry_error + string" where
  "dyn_Route dr skillID = first_subject skillID (dyn_FindBySkill dr skillID)"

definition dyn_RouteByScore :: "DynamicRegistry \<Rightarrow> RoutingRequest \<Rightarrow> registry_error + AgentEntry" where
  "dyn_RouteByScore dr req = route_best req (dyn_All dr)"

section \<open>Invariant\<close>

definition fallback_entries :: "DynamicRegistry \<Rightarrow> AgentEntry list" where
  "fallback_entries dr = (case d_fallback dr of None \<Rightarrow> [] | Some reg \<Rightarrow> agents reg)"

definition dyn_wf :: "DynamicRegistry \<Rightarrow> bool" where
  "dyn_wf dr \<longleftrightarrow> mwf (d_agents dr) \<and> (\<forall>(k, e)\<in>set (d_agents dr). e_Name e = k) \<and>
     distinct (map e_Name (fallback_entries dr))"

definition merged :: "DynamicRegistry \<Rightarrow> AgentEntry list" where
  "merged dr = map snd (d_agents dr) @
     filter (\<lambda>e. e_Name e \<notin> set (mkeys (d_agents dr))) (fallback_entries dr)"

lemma cache_loop_eq:
  "snd (cache_loop es seen result) = result @ map snd es"
  "mget False (fst (cache_loop es seen result)) k \<longleftrightarrow> k \<in> set (mkeys es) \<or> mget False seen k"
  by (induction es seen result rule: cache_loop.induct) (auto simp: mkeys_def)

lemma fallback_loop_eq:
  "fallback_loop seen es result = result @ filter (\<lambda>e. \<not> mget False seen (e_Name e)) es"
  by (induction seen es result rule: fallback_loop.induct) auto

lemma dyn_All_merged: "dyn_All dr = sort_key e_Name (merged dr)"
  unfolding dyn_All_def merged_def fallback_entries_def
  by (simp add: case_prod_unfold cache_loop_eq fallback_loop_eq All_def Let_def split: option.split)

lemma mwf_names:
  assumes "mwf m" "\<forall>(k, e)\<in>set m. e_Name e = k"
  shows "map (e_Name \<circ> snd) m = mkeys m"
  using assms(2) by (auto simp: mkeys_def)

lemma merged_names: "dyn_wf dr \<Longrightarrow> distinct (map e_Name (merged dr))"
  unfolding dyn_wf_def merged_def
  by (auto simp: mwf_names mwf_def mkeys_def distinct_map_filter image_iff)

lemma mem_merged:
  assumes "dyn_wf dr"
  shows "e \<in> set (merged dr) \<longleftrightarrow> mlookup (d_agents dr) (e_Name e) = Some e \<or>
     mlookup (d_agents dr) (e_Name e) = None \<and> e \<in> set (fallback_entries dr)"
proof -
  have m: "mwf (d_agents dr)" "\<forall>(k, e)\<in>set (d_agents dr). e_Name e = k"
    using assms by (simp_all add: dyn_wf_def)
  have "e \<in> snd ` set (d_agents dr) \<longleftrightarrow> mlookup (d_agents dr) (e_Name e) = Some e"
    using m by (force simp: mlookup_def mwf_def mkeys_def image_iff intro: map_of_is_SomeI dest: map_of_SomeD)
  then show ?thesis
    by (auto simp: merged_def mlookup_None_keys mlookup_Some_keys)
qed

lemma dyn_wf_key: "dyn_wf dr \<Longrightarrow> mlookup (d_agents dr) x = Some e \<Longrightarrow> e_Name e = x"
  unfolding dyn_wf_def mlookup_def by (blast dest: map_of_SomeD)

lemma dyn_FindByName_eq:
  "dyn_FindByName dr x = (case mlookup (d_agents dr) x of
      Some e \<Rightarrow> Some e | None \<Rightarrow> find_by_name x (fallback_entries dr))"
  by (cases "d_fallback dr"; cases "mlookup (d_agents dr) x")
    (simp_all add: dyn_FindByName_def fallback_entries_def FindByName_def)

lemma dyn_FindByName_law:
  assumes "dyn_wf dr"
  shows "dyn_FindByName dr x = Some e \<longleftrightarrow> e \<in> set (dyn_All dr) \<and> e_Name e = x"
proof (cases "mlookup (d_agents dr) x")
  case None
  have "distinct (map e_Name (fallback_entries dr))"
    using assms by (simp add: dyn_wf_def)
  then have "dyn_FindByName dr x = Some e \<longleftrightarrow> e \<in> set (fallback_entries dr) \<and> e_Name e = x"
    using None by (simp add: dyn_FindByName_eq find_by_name_Some)
  also have "\<dots> \<longleftrightarrow> e \<in> set (dyn_All dr) \<and> e_Name e = x"
    unfolding dyn_All_merged set_sort mem_merged [OF assms] using None by (metis option.distinct(1))
  finally show ?thesis .
next
  case (Some e')
  then have "dyn_FindByName dr x = Some e \<longleftrightarrow> e' = e" by (simp add: dyn_FindByName_eq)
  also have "\<dots> \<longleftrightarrow> e \<in> set (dyn_All dr) \<and> e_Name e = x"
    unfolding dyn_All_merged set_sort mem_merged [OF assms]
    using Some dyn_wf_key [OF assms Some] by (metis option.distinct(1) option.inject)
  finally show ?thesis .
qed

interpretation dyr: agent_registry dyn_wf dyn_All dyn_FindBySkill dyn_FindByTag dyn_FindByName
  dyn_Route dyn_RouteByScore
  by unfold_locales
    (auto simp: dyn_FindBySkill_def dyn_FindByTag_def dyn_FindByName_law dyn_Route_def
      dyn_RouteByScore_def find_by_skill_filter find_by_tag_filter route_best_Inr route_best_Inl)

text \<open>
  Whatever order the map iteration and the sorting algorithm produce, a sorted arrangement of the
  merged entries is this one: names are distinct.
\<close>

lemma sort_key_unique:
  assumes "mset ys = mset xs" "sorted (map f ys)" "distinct (map f xs)"
  shows "ys = sort_key f xs"
proof -
  have sets: "set ys = set xs" by (rule mset_eq_setD [OF assms(1)])
  have "distinct (map f ys)"
    using assms(1,3) by (metis mset_map mset_eq_imp_distinct_iff)
  then have "map f ys = map f (sort_key f xs)"
    using assms(2,3) sets
    by (intro sorted_distinct_set_unique) (simp_all add: distinct_map)
  moreover have "inj_on f (set ys \<union> set (sort_key f xs))"
    using assms(3) sets by (simp add: distinct_map)
  ultimately show ?thesis by (simp add: inj_on_map_eq_map)
qed

section \<open>The cache follows the updates\<close>

text \<open>What one update does to the entry cached under a key, and the updates a watcher consumes.\<close>

fun entry_effect ::
  "('b \<Rightarrow> string + AgentEntry) \<Rightarrow> string \<Rightarrow> 'b kv_entry \<Rightarrow> AgentEntry option \<Rightarrow> AgentEntry option" where
  "entry_effect unmarshal k (KeyValuePut key v) old =
     (if key = k then (case unmarshal v of Inl _ \<Rightarrow> old | Inr ae \<Rightarrow> Some ae) else old)"
| "entry_effect unmarshal k (KeyValueDelete key) old = (if key = k then None else old)"
| "entry_effect unmarshal k (KeyValuePurge key) old = (if key = k then None else old)"

fun updates :: "'b watch_event list \<Rightarrow> 'b kv_entry list" where
  "updates (Update None # evs) = updates evs"
| "updates (Update (Some e) # evs) = e # updates evs"
| "updates _ = []"

text \<open>Agents register under their own name; \<open>keyed\<close> says so of an update.\<close>

fun keyed :: "('b \<Rightarrow> string + AgentEntry) \<Rightarrow> 'b kv_entry \<Rightarrow> bool" where
  "keyed unmarshal (KeyValuePut key v) = (case unmarshal v of Inl _ \<Rightarrow> True | Inr ae \<Rightarrow> e_Name ae = key)"
| "keyed unmarshal _ = True"

lemma watch_loop_fold: "fst (watch_loop u evs dr) = fold (apply_entry u) (updates evs) dr"
  by (induction u evs dr rule: watch_loop.induct) auto

lemma apply_entry_fallback [simp]: "d_fallback (apply_entry u e dr) = d_fallback dr"
  by (cases e) (auto split: sum.split)

lemma apply_entry_lookup:
  "mlookup (d_agents (apply_entry u e dr)) k = entry_effect u k e (mlookup (d_agents dr) k)"
  by (cases e) (auto split: sum.split)

lemma fold_apply_fallback [simp]: "fallback_entries (fold (apply_entry u) es dr) = fallback_entries dr"
  by (induction es arbitrary: dr) (simp_all add: fallback_entries_def)

lemma fold_apply_lookup:
  "mlookup (d_agents (fold (apply_entry u) es dr)) k = fold (entry_effect u k) es (mlookup (d_agents dr) k)"
  by (induction es arbitrary: dr) (simp_all add: apply_entry_lookup)

lemma dyn_wf_iff:
  "dyn_wf dr \<longleftrightarrow> mwf (d_agents dr) \<and> (\<forall>k e. mlookup (d_agents dr) k = Some e \<longrightarrow> e_Name e = k) \<and>
     distinct (map e_Name (fallback_entries dr))"
proof -
  have "mwf m \<Longrightarrow> (\<forall>(k, e)\<in>set m. e_Name e = k) \<longleftrightarrow> (\<forall>k e. mlookup m k = Some e \<longrightarrow> e_Name e = k)" for m
    by (auto simp: mlookup_def mwf_def mkeys_def dest: map_of_SomeD)
  then show ?thesis by (auto simp: dyn_wf_def)
qed

lemma apply_entry_wf:
  assumes "dyn_wf dr" "keyed u e"
  shows "dyn_wf (apply_entry u e dr)"
proof -
  have "mwf (d_agents (apply_entry u e dr))"
    using assms(1) by (cases e) (auto simp: dyn_wf_iff split: sum.split)
  moreover have "e_Name a = k" if "mlookup (d_agents (apply_entry u e dr)) k = Some a" for k a
    using that assms unfolding apply_entry_lookup
    by (cases e) (auto simp: dyn_wf_iff split: if_splits sum.splits)
  ultimately show ?thesis
    using assms(1) by (auto simp: dyn_wf_iff fallback_entries_def)
qed

lemma fold_apply_wf: "dyn_wf dr \<Longrightarrow> \<forall>e\<in>set es. keyed u e \<Longrightarrow> dyn_wf (fold (apply_entry u) es dr)"
  by (induction es arbitrary: dr) (auto intro: apply_entry_wf)

definition names_ok :: "(string, AgentEntry) gomap \<Rightarrow> bool" where
  "names_ok m \<longleftrightarrow> mwf m \<and> (\<forall>k e. mlookup m k = Some e \<longrightarrow> e_Name e = k)"

lemma names_ok_empty [simp]: "names_ok []"
  by (simp add: names_ok_def)

lemma names_ok_put: "names_ok m \<Longrightarrow> e_Name e = k \<Longrightarrow> names_ok (mput k e m)"
  by (simp add: names_ok_def)

lemma dyn_wf_names: "dyn_wf dr \<longleftrightarrow> names_ok (d_agents dr) \<and> distinct (map e_Name (fallback_entries dr))"
  by (simp add: dyn_wf_iff names_ok_def)

lemma sync_loop_wf:
  assumes "names_ok m" and "\<And>k v. get k = Inr v \<Longrightarrow> keyed u (KeyValuePut k v)"
  shows "names_ok (sync_loop get u keys m)"
  using assms(1)
proof (induction keys arbitrary: m)
  case (Cons key keys)
  have "names_ok (mput key ae m)" if "get key = Inr v" "u v = Inr ae" for v ae
    using assms(2) [OF that(1)] that(2) Cons.prems by (simp add: names_ok_put)
  then show ?case
    using Cons.IH Cons.prems by (simp split: sum.split)
qed simp

lemma sync_loop_lookup:
  "mlookup (sync_loop get u keys m) k =
    (if k \<in> set keys then
       (case get k of Inl _ \<Rightarrow> mlookup m k
        | Inr v \<Rightarrow> (case u v of Inl _ \<Rightarrow> mlookup m k | Inr ae \<Rightarrow> Some ae))
     else mlookup m k)"
  by (induction keys arbitrary: m) (auto split: sum.split)

lemma initial_sync_Inr:
  "initial_sync env u dr = Inr dr' \<longleftrightarrow>
    (\<exists>keys. (kv_Keys env = Inr keys \<or> kv_Keys env = Inl ErrNoKeysFound \<and> keys = []) \<and>
       dr' = dr\<lparr>d_agents := sync_loop (kv_Get env) u keys (d_agents dr)\<rparr>)"
  by (cases "kv_Keys env") (auto simp: initial_sync_def)

lemma NewDynamicRegistry_Inr:
  assumes "NewDynamicRegistry env u load path ttl = Inr dr"
  shows "(\<exists>keys. (kv_Keys env = Inr keys \<or> kv_Keys env = Inl ErrNoKeysFound \<and> keys = []) \<and>
      d_agents dr = sync_loop (kv_Get env) u keys []) \<and>
    (if path = [] then d_fallback dr = None else \<exists>reg. load path = Inr reg \<and> d_fallback dr = Some reg)"
  using assms
  by (cases "open_bucket env ttl"; cases "path = []"; cases "load path")
    (auto simp: NewDynamicRegistry_def initial_sync_Inr)

section \<open>Pauses\<close>

lemma watch_rounds_pauses:
  "b \<in> {1, 2, 4, 8, 16, 32} \<Longrightarrow> set (snd (watch_rounds u ws b dr)) \<subseteq> {1, 2, 4, 8, 16, 32}"
proof (induction ws arbitrary: b dr)
  case (Cons w ws)
  define b1 where "b1 = (if resetThreshold \<le> w_elapsed w then initialBackoff else b)"
  have b1: "b1 \<in> {1, 2, 4, 8, 16, 32}"
    using Cons.prems unfolding b1_def initialBackoff_def by simp
  then have "(if b1 < maxBackoff then b1 * 2 else b1) \<in> {1, 2, 4, 8, 16, 32}"
    by (auto simp: maxBackoff_def)
  note IH = Cons.IH [OF this]
  obtain dr' st where "runWatcher u (w_start w) (w_events w) dr = (dr', st)"
    by fastforce
  then show ?case
    using IH [of dr'] b1
    by (cases st) (simp_all add: b1_def [symmetric] Let_def case_prod_unfold)
qed simp

text \<open>The pauses double up to the first one that is not below the limit of 30 seconds: 32.\<close>

lemma watch_pauses: "set (snd (watch u ws dr)) \<subseteq> {1, 2, 4, 8, 16, 32}"
  unfolding watch_def by (rule watch_rounds_pauses) (simp add: initialBackoff_def)

lemma watch_pause_exceeds_limit:
  "\<exists>ws :: nat watch_round list. \<exists>b\<in>set (snd (watch u ws dr)). maxBackoff < b"
proof -
  define w :: "nat watch_round" where
    "w = \<lparr>w_done = False, w_start = Some ''down'', w_events = [], w_elapsed = 0, w_done_in_pause = False\<rparr>"
  have "snd (watch u (replicate 6 w) dr) = [1, 2, 4, 8, 16, 32]"
    by (simp add: watch_def w_def runWatcher_def numeral_eq_Suc initialBackoff_def maxBackoff_def
        resetThreshold_def)
  then show ?thesis by (intro exI [of _ "replicate 6 w"]) (simp add: maxBackoff_def)
qed

section \<open>Properties\<close>

definition example_dyn :: DynamicRegistry where
  "example_dyn = \<lparr>d_agents = [(''coder'', example_coder)],
     d_fallback = Some \<lparr>agents = [example_writer, example_agent ''coder'' ''old'' []]\<rparr>\<rparr>"

lemma example_dyn_wf: "dyn_wf example_dyn"
proof -
  have "e_Name example_coder = ''coder''" by code_simp
  moreover have "distinct (map e_Name (fallback_entries example_dyn))" by code_simp
  ultimately show ?thesis
    by (simp add: dyn_wf_def example_dyn_def mwf_def mkeys_def)
qed

text \<open>
  C15: the merged view of the dynamic registry. On a registry whose cache holds every agent under
  its own name, the entries are sorted by name without repeated names, a cached agent hides the
  fallback entry of that name, the lookup by name finds exactly the listed entries, and any
  sorted arrangement of the merged entries is the listed one, so neither the iteration order of
  the map nor the sorting algorithm can show.
\<close>

theorem dyn_lookup_correct:
  assumes "dyn_wf dr"
  shows "sorted (map e_Name (dyn_All dr)) \<and> distinct (map e_Name (dyn_All dr)) \<and>
    (e \<in> set (dyn_All dr) \<longleftrightarrow> mlookup (d_agents dr) (e_Name e) = Some e \<or>
       mlookup (d_agents dr) (e_Name e) = None \<and> e \<in> set (fallback_entries dr)) \<and>
    (dyn_FindByName dr x = Some e \<longleftrightarrow> e \<in> set (dyn_All dr) \<and> e_Name e = x) \<and>
    (mset ys = mset (merged dr) \<and> sorted (map e_Name ys) \<longrightarrow> ys = dyn_All dr)"
proof (intro conjI impI)
  show "dyn_FindByName dr x = Some e \<longleftrightarrow> e \<in> set (dyn_All dr) \<and> e_Name e = x"
    by (rule dyr.name_law [OF assms])
  show "distinct (map e_Name (dyn_All dr))"
    using merged_names [OF assms] by (simp add: dyn_All_merged distinct_map)
  show "ys = dyn_All dr" if "mset ys = mset (merged dr) \<and> sorted (map e_Name ys)"
    using that sort_key_unique [OF _ _ merged_names [OF assms]] by (simp add: dyn_All_merged)
qed (simp_all add: dyn_All_merged mem_merged [OF assms])

theorem dyn_lookup_correct_witness:
  "dyn_wf example_dyn \<and> mset [example_coder, example_writer] = mset (merged example_dyn) \<and>
   dyn_All example_dyn = [example_coder, example_writer] \<and>
   dyn_FindByName example_dyn ''coder'' = Some example_coder"
proof -
  have m: "merged example_dyn = [example_coder, example_writer]"
    and "sorted (map e_Name [example_coder, example_writer])"
    and "e_Name example_coder = ''coder''"
    by code_simp+
  then show ?thesis
    using dyn_lookup_correct [OF example_dyn_wf, of example_coder "''coder''" "[example_coder, example_writer]"]
      example_dyn_wf by (metis list.set_intros(1))
qed

text \<open>
  C16: the cache of the dynamic registry follows the updates of the bucket. When the watcher has
  consumed a list of events, the agent found under a name is the one the last effective update of
  that key left there (a put that does not decode has no effect, a delete or purge removes the
  entry), and the fallback entry where none is left; the invariant is kept.
\<close>

theorem runWatcher_correct:
  assumes "dyn_wf dr" "\<forall>e\<in>set (updates evs). keyed unmarshal e"
  shows "dyn_wf (fst (runWatcher unmarshal None evs dr)) \<and>
    dyn_FindByName (fst (runWatcher unmarshal None evs dr)) k =
      (case fold (entry_effect unmarshal k) (updates evs) (mlookup (d_agents dr) k) of
         Some e \<Rightarrow> Some e | None \<Rightarrow> find_by_name k (fallback_entries dr))"
  using fold_apply_wf [OF assms]
  by (simp add: runWatcher_def watch_loop_fold dyn_FindByName_eq fold_apply_lookup split: option.split)

theorem runWatcher_correct_witness:
  "dyn_wf example_dyn \<and>
   dyn_FindByName (fst (runWatcher (\<lambda>n. if n = (0::nat) then Inr example_coder else Inl ''bad'') None
     [Update (Some (KeyValuePut ''coder'' 0)), Update None, Update (Some (KeyValuePut ''coder'' 1)),
      Update (Some (KeyValueDelete ''writer'')), CtxDone, Update (Some (KeyValuePurge ''coder''))]
     example_dyn)) ''coder'' = Some example_coder"
proof -
  have n: "e_Name example_coder = ''coder''" by code_simp
  show ?thesis
    using runWatcher_correct [OF example_dyn_wf,
        of "[Update (Some (KeyValuePut ''coder'' 0)), Update None, Update (Some (KeyValuePut ''coder'' 1)),
          Update (Some (KeyValueDelete ''writer'')), CtxDone, Update (Some (KeyValuePurge ''coder''))]"
          "\<lambda>n. if n = (0::nat) then Inr example_coder else Inl ''bad''" "''coder''"] n example_dyn_wf
    by simp
qed

text \<open>
  Registration round trip. When JSON decoding inverts encoding, the request \<open>Register\<close> sends,
  once the watcher receives it, makes the agent the one found under its name, and the request of
  \<open>Deregister\<close> uncovers the fallback entry again; both keep the invariant. The request goes out
  also when the caller's context ends first.
\<close>

lemma Register_visible:
  assumes "dyn_wf dr" "\<And>e d. marshal e = Inr d \<Longrightarrow> unmarshal d = Inr e"
    and "Register marshal ctx_won put_err entry = ([KVPut key data], res)"
  shows "dyn_wf (apply_entry unmarshal (KeyValuePut key data) dr) \<and>
    dyn_FindByName (apply_entry unmarshal (KeyValuePut key data) dr) (e_Name entry) = Some entry \<and>
    (Deregister ctx_won' del_err (e_Name entry) = ([KVDelete name :: 'b kv_op], res') \<longrightarrow>
      dyn_FindByName (apply_entry unmarshal (KeyValueDelete name)
        (apply_entry unmarshal (KeyValuePut key data) dr)) (e_Name entry) =
      find_by_name (e_Name entry) (fallback_entries dr))"
proof -
  from assms(3) have key: "key = e_Name entry" "marshal entry = Inr data"
    by (auto simp: Register_def split: sum.splits)
  with assms(2) have "unmarshal data = Inr entry" by blast
  moreover from this key have "keyed unmarshal (KeyValuePut key data)" by simp
  note apply_entry_wf [OF assms(1) this]
  ultimately show ?thesis
    using key by (auto simp: dyn_FindByName_eq fallback_entries_def Deregister_def)
qed

end
