(* ===== verification/Dispatch.thy ===== *)
theory Dispatch
  imports Registry "HOL-Library.Word"
begin

text \<open>
  The dispatcher (\<open>src/internal/dispatch\<close>): it names a task, routes it through the registry and
  publishes one message. The random source and the publisher are parameters; \<open>Dispatch\<close> returns
  what it handed to the publisher together with its result. The locale \<open>task_dispatcher\<close> is the
  \<open>TaskDispatcher\<close> interface that the orchestrator and the scheduler call.
\<close>

section \<open>Task specifications and identifiers\<close>

record TaskSpec =
  s_ID :: string
  s_SkillID :: string
  s_Tags :: "string list"
  s_Prompt :: string
  s_Metadata :: metadata
  s_Priority :: int

datatype dispatch_error =
    GenerateIDFailed string
  | RouteFailed string string registry_error
  | PublishFailed string string string
  | NilTask string

text \<open>\<open>hex.EncodeToString\<close>: two lower-case digits per byte.\<close>

definition hex_digit :: "nat \<Rightarrow> char" where
  "hex_digit n = (''0123456789abcdef'' ! n)"

fun EncodeToString :: "8 word list \<Rightarrow> string" where
  "EncodeToString [] = []"
| "EncodeToString (b # bs) = hex_digit (unat b div 16) # hex_digit (unat b mod 16) # EncodeToString bs"

text \<open>The outcome of \<open>rand.Read\<close> is an error or the bytes it filled the buffer with.\<close>

definition generateID :: "string + 8 word list \<Rightarrow> string + string" where
  "generateID rand = (case rand of Inl err \<Rightarrow> Inl err | Inr b \<Rightarrow> Inr (EncodeToString b))"

definition task_id :: "string + 8 word list \<Rightarrow> TaskSpec \<Rightarrow> string \<Rightarrow> string + string" where
  "task_id rand spec contextID =
     (if s_ID spec = [] then
        (case generateID rand of
           Inl err \<Rightarrow> Inl err
         | Inr suffix \<Rightarrow> Inr (if contextID \<noteq> [] then contextID @ ''-'' @ suffix else suffix))
      else Inr (s_ID spec))"

section \<open>Dispatch\<close>

definition task_request :: "string \<Rightarrow> string \<Rightarrow> TaskSpec \<Rightarrow> SendMessageRequest" where
  "task_request taskID contextID spec =
     \<lparr>r_Message = \<lparr>m_MessageID = taskID, m_ContextID = contextID, m_TaskID = taskID,
        m_Role = ''user'', m_Parts = [text_part (s_Prompt spec)], m_Metadata = s_Metadata spec\<rparr>,
      r_Configuration = None\<rparr>"

definition Dispatch ::
  "string + 8 word list \<Rightarrow> (string \<Rightarrow> SendMessageRequest \<Rightarrow> string option) \<Rightarrow> Registry \<Rightarrow> TaskSpec \<Rightarrow> string \<Rightarrow>
   (string \<times> SendMessageRequest) list \<times> (dispatch_error + string \<times> string)" where
  "Dispatch rand PublishJSON reg spec contextID =
     (case task_id rand spec contextID of
        Inl err \<Rightarrow> ([], Inl (GenerateIDFailed err))
      | Inr taskID \<Rightarrow>
          (case RouteByScore reg
                  \<lparr>q_SkillID = s_SkillID spec, q_Tags = s_Tags spec, q_PreferredRuntime = []\<rparr> of
             Inl err \<Rightarrow> ([], Inl (RouteFailed taskID (s_SkillID spec) err))
           | Inr entry \<Rightarrow>
               (let subject = e_QueueSubject entry;
                    req = task_request taskID contextID spec
                in case PublishJSON subject req of
                     Some err \<Rightarrow> ([(subject, req)], Inl (PublishFailed taskID subject err))
                   | None \<Rightarrow> ([(subject, req)], Inr (taskID, subject)))))"

section \<open>Identifiers\<close>

lemma length_EncodeToString: "length (EncodeToString bs) = 2 * length bs"
  by (induction bs) auto

lemma hex_digit_inj:
  assumes "a < 16" "b < 16" "hex_digit a = hex_digit b"
  shows "a = b"
proof -
  have "distinct ''0123456789abcdef''" "length ''0123456789abcdef'' = 16" by simp_all
  with assms show ?thesis unfolding hex_digit_def by (metis nth_eq_iff_index_eq)
qed

lemma EncodeToString_inj: "EncodeToString xs = EncodeToString ys \<Longrightarrow> xs = ys"
proof (induction xs arbitrary: ys)
  case Nil
  then show ?case by (cases ys) auto
next
  case (Cons x xs)
  then obtain y ys' where ys: "ys = y # ys'" by (cases ys) auto
  have small: "unat w div 16 < 16" for w :: "8 word"
    using unsigned_less [of w, where ?'a = nat] by (simp add: less_mult_imp_div_less)
  from Cons.prems ys have "unat x div 16 = unat y div 16" "unat x mod 16 = unat y mod 16"
    and rest: "EncodeToString xs = EncodeToString ys'"
    by (auto intro: hex_digit_inj small)
  then have "unat x = unat y" by (metis div_mult_mod_eq)
  with Cons.IH [OF rest] ys show ?case by (simp add: unsigned_word_eqI)
qed

lemma task_id_given: "s_ID spec \<noteq> [] \<Longrightarrow> task_id rand spec c = Inr (s_ID spec)"
  by (simp add: task_id_def)

lemma task_id_fresh:
  assumes "s_ID spec = []" "s_ID spec' = []" "task_id (Inr b) spec c = task_id (Inr b') spec' c"
  shows "b = b'"
  using assms EncodeToString_inj [of b b'] by (auto simp: task_id_def generateID_def split: if_splits)

section \<open>The dispatcher interface\<close>

text \<open>
  What a caller relies on: a task that comes with an identifier keeps it. The lemma says that
  waiting on the returned identifiers of a batch is waiting on the tasks of the batch.
\<close>

locale task_dispatcher =
  fixes dispatch :: "TaskSpec \<Rightarrow> string \<Rightarrow> dispatch_error + string \<times> string"
  assumes keeps_id: "dispatch spec c = Inr (taskID, subject) \<Longrightarrow> s_ID spec \<noteq> [] \<Longrightarrow> taskID = s_ID spec"
begin

lemma batch_ids:
  assumes "list_all2 (\<lambda>spec r. dispatch spec c = Inr r) specs rs" "\<forall>s\<in>set specs. s_ID s \<noteq> []"
  shows "map fst rs = map s_ID specs"
  using assms
proof (induction rule: list_all2_induct)
  case (Cons spec specs r rs)
  then show ?case using keeps_id [of spec c "fst r" "snd r"] by simp
qed simp

end

lemma Dispatch_Inr:
  "snd (Dispatch rand pub reg spec c) = Inr (taskID, subject) \<longleftrightarrow>
     task_id rand spec c = Inr taskID \<and>
     (\<exists>entry. RouteByScore reg \<lparr>q_SkillID = s_SkillID spec, q_Tags = s_Tags spec, q_PreferredRuntime = []\<rparr> = Inr entry \<and>
        subject = e_QueueSubject entry) \<and>
     pub subject (task_request taskID c spec) = None"
  by (auto simp: Dispatch_def Let_def split: sum.splits option.splits)

interpretation td: task_dispatcher "\<lambda>spec c. snd (Dispatch (rand spec) pub reg spec c)" for rand pub reg
  by unfold_locales (auto simp: Dispatch_Inr task_id_given)

lemma Dispatch_published:
  "fst (Dispatch rand pub reg spec c) =
    (case task_id rand spec c of
       Inl _ \<Rightarrow> []
     | Inr taskID \<Rightarrow>
         (case RouteByScore reg \<lparr>q_SkillID = s_SkillID spec, q_Tags = s_Tags spec, q_PreferredRuntime = []\<rparr> of
            Inl _ \<Rightarrow> []
          | Inr entry \<Rightarrow> [(e_QueueSubject entry, task_request taskID c spec)]))"
  by (auto simp: Dispatch_def Let_def split: sum.splits option.splits)

section \<open>Properties\<close>

text \<open>
  C17: a successful dispatch published exactly one message, on the queue subject of an agent of
  the registry that scores highest for the task's skill and tags; the message carries the task
  identifier twice, the context, the metadata, and text from which the receiving proxy recovers
  the prompt. A task that has an identifier keeps it, and a failed routing publishes nothing.
\<close>

theorem Dispatch_correct:
  assumes "length (s_Tags spec) < 2 ^ 48"
    and "Dispatch rand pub reg spec c = (sent, Inr (taskID, subject))"
  shows "\<exists>entry\<in>set (All reg). \<exists>req. sent = [(subject, req)] \<and> subject = e_QueueSubject entry \<and>
      0 < score_tenths entry \<lparr>q_SkillID = s_SkillID spec, q_Tags = s_Tags spec, q_PreferredRuntime = []\<rparr> \<and>
      (\<forall>e\<in>set (All reg).
         score_tenths e \<lparr>q_SkillID = s_SkillID spec, q_Tags = s_Tags spec, q_PreferredRuntime = []\<rparr> \<le>
         score_tenths entry \<lparr>q_SkillID = s_SkillID spec, q_Tags = s_Tags spec, q_PreferredRuntime = []\<rparr>) \<and>
      m_TaskID (r_Message req) = taskID \<and> m_MessageID (r_Message req) = taskID \<and>
      m_ContextID (r_Message req) = c \<and> m_Metadata (r_Message req) = s_Metadata spec \<and>
      ExtractPromptText (r_Message req) = s_Prompt spec \<and> (s_ID spec \<noteq> [] \<longrightarrow> taskID = s_ID spec)"
proof -
  define q where "q = \<lparr>q_SkillID = s_SkillID spec, q_Tags = s_Tags spec, q_PreferredRuntime = []\<rparr>"
  have len: "length (q_Tags q) < 2 ^ 48" using assms(1) by (simp add: q_def)
  from assms(2) have "snd (Dispatch rand pub reg spec c) = Inr (taskID, subject)" by simp
  then obtain entry where tid: "task_id rand spec c = Inr taskID" and route: "RouteByScore reg q = Inr entry"
    and sub: "subject = e_QueueSubject entry"
    unfolding Dispatch_Inr q_def by blast
  from assms(2) have "sent = fst (Dispatch rand pub reg spec c)" by simp
  then have sent: "sent = [(subject, task_request taskID c spec)]"
    using tid route sub by (simp add: Dispatch_published q_def [symmetric])
  from route obtain xs ys where best: "All reg = xs @ entry # ys" "0 < score_tenths entry q"
      "\<forall>x\<in>set xs. score_tenths x q < score_tenths entry q"
      "\<forall>y\<in>set ys. score_tenths y q \<le> score_tenths entry q"
    unfolding sr.score_law first_best_tenths [OF len] by blast
  have "s_ID spec \<noteq> [] \<Longrightarrow> taskID = s_ID spec" using tid task_id_given [of spec] by simp
  then show ?thesis
    unfolding q_def [symmetric] using best sent sub
    by (intro bexI [of _ entry] exI [of _ "task_request taskID c spec"])
      (auto simp: task_request_def ExtractPromptText_concat intro: less_imp_le)
qed

definition example_spec :: TaskSpec where
  "example_spec = \<lparr>s_ID = ''t1'', s_SkillID = ''code'', s_Tags = [''go''], s_Prompt = ''hello'',
     s_Metadata = [], s_Priority = 0\<rparr>"

text \<open>The registry of two agents; \<open>coder\<close> is the only one with the skill of the example task.\<close>

lemma example_dispatch:
  "Dispatch (Inl ''no entropy'') (\<lambda>_ _. None) \<lparr>agents = [example_writer, example_coder]\<rparr> example_spec ''ctx'' =
    ([(''tasks.coder'', task_request ''t1'' ''ctx'' example_spec)], Inr (''t1'', ''tasks.coder''))"
  by code_simp

theorem Dispatch_correct_witness:
  "length (s_Tags example_spec) < 2 ^ 48 \<and>
   (\<exists>entry\<in>set (All \<lparr>agents = [example_writer, example_coder]\<rparr>). e_QueueSubject entry = ''tasks.coder'')"
proof -
  have len: "length (s_Tags example_spec) < 2 ^ 48" by (simp add: example_spec_def)
  from Dispatch_correct [OF len example_dispatch] len show ?thesis by (elim bexE) auto
qed

text \<open>
  Generated identifiers. Within one context two tasks without identifiers get the same one
  only if the random source delivered the same bytes; eight bytes give sixteen characters.
\<close>

lemma task_id_unique:
  assumes "s_ID spec = []" "s_ID spec' = []"
  shows "(task_id (Inr b) spec c = task_id (Inr b') spec' c \<longleftrightarrow> b = b') \<and>
    (c = [] \<longrightarrow> (\<exists>t. task_id (Inr b) spec c = Inr t \<and> length t = 2 * length b))"
  using assms task_id_fresh [OF assms]
  by (auto simp: task_id_def generateID_def length_EncodeToString)

end
