(* ===== verification/Orchestrator.thy ===== *)
theory Orchestrator
  imports Dispatch
begin

text \<open>
  Fan-out dispatch (\<open>src/internal/orchestrator/types.go\<close>, \<open>orchestrator.go\<close>). The goroutines of a
  fan-out are independent: each builds its own \<open>TaskResult\<close> and sends it, with its index, into a
  channel. The order in which they arrive there is a parameter, a list of indices; so are the
  clock, the random source, and the dispatcher's answer to each task.
\<close>

section \<open>Requests and results\<close>

datatype wait_error = ContextCanceled | DeadlineExceeded

datatype orch_error =
    NoTasks
  | SkillRequired nat
  | PromptRequired nat
  | ContextIDFailed string
  | Interrupted wait_error

datatype task_error =
    DispatchError dispatch_error
  | WaitError string wait_error
  | OtherError string

record FanOutRequest =
  f_Tasks :: "TaskSpec list"
  f_ContextID :: string
  f_Metadata :: metadata

record TaskResult =
  tr_TaskID :: string
  tr_SkillID :: string
  tr_Status :: TaskState
  tr_Task :: "Task option"
  tr_Error :: "task_error option"
  tr_DispatchedAt :: int
  tr_CompletedAt :: int

record FanOutResult =
  fr_ContextID :: string
  fr_Tasks :: "TaskResult list"
  fr_StartedAt :: int
  fr_CompletedAt :: int

text \<open>The zero value of the Go struct, what \<open>make([]TaskResult, n)\<close> fills the slice with.\<close>

definition zero_TaskResult :: TaskResult where
  "zero_TaskResult = \<lparr>tr_TaskID = [], tr_SkillID = [], tr_Status = [], tr_Task = None, tr_Error = None,
     tr_DispatchedAt = 0, tr_CompletedAt = 0\<rparr>"

fun validate_tasks :: "nat \<Rightarrow> TaskSpec list \<Rightarrow> orch_error option" where
  "validate_tasks i [] = None"
| "validate_tasks i (t # ts) =
     (if s_SkillID t = [] then Some (SkillRequired i)
      else if s_Prompt t = [] then Some (PromptRequired i)
      else validate_tasks (Suc i) ts)"

definition validate_request :: "FanOutRequest \<Rightarrow> orch_error option" where
  "validate_request r = (if f_Tasks r = [] then Some NoTasks else validate_tasks 0 (f_Tasks r))"

section \<open>Fan-out\<close>

text \<open>
  What the environment contributes to a fan-out: the bytes for a context identifier, the clock at
  the start, at the end and around each dispatch, the answer of the dispatcher to task \<open>i\<close>, the order of
  arrival in the channel, and \<open>ctx.Err()\<close> at the end.
\<close>

record fanout_env =
  o_rand :: "string + 8 word list"
  o_start :: int
  o_end :: int
  o_before :: "nat \<Rightarrow> int"
  o_after :: "nat \<Rightarrow> int"
  o_dispatch :: "nat \<Rightarrow> TaskSpec \<Rightarrow> string \<Rightarrow> dispatch_error + string \<times> string"
  o_arrival :: "nat list"
  o_ctx_err :: "wait_error option"

definition generateContextID :: "string + 8 word list \<Rightarrow> string + string" where
  "generateContextID rand =
     (case rand of Inl err \<Rightarrow> Inl err | Inr b \<Rightarrow> Inr (''ctx-'' @ EncodeToString b))"

definition dispatch_one :: "fanout_env \<Rightarrow> string \<Rightarrow> nat \<Rightarrow> TaskSpec \<Rightarrow> TaskResult" where
  "dispatch_one env contextID idx s =
     (let tr = zero_TaskResult\<lparr>tr_SkillID := s_SkillID s, tr_DispatchedAt := o_before env idx,
                 tr_CompletedAt := o_after env idx\<rparr>
      in case o_dispatch env idx s contextID of
           Inl err \<Rightarrow> tr\<lparr>tr_TaskID := s_ID s, tr_Error := Some (DispatchError err),
                        tr_Status := TaskStateFailed\<rparr>
         | Inr (taskID, _) \<Rightarrow> tr\<lparr>tr_TaskID := taskID, tr_Status := TaskStateSubmitted\<rparr>)"

fun collect_slots :: "(nat \<times> TaskResult) list \<Rightarrow> TaskResult list \<Rightarrow> TaskResult list" where
  "collect_slots [] slots = slots"
| "collect_slots ((idx, r) # rs) slots = collect_slots rs (slots[idx := r])"

definition FanOut :: "fanout_env \<Rightarrow> FanOutRequest \<Rightarrow> FanOutResult option \<times> orch_error option" where
  "FanOut env req =
     (case validate_request req of
        Some err \<Rightarrow> (None, Some err)
      | None \<Rightarrow>
          (case (if f_ContextID req = [] then generateContextID (o_rand env) else Inr (f_ContextID req)) of
             Inl err \<Rightarrow> (None, Some (ContextIDFailed err))
           | Inr contextID \<Rightarrow>
               (let arrived = map (\<lambda>i. (i, dispatch_one env contextID i (f_Tasks req ! i))) (o_arrival env);
                    slots = collect_slots arrived (replicate (length (f_Tasks req)) zero_TaskResult)
                in (Some \<lparr>fr_ContextID = contextID, fr_Tasks = slots, fr_StartedAt = o_start env,
                          fr_CompletedAt = o_end env\<rparr>,
                    case o_ctx_err env of None \<Rightarrow> None | Some e \<Rightarrow> Some (Interrupted e)))))"

section \<open>Lemmas\<close>

definition request_ok :: "FanOutRequest \<Rightarrow> bool" where
  "request_ok r \<longleftrightarrow> f_Tasks r \<noteq> [] \<and> (\<forall>t\<in>set (f_Tasks r). s_SkillID t \<noteq> [] \<and> s_Prompt t \<noteq> [])"

lemma validate_tasks_None: "validate_tasks i ts = None \<longleftrightarrow> (\<forall>t\<in>set ts. s_SkillID t \<noteq> [] \<and> s_Prompt t \<noteq> [])"
  by (induction ts arbitrary: i) auto

lemma validate_request_None: "validate_request r = None \<longleftrightarrow> request_ok r"
  by (auto simp: validate_request_def request_ok_def validate_tasks_None)

lemma length_collect_slots [simp]: "length (collect_slots rs slots) = length slots"
  by (induction rs slots rule: collect_slots.induct) auto

lemma collect_slots_nth:
  assumes "distinct is" "\<forall>i\<in>set is. i < length slots" "k < length slots"
  shows "collect_slots (map (\<lambda>i. (i, f i)) is) slots ! k = (if k \<in> set is then f k else slots ! k)"
  using assms by (induction "is" arbitrary: slots) (auto simp: nth_list_update)

lemma collect_slots_perm:
  assumes "distinct is" "set is = {..<n}"
  shows "collect_slots (map (\<lambda>i. (i, f i)) is) (replicate n z) = map f [0..<n]"
  by (rule nth_equalityI) (use assms in \<open>auto simp: collect_slots_nth\<close>)

text \<open>All goroutines have sent before the channel is closed: every index arrives exactly once.\<close>

definition all_arrive :: "fanout_env \<Rightarrow> FanOutRequest \<Rightarrow> bool" where
  "all_arrive env req \<longleftrightarrow> distinct (o_arrival env) \<and> set (o_arrival env) = {..<length (f_Tasks req)}"

lemma FanOut_slots:
  assumes "all_arrive env req" "request_ok req"
    and "(if f_ContextID req = [] then generateContextID (o_rand env) else Inr (f_ContextID req)) = Inr c"
  shows "FanOut env req =
    (Some \<lparr>fr_ContextID = c,
           fr_Tasks = map (\<lambda>i. dispatch_one env c i (f_Tasks req ! i)) [0..<length (f_Tasks req)],
           fr_StartedAt = o_start env, fr_CompletedAt = o_end env\<rparr>,
     case o_ctx_err env of None \<Rightarrow> None | Some e \<Rightarrow> Some (Interrupted e))"
  using assms unfolding FanOut_def all_arrive_def
  by (simp add: validate_request_None [THEN iffD2] collect_slots_perm Let_def)

section \<open>Properties\<close>

text \<open>
  C18: fan-out. A request is refused exactly when it has no task or a task lacks its skill or
  prompt, or a context identifier cannot be generated; otherwise, in whatever order the goroutines
  finish, the result has one slot per task, in request order: submitted under the dispatcher's
  identifier when it accepted the task, failed with its error when it did not. A cancelled context
  is reported together with the complete result.
\<close>

theorem FanOut_correct:
  assumes "all_arrive env req"
  shows "case FanOut env req of
      (None, err) \<Rightarrow> err \<noteq> None \<and> (\<not> request_ok req \<or> f_ContextID req = [] \<and> (\<exists>e. o_rand env = Inl e))
    | (Some res, err) \<Rightarrow> request_ok req \<and> (f_ContextID req \<noteq> [] \<longrightarrow> fr_ContextID res = f_ContextID req) \<and>
        err = map_option Interrupted (o_ctx_err env) \<and>
        length (fr_Tasks res) = length (f_Tasks req) \<and>
        (\<forall>i<length (f_Tasks req). tr_SkillID (fr_Tasks res ! i) = s_SkillID (f_Tasks req ! i) \<and>
          (case o_dispatch env i (f_Tasks req ! i) (fr_ContextID res) of
             Inl e \<Rightarrow> tr_Status (fr_Tasks res ! i) = TaskStateFailed \<and>
               tr_Error (fr_Tasks res ! i) = Some (DispatchError e)
           | Inr (taskID, _) \<Rightarrow> tr_Status (fr_Tasks res ! i) = TaskStateSubmitted \<and>
               tr_TaskID (fr_Tasks res ! i) = taskID \<and> tr_Error (fr_Tasks res ! i) = None))"
proof (cases "request_ok req")
  case False
  then have "validate_request req \<noteq> None" by (simp add: validate_request_None)
  with False show ?thesis by (auto simp: FanOut_def)
next
  case True
  define c where "c = (if f_ContextID req = [] then generateContextID (o_rand env) else Inr (f_ContextID req))"
  show ?thesis
  proof (cases c)
    case (Inl e)
    with True show ?thesis
      by (auto simp: FanOut_def c_def validate_request_None [THEN iffD2] generateContextID_def
          split: if_splits sum.splits)
  next
    case (Inr cid)
    then have "f_ContextID req \<noteq> [] \<Longrightarrow> cid = f_ContextID req" by (simp add: c_def)
    with FanOut_slots [OF assms True Inr [unfolded c_def]] True show ?thesis
      by (auto simp: dispatch_one_def Let_def zero_TaskResult_def split: sum.split option.split)
  qed
qed

definition example_fanout :: fanout_env where
  "example_fanout = \<lparr>o_rand = Inl ''none'', o_start = 1, o_end = 9, o_before = (\<lambda>_. 2), o_after = (\<lambda>_. 3),
     o_dispatch = (\<lambda>i s c. if i = 0 then Inl (GenerateIDFailed ''x'') else Inr (s_ID s, ''q'')),
     o_arrival = [1, 0], o_ctx_err = None\<rparr>"

definition example_fanout_request :: FanOutRequest where
  "example_fanout_request =
     \<lparr>f_Tasks = [example_spec, example_spec], f_ContextID = ''c'', f_Metadata = []\<rparr>"

theorem FanOut_correct_witness:
  "all_arrive example_fanout example_fanout_request \<and>
   (\<exists>res. FanOut example_fanout example_fanout_request = (Some res, None) \<and>
      fr_ContextID res = ''c'' \<and> map tr_Status (fr_Tasks res) = [''failed'', ''submitted''])"
proof -
  have arr: "all_arrive example_fanout example_fanout_request"
    by (auto simp: all_arrive_def example_fanout_def example_fanout_request_def)
  have run: "map_option (\<lambda>r. map tr_Status (fr_Tasks r)) (fst (FanOut example_fanout example_fanout_request)) =
      Some [''failed'', ''submitted'']" by code_simp
  obtain res err where f: "FanOut example_fanout example_fanout_request = (Some res, err)"
    and tasks: "map tr_Status (fr_Tasks res) = [''failed'', ''submitted'']"
    using run by (cases "FanOut example_fanout example_fanout_request") auto
  have "fr_ContextID res = ''c'' \<and> err = None"
    using FanOut_correct [OF arr] unfolding f
    by (simp add: example_fanout_def example_fanout_request_def)
  with f arr tasks show ?thesis by simp
qed

end
