(* ===== verification/Collector.thy ===== *)
theory Collector
  imports Orchestrator
begin

text \<open>
  The result collector (\<open>src/internal/orchestrator/collector.go\<close>). Its maps are guarded by one mutex,
  so the atomic steps are the sections between \<open>Lock\<close> and \<open>Unlock\<close>; each is a function on the record
  \<open>collector\<close>. Channels are numbered in order of creation and hold at most one value, as the
  code makes them. \<open>cstep\<close> interleaves the sections of any number of \<open>WaitFor\<close> callers and message
  handlers; \<open>WaitFor\<close> itself is also given as a function of the events that reach one caller. Decoding
  is a parameter; trace spans and logging have no effect on the state and are left out.
\<close>

section \<open>State\<close>

record collector =
  results :: "(string, TaskResult) gomap"
  waiters :: "(string, nat list) gomap"
  buffers :: "(nat, TaskResult) gomap"
  nextch :: nat

record 'b nats_msg =
  n_Subject :: string
  n_Data :: 'b

definition NewResultCollector :: collector where
  "NewResultCollector = \<lparr>results = [], waiters = [], buffers = [], nextch = 0\<rparr>"

definition extractSuffix :: "string \<Rightarrow> string \<Rightarrow> string" where
  "extractSuffix subject pre =
     (if take (length pre) subject = pre then drop (length pre) subject else subject)"

definition isTerminal :: "TaskState \<Rightarrow> bool" where
  "isTerminal state \<longleftrightarrow>
     state \<in> {TaskStateCompleted, TaskStateFailed, TaskStateCanceled, TaskStateRejected}"

section \<open>Storing and notifying\<close>

fun notify :: "TaskResult \<Rightarrow> nat list \<Rightarrow> (nat, TaskResult) gomap \<Rightarrow> (nat, TaskResult) gomap" where
  "notify tr [] bufs = bufs"
| "notify tr (ch # chs) bufs =
     notify tr chs (if mlookup bufs ch = None then mput ch tr bufs else bufs)"

definition storeAndNotify :: "string \<Rightarrow> TaskResult \<Rightarrow> collector \<Rightarrow> collector" where
  "storeAndNotify taskID tr rc =
     (let rc1 = (case mlookup (results rc) taskID of
                   None \<Rightarrow> rc\<lparr>results := mput taskID tr (results rc)\<rparr>
                 | Some existing \<Rightarrow>
                     if tr_Task existing = None then rc\<lparr>results := mput taskID tr (results rc)\<rparr> else rc)
      in rc1\<lparr>buffers := notify tr (mget [] (waiters rc1) taskID) (buffers rc1),
             waiters := mdel taskID (waiters rc1)\<rparr>)"

definition handleResult :: "('b \<Rightarrow> string + Task) \<Rightarrow> 'b nats_msg \<Rightarrow> collector \<Rightarrow> collector" where
  "handleResult decode_task msg rc =
     (let taskID = extractSuffix (n_Subject msg) ''agent.results.'' in
      if taskID = [] then rc
      else case decode_task (n_Data msg) of
             Inl _ \<Rightarrow> rc
           | Inr task \<Rightarrow>
               (let taskID = (if t_ID task \<noteq> [] then t_ID task else taskID);
                    tr = zero_TaskResult\<lparr>tr_TaskID := taskID, tr_Status := ts_State (t_Status task),
                           tr_Task := Some task\<rparr>
                in storeAndNotify taskID tr rc))"

text \<open>
  \<open>handleStatus\<close> takes the mutex twice: once to look whether a result is there, and again in
  \<open>storeAndNotify\<close>. \<open>status_check\<close> is the first section, the result it is going to store.
\<close>

definition status_check :: "('b \<Rightarrow> string + TaskStatus) \<Rightarrow> 'b nats_msg \<Rightarrow> collector \<Rightarrow> (string \<times> TaskResult) option" where
  "status_check decode_status msg rc =
     (let taskID = extractSuffix (n_Subject msg) ''agent.status.'' in
      if taskID = [] then None
      else case decode_status (n_Data msg) of
             Inl _ \<Rightarrow> None
           | Inr status \<Rightarrow>
               if isTerminal (ts_State status) \<and> mlookup (results rc) taskID = None
               then Some (taskID, zero_TaskResult\<lparr>tr_TaskID := taskID, tr_Status := ts_State status\<rparr>)
               else None)"

definition handleStatus :: "('b \<Rightarrow> string + TaskStatus) \<Rightarrow> 'b nats_msg \<Rightarrow> collector \<Rightarrow> collector" where
  "handleStatus decode_status msg rc =
     (case status_check decode_status msg rc of
        None \<Rightarrow> rc
      | Some (taskID, tr) \<Rightarrow> storeAndNotify taskID tr rc)"

section \<open>Waiting\<close>

definition wait_register :: "string \<Rightarrow> collector \<Rightarrow> TaskResult + (nat \<times> collector)" where
  "wait_register taskID rc =
     (case mlookup (results rc) taskID of
        Some r \<Rightarrow> Inl r
      | None \<Rightarrow>
          (let ch = nextch rc
           in Inr (ch, rc\<lparr>waiters := mput taskID (mget [] (waiters rc) taskID @ [ch]) (waiters rc),
                          nextch := Suc ch\<rparr>)))"

definition wait_receive :: "nat \<Rightarrow> collector \<Rightarrow> (TaskResult \<times> collector) option" where
  "wait_receive ch rc =
     (case mlookup (buffers rc) ch of
        None \<Rightarrow> None
      | Some r \<Rightarrow> Some (r, rc\<lparr>buffers := mdel ch (buffers rc)\<rparr>))"

definition wait_abandon :: "string \<Rightarrow> nat \<Rightarrow> collector \<Rightarrow> collector" where
  "wait_abandon taskID ch rc =
     (let updated = filter (\<lambda>w. w \<noteq> ch) (mget [] (waiters rc) taskID)
      in if updated = [] then rc\<lparr>waiters := mdel taskID (waiters rc)\<rparr>
         else rc\<lparr>waiters := mput taskID updated (waiters rc)\<rparr>)"

datatype 'b collector_event =
    ResultMsg "'b nats_msg"
  | StatusMsg "'b nats_msg"
  | Cancelled wait_error

fun wait_loop ::
  "('b \<Rightarrow> string + Task) \<Rightarrow> ('b \<Rightarrow> string + TaskStatus) \<Rightarrow> string \<Rightarrow> nat \<Rightarrow> 'b collector_event list \<Rightarrow>
   collector \<Rightarrow> collector \<times> (task_error + TaskResult) option" where
  "wait_loop dt ds taskID ch evs rc =
     (case wait_receive ch rc of
        Some (r, rc') \<Rightarrow> (rc', Some (Inr r))
      | None \<Rightarrow>
          (case evs of
             [] \<Rightarrow> (rc, None)
           | ResultMsg m # evs' \<Rightarrow> wait_loop dt ds taskID ch evs' (handleResult dt m rc)
           | StatusMsg m # evs' \<Rightarrow> wait_loop dt ds taskID ch evs' (handleStatus ds m rc)
           | Cancelled e # evs' \<Rightarrow> (wait_abandon taskID ch rc, Some (Inl (WaitError taskID e)))))"

definition WaitFor ::
  "('b \<Rightarrow> string + Task) \<Rightarrow> ('b \<Rightarrow> string + TaskStatus) \<Rightarrow> 'b collector_event list \<Rightarrow> string \<Rightarrow>
   collector \<Rightarrow> collector \<times> (task_error + TaskResult) option" where
  "WaitFor dt ds evs taskID rc =
     (case wait_register taskID rc of
        Inl r \<Rightarrow> (rc, Some (Inr r))
      | Inr (ch, rc') \<Rightarrow> wait_loop dt ds taskID ch evs rc')"

text \<open>
  \<open>WaitForAll\<close> folds the answers of its callers in the order in which they arrive in its channel.
\<close>

fun collect_pairs ::
  "(string \<times> (task_error + TaskResult)) list \<Rightarrow> (string, TaskResult) gomap \<Rightarrow> task_error option \<Rightarrow>
   (string, TaskResult) gomap \<times> task_error option" where
  "collect_pairs [] out firstErr = (out, firstErr)"
| "collect_pairs ((taskID, Inl err) # ps) out firstErr =
     collect_pairs ps out (if firstErr = None then Some err else firstErr)"
| "collect_pairs ((taskID, Inr r) # ps) out firstErr = collect_pairs ps (mput taskID r out) firstErr"

definition WaitForAll ::
  "(string \<times> (task_error + TaskResult)) list \<Rightarrow> (string, TaskResult) gomap \<times> task_error option" where
  "WaitForAll arrived = collect_pairs arrived [] None"

section \<open>Start\<close>

datatype sub_action = Subscribe string | Unsubscribe string

definition Start :: "string option \<Rightarrow> string option \<Rightarrow> sub_action list \<times> string option" where
  "Start result_err status_err =
     (case result_err of
        Some err \<Rightarrow> ([], Some (''collector: subscribe agent.results.>: '' @ err))
      | None \<Rightarrow>
          (case status_err of
             Some err \<Rightarrow> ([Subscribe ''agent.results.>'', Unsubscribe ''agent.results.>''],
                          Some (''collector: subscribe agent.status.>: '' @ err))
           | None \<Rightarrow> ([Subscribe ''agent.results.>'', Subscribe ''agent.status.>'',
                       Unsubscribe ''agent.results.>'', Unsubscribe ''agent.status.>''], None)))"

section \<open>Interleavings\<close>

text \<open>
  The collector with its callers: \<open>blocked\<close> maps the channel of each caller inside its \<open>select\<close> to the
  task it waits for, \<open>pending\<close> are the status handlers between their two critical sections, and
  \<open>returned\<close> records what callers got.
\<close>

record system =
  col :: collector
  blocked :: "(nat, string) gomap"
  pending :: "(string \<times> TaskResult) list"
  returned :: "(string \<times> (wait_error + TaskResult)) list"

inductive cstep ::
  "('b \<Rightarrow> string + Task) \<Rightarrow> ('b \<Rightarrow> string + TaskStatus) \<Rightarrow> system \<Rightarrow> system \<Rightarrow> bool"
  for dt ds where
  hit: "wait_register t (col s) = Inl r \<Longrightarrow>
    cstep dt ds s (s\<lparr>returned := (t, Inr r) # returned s\<rparr>)"
| block: "wait_register t (col s) = Inr (ch, rc) \<Longrightarrow>
    cstep dt ds s (s\<lparr>col := rc, blocked := mput ch t (blocked s)\<rparr>)"
| receive: "mlookup (blocked s) ch = Some t \<Longrightarrow> wait_receive ch (col s) = Some (r, rc) \<Longrightarrow>
    cstep dt ds s (s\<lparr>col := rc, blocked := mdel ch (blocked s), returned := (t, Inr r) # returned s\<rparr>)"
| cancel: "mlookup (blocked s) ch = Some t \<Longrightarrow>
    cstep dt ds s (s\<lparr>col := wait_abandon t ch (col s), blocked := mdel ch (blocked s),
                     returned := (t, Inl e) # returned s\<rparr>)"
| result: "cstep dt ds s (s\<lparr>col := handleResult dt m (col s)\<rparr>)"
| check: "status_check ds m (col s) = Some p \<Longrightarrow> cstep dt ds s (s\<lparr>pending := p # pending s\<rparr>)"
| store: "(t, tr) \<in> set (pending s) \<Longrightarrow>
    cstep dt ds s (s\<lparr>col := storeAndNotify t tr (col s), pending := remove1 (t, tr) (pending s)\<rparr>)"

definition init_system :: system where
  "init_system = \<lparr>col = NewResultCollector, blocked = [], pending = [], returned = []\<rparr>"

inductive reach :: "('b \<Rightarrow> string + Task) \<Rightarrow> ('b \<Rightarrow> string + TaskStatus) \<Rightarrow> system \<Rightarrow> bool" for dt ds where
  start: "reach dt ds init_system"
| step: "reach dt ds s \<Longrightarrow> cstep dt ds s s' \<Longrightarrow> reach dt ds s'"

declare wait_loop.simps [simp del]

inductive_cases cstep_elim: "cstep dt ds s s'"

section \<open>What the sections do\<close>

text \<open>A result is acceptable for a task when it names the task and is final or carries the full answer.\<close>

definition result_ok :: "string \<Rightarrow> TaskResult \<Rightarrow> bool" where
  "result_ok t r \<longleftrightarrow> tr_TaskID r = t \<and> (tr_Task r \<noteq> None \<or> isTerminal (tr_Status r))"

definition replaceable :: "collector \<Rightarrow> string \<Rightarrow> bool" where
  "replaceable rc t \<longleftrightarrow> (case mlookup (results rc) t of None \<Rightarrow> True | Some r \<Rightarrow> tr_Task r = None)"

lemma notify_lookup:
  "mlookup (notify tr chs bufs) ch =
     (if ch \<in> set chs \<and> mlookup bufs ch = None then Some tr else mlookup bufs ch)"
  by (induction tr chs bufs rule: notify.induct) auto

lemma store_results:
  "mlookup (results (storeAndNotify t tr rc)) t' =
     (if t' = t \<and> replaceable rc t then Some tr else mlookup (results rc) t')"
  by (auto simp: storeAndNotify_def replaceable_def Let_def split: option.splits)

lemma store_waiters: "mget [] (waiters (storeAndNotify t tr rc)) t' = (if t' = t then [] else mget [] (waiters rc) t')"
  by (auto simp: storeAndNotify_def Let_def split: option.splits)

lemma store_buffers:
  "mlookup (buffers (storeAndNotify t tr rc)) ch =
     (if ch \<in> set (mget [] (waiters rc) t) \<and> mlookup (buffers rc) ch = None then Some tr
      else mlookup (buffers rc) ch)"
  by (simp add: storeAndNotify_def Let_def notify_lookup split: option.split)

lemma store_nextch: "nextch (storeAndNotify t tr rc) = nextch rc"
  by (simp add: storeAndNotify_def Let_def split: option.split)

lemmas store_facts = store_results store_waiters store_buffers store_nextch

lemma register_Inr:
  "wait_register t rc = Inr (ch, rc') \<longleftrightarrow> mlookup (results rc) t = None \<and> ch = nextch rc \<and>
     rc' = rc\<lparr>waiters := mput t (mget [] (waiters rc) t @ [ch]) (waiters rc), nextch := Suc ch\<rparr>"
  by (auto simp: wait_register_def Let_def split: option.split)

lemma register_Inl: "wait_register t rc = Inl r \<longleftrightarrow> mlookup (results rc) t = Some r"
  by (simp add: wait_register_def Let_def split: option.split)

lemma receive_Some:
  "wait_receive ch rc = Some (r, rc') \<longleftrightarrow>
     mlookup (buffers rc) ch = Some r \<and> rc' = rc\<lparr>buffers := mdel ch (buffers rc)\<rparr>"
  by (auto simp: wait_receive_def split: option.split)

lemma abandon_waiters:
  "mget [] (waiters (wait_abandon t ch rc)) t' =
     (if t' = t then filter (\<lambda>w. w \<noteq> ch) (mget [] (waiters rc) t) else mget [] (waiters rc) t')"
  by (simp add: wait_abandon_def Let_def)

lemma abandon_frame [simp]:
  "results (wait_abandon t ch rc) = results rc" "buffers (wait_abandon t ch rc) = buffers rc"
  "nextch (wait_abandon t ch rc) = nextch rc"
  by (simp_all add: wait_abandon_def Let_def)

section \<open>Invariant of the collector\<close>

definition col_inv :: "collector \<Rightarrow> (nat, string) gomap \<Rightarrow> bool" where
  "col_inv rc bl \<longleftrightarrow>
     (\<forall>t r. mlookup (results rc) t = Some r \<longrightarrow> result_ok t r) \<and>
     (\<forall>t. mget [] (waiters rc) t \<noteq> [] \<longrightarrow> mlookup (results rc) t = None) \<and>
     (\<forall>t ch. ch \<in> set (mget [] (waiters rc) t) \<longrightarrow> mlookup bl ch = Some t \<and> mlookup (buffers rc) ch = None) \<and>
     (\<forall>ch t. mlookup bl ch = Some t \<longrightarrow> ch < nextch rc \<and>
        (ch \<in> set (mget [] (waiters rc) t) \<or> (\<exists>r. mlookup (buffers rc) ch = Some r \<and> result_ok t r))) \<and>
     (\<forall>ch r. mlookup (buffers rc) ch = Some r \<longrightarrow> ch < nextch rc)"

lemma col_invI:
  assumes "\<And>t r. mlookup (results rc) t = Some r \<Longrightarrow> result_ok t r"
    and "\<And>t. mget [] (waiters rc) t \<noteq> [] \<Longrightarrow> mlookup (results rc) t = None"
    and "\<And>t ch. ch \<in> set (mget [] (waiters rc) t) \<Longrightarrow> mlookup bl ch = Some t"
    and "\<And>t ch. ch \<in> set (mget [] (waiters rc) t) \<Longrightarrow> mlookup (buffers rc) ch = None"
    and "\<And>t ch. mlookup bl ch = Some t \<Longrightarrow> ch < nextch rc"
    and "\<And>t ch. mlookup bl ch = Some t \<Longrightarrow> ch \<notin> set (mget [] (waiters rc) t) \<Longrightarrow>
      \<exists>r. mlookup (buffers rc) ch = Some r \<and> result_ok t r"
    and "\<And>ch r. mlookup (buffers rc) ch = Some r \<Longrightarrow> ch < nextch rc"
  shows "col_inv rc bl"
  unfolding col_inv_def using assms by blast

lemma col_invD:
  assumes "col_inv rc bl"
  shows col_result: "mlookup (results rc) t = Some r \<Longrightarrow> result_ok t r"
    and col_waiting: "mget [] (waiters rc) t \<noteq> [] \<Longrightarrow> mlookup (results rc) t = None"
    and col_blocked: "ch \<in> set (mget [] (waiters rc) t) \<Longrightarrow> mlookup bl ch = Some t"
    and col_empty: "ch \<in> set (mget [] (waiters rc) t) \<Longrightarrow> mlookup (buffers rc) ch = None"
    and col_old: "mlookup bl ch = Some t \<Longrightarrow> ch < nextch rc"
    and col_delivered: "mlookup bl ch = Some t \<Longrightarrow> ch \<notin> set (mget [] (waiters rc) t) \<Longrightarrow>
      \<exists>r. mlookup (buffers rc) ch = Some r \<and> result_ok t r"
    and col_buffer: "mlookup (buffers rc) ch = Some r \<Longrightarrow> ch < nextch rc"
  using assms unfolding col_inv_def by blast+

lemma col_inv_new: "col_inv NewResultCollector []"
  by (rule col_invI) (simp_all add: NewResultCollector_def)

lemma col_inv_store:
  assumes inv: "col_inv rc bl" and ok: "result_ok t tr"
  shows "col_inv (storeAndNotify t tr rc) bl"
proof (rule col_invI, unfold store_facts)
  fix t' r assume "(if t' = t \<and> replaceable rc t then Some tr else mlookup (results rc) t') = Some r"
  then show "result_ok t' r" using ok col_result [OF inv] by (auto split: if_splits)
next
  fix t' assume "(if t' = t then [] else mget [] (waiters rc) t') \<noteq> []"
  then show "(if t' = t \<and> replaceable rc t then Some tr else mlookup (results rc) t') = None"
    using col_waiting [OF inv] by (auto split: if_splits)
next
  fix t' ch assume "ch \<in> set (if t' = t then [] else mget [] (waiters rc) t')"
  then have w: "ch \<in> set (mget [] (waiters rc) t')" "t' \<noteq> t" by (auto split: if_splits)
  from col_blocked [OF inv w(1)] show "mlookup bl ch = Some t'" .
  with w(2) have "ch \<notin> set (mget [] (waiters rc) t)" using col_blocked [OF inv] by fastforce
  with col_empty [OF inv w(1)]
  show "(if ch \<in> set (mget [] (waiters rc) t) \<and> mlookup (buffers rc) ch = None then Some tr
      else mlookup (buffers rc) ch) = None" by simp
next
  fix t' ch assume "mlookup bl ch = Some t'"
  then show "ch < nextch rc" by (rule col_old [OF inv])
next
  fix t' ch assume b: "mlookup bl ch = Some t'" and n: "ch \<notin> set (if t' = t then [] else mget [] (waiters rc) t')"
  show "\<exists>r. (if ch \<in> set (mget [] (waiters rc) t) \<and> mlookup (buffers rc) ch = None then Some tr
      else mlookup (buffers rc) ch) = Some r \<and> result_ok t' r"
  proof (cases "ch \<in> set (mget [] (waiters rc) t)")
    case True
    from col_blocked [OF inv True] b have "t' = t" by simp
    with True col_empty [OF inv True] ok show ?thesis by simp
  next
    case False
    with n have "ch \<notin> set (mget [] (waiters rc) t')" by (auto split: if_splits)
    from col_delivered [OF inv b this] False show ?thesis by simp
  qed
next
  fix ch r assume "(if ch \<in> set (mget [] (waiters rc) t) \<and> mlookup (buffers rc) ch = None then Some tr
      else mlookup (buffers rc) ch) = Some r"
  then show "ch < nextch rc"
    using col_buffer [OF inv] col_old [OF inv col_blocked [OF inv]] by (auto split: if_splits)
qed

lemma col_inv_register:
  assumes inv: "col_inv rc bl" and reg: "wait_register t rc = Inr (ch, rc')"
  shows "col_inv rc' (mput ch t bl)"
proof -
  from reg have none: "mlookup (results rc) t = None" and ch: "ch = nextch rc"
    and rc': "rc' = rc\<lparr>waiters := mput t (mget [] (waiters rc) t @ [ch]) (waiters rc), nextch := Suc ch\<rparr>"
    by (simp_all add: register_Inr)
  have fresh: "mlookup bl ch = None" "mlookup (buffers rc) ch = None"
    using col_old [OF inv, of ch] col_buffer [OF inv, of ch] ch by fastforce+
  then have new: "ch \<notin> set (mget [] (waiters rc) t')" for t'
    using col_blocked [OF inv] by fastforce
  show ?thesis
  proof (rule col_invI, unfold rc', goal_cases)
    case (1 t' r)
    then show ?case using col_result [OF inv] by simp
  next
    case (2 t')
    then show ?case using none col_waiting [OF inv] by (auto split: if_splits)
  next
    case (3 t' c)
    then show ?case using col_blocked [OF inv] new by (fastforce split: if_splits)
  next
    case (4 t' c)
    then show ?case using col_empty [OF inv] fresh by (auto split: if_splits)
  next
    case (5 t' c)
    then show ?case using col_old [OF inv, of c] ch by (auto split: if_splits)
  next
    case (6 t' c)
    then show ?case using col_delivered [OF inv, of c t'] by (auto split: if_splits)
  next
    case (7 c r)
    then show ?case using col_buffer [OF inv, of c] ch by auto
  qed
qed

lemma col_inv_forget:
  assumes inv: "col_inv rc bl" and out: "\<And>t. ch \<notin> set (mget [] (waiters rc) t)"
  shows "col_inv (rc\<lparr>buffers := mdel ch (buffers rc)\<rparr>) (mdel ch bl)"
proof (rule col_invI, goal_cases)
  case (1 t' r)
  then show ?case using col_result [OF inv] by simp
next
  case (2 t')
  then show ?case using col_waiting [OF inv] by simp
next
  case (3 t' c)
  then show ?case using col_blocked [OF inv] out by auto
next
  case (4 t' c)
  then show ?case using col_empty [OF inv] by auto
next
  case (5 t' c)
  then show ?case using col_old [OF inv] by (auto split: if_splits)
next
  case (6 t' c)
  then show ?case using col_delivered [OF inv, of c t'] by (auto split: if_splits)
next
  case (7 c r)
  then show ?case using col_buffer [OF inv] by (auto split: if_splits)
qed

lemma col_inv_abandon:
  assumes inv: "col_inv rc bl" and b: "mlookup bl ch = Some t"
  shows "col_inv (wait_abandon t ch rc) (mdel ch bl)"
proof -
  have only: "ch \<in> set (mget [] (waiters rc) t') \<Longrightarrow> t' = t" for t'
    using col_blocked [OF inv] b by fastforce
  show ?thesis
  proof (rule col_invI, unfold abandon_waiters abandon_frame, goal_cases)
    case (1 t' r)
    then show ?case by (rule col_result [OF inv])
  next
    case (2 t')
    then have "mget [] (waiters rc) t' \<noteq> []" by (auto split: if_splits)
    then show ?case by (rule col_waiting [OF inv])
  next
    case (3 t' c)
    then have "c \<in> set (mget [] (waiters rc) t')" "c \<noteq> ch" using only by (auto split: if_splits)
    then show ?case using col_blocked [OF inv] by simp
  next
    case (4 t' c)
    then have "c \<in> set (mget [] (waiters rc) t')" by (auto split: if_splits)
    then show ?case by (rule col_empty [OF inv])
  next
    case (5 t' c)
    then show ?case using col_old [OF inv] by (auto split: if_splits)
  next
    case (6 t' c)
    then have "mlookup bl c = Some t'" "c \<notin> set (mget [] (waiters rc) t')" by (auto split: if_splits)
    then show ?case by (rule col_delivered [OF inv])
  next
    case (7 c r)
    then show ?case by (rule col_buffer [OF inv])
  qed
qed

text \<open>The result a message on \<open>agent.results\<close> carries, if any.\<close>

definition carried :: "('b \<Rightarrow> string + Task) \<Rightarrow> 'b nats_msg \<Rightarrow> (string \<times> TaskResult) option" where
  "carried dt m =
     (let x = extractSuffix (n_Subject m) ''agent.results.'' in
      if x = [] then None
      else case dt (n_Data m) of
             Inl _ \<Rightarrow> None
           | Inr task \<Rightarrow>
               (let t = (if t_ID task \<noteq> [] then t_ID task else x)
                in Some (t, zero_TaskResult\<lparr>tr_TaskID := t, tr_Status := ts_State (t_Status task),
                              tr_Task := Some task\<rparr>)))"

lemma handleResult_carried:
  "handleResult dt m rc = (case carried dt m of None \<Rightarrow> rc | Some (t, tr) \<Rightarrow> storeAndNotify t tr rc)"
  by (simp add: handleResult_def carried_def Let_def split: sum.split)

lemma carried_ok: "carried dt m = Some (t, tr) \<Longrightarrow> result_ok t tr \<and> tr_Task tr \<noteq> None"
  by (auto simp: carried_def Let_def result_ok_def zero_TaskResult_def split: if_splits sum.splits)

lemma status_check_ok: "status_check ds m rc = Some (t, tr) \<Longrightarrow> result_ok t tr \<and> tr_Task tr = None"
  by (auto simp: status_check_def Let_def result_ok_def zero_TaskResult_def split: if_splits sum.splits)

lemma col_inv_result: "col_inv rc bl \<Longrightarrow> col_inv (handleResult dt m rc) bl"
  by (auto simp: handleResult_carried col_inv_store carried_ok split: option.split)

lemma col_inv_status: "col_inv rc bl \<Longrightarrow> col_inv (handleStatus ds m rc) bl"
  by (auto simp: handleStatus_def col_inv_store status_check_ok split: option.split)

definition sys_inv :: "system \<Rightarrow> bool" where
  "sys_inv s \<longleftrightarrow> col_inv (col s) (blocked s) \<and> (\<forall>(t, tr)\<in>set (pending s). result_ok t tr) \<and>
     (\<forall>t r. (t, Inr r) \<in> set (returned s) \<longrightarrow> result_ok t r)"

lemma cstep_inv:
  assumes "cstep dt ds s s'" "sys_inv s"
  shows "sys_inv s'"
  using assms
proof (cases rule: cstep.cases)
  case (hit t r)
  with assms(2) show ?thesis by (auto simp: sys_inv_def register_Inl dest: col_result)
next
  case (block t ch rc)
  with assms(2) show ?thesis by (auto simp: sys_inv_def intro: col_inv_register)
next
  case (receive ch t r rc)
  from assms(2) have inv: "col_inv (col s) (blocked s)" by (simp add: sys_inv_def)
  from receive have buf: "mlookup (buffers (col s)) ch = Some r"
    and rc: "rc = (col s)\<lparr>buffers := mdel ch (buffers (col s))\<rparr>" by (simp_all add: receive_Some)
  have out: "ch \<notin> set (mget [] (waiters (col s)) t')" for t'
    using col_empty [OF inv] buf by fastforce
  have "result_ok t r" using col_delivered [OF inv receive(2) out] buf by simp
  with receive rc col_inv_forget [OF inv out] assms(2) show ?thesis by (auto simp: sys_inv_def)
next
  case (cancel ch t e)
  with assms(2) show ?thesis by (auto simp: sys_inv_def intro: col_inv_abandon)
next
  case (result m)
  with assms(2) show ?thesis by (auto simp: sys_inv_def intro: col_inv_result)
next
  case (check m p)
  with assms(2) show ?thesis by (cases p) (auto simp: sys_inv_def dest: status_check_ok)
next
  case (store t tr)
  with assms(2) show ?thesis by (auto simp: sys_inv_def intro: col_inv_store dest: notin_set_remove1)
qed

lemma init_inv: "sys_inv init_system"
  by (simp add: sys_inv_def init_system_def col_inv_new)

lemma reach_inv: "reach dt ds s \<Longrightarrow> sys_inv s"
  by (induction rule: reach.induct) (auto intro: init_inv cstep_inv)

section \<open>One caller\<close>

text \<open>Events that end the wait of a caller for a task, and those that cannot.\<close>

fun delivers :: "('b \<Rightarrow> string + Task) \<Rightarrow> string \<Rightarrow> 'b collector_event \<Rightarrow> bool" where
  "delivers dt t (ResultMsg m) = (\<exists>tr. carried dt m = Some (t, tr))"
| "delivers dt t _ = False"

fun is_cancelled :: "'b collector_event \<Rightarrow> bool" where
  "is_cancelled (Cancelled _) = True"
| "is_cancelled _ = False"

lemma wait_loop_ready:
  "wait_receive ch rc = Some (r, rc') \<Longrightarrow> wait_loop dt ds t ch evs rc = (rc', Some (Inr r))"
  by (simp add: wait_loop.simps)

lemma wait_loop_not_ready:
  assumes "wait_receive ch rc = None"
  shows "wait_loop dt ds t ch [] rc = (rc, None)"
    "wait_loop dt ds t ch (ResultMsg m # evs) rc = wait_loop dt ds t ch evs (handleResult dt m rc)"
    "wait_loop dt ds t ch (StatusMsg m # evs) rc = wait_loop dt ds t ch evs (handleStatus ds m rc)"
    "wait_loop dt ds t ch (Cancelled e # evs) rc = (wait_abandon t ch rc, Some (Inl (WaitError t e)))"
  using assms by (simp_all add: wait_loop.simps)

lemma wait_loop_sound:
  assumes "col_inv rc bl" "mlookup bl ch = Some t" "wait_loop dt ds t ch evs rc = (rc', res)"
  shows "(\<exists>bl. col_inv rc' bl) \<and> (\<forall>r. res = Some (Inr r) \<longrightarrow> result_ok t r) \<and>
    (\<forall>err. res = Some (Inl err) \<longrightarrow> (\<exists>e. err = WaitError t e \<and> Cancelled e \<in> set evs))"
  using assms
proof (induction evs arbitrary: rc)
  case (Nil rc)
  show ?case
  proof (cases "wait_receive ch rc")
    case None
    with Nil show ?thesis by (auto simp: wait_loop_not_ready)
  next
    case (Some p)
    then obtain r rc1 where p: "wait_receive ch rc = Some (r, rc1)" by (cases p) simp
    then have buf: "mlookup (buffers rc) ch = Some r" by (simp add: receive_Some)
    have out: "ch \<notin> set (mget [] (waiters rc) t')" for t'
      using col_empty [OF Nil(1)] buf by fastforce
    have "result_ok t r" using col_delivered [OF Nil(1,2) out] buf by simp
    with col_inv_forget [OF Nil(1) out] p Nil(3) show ?thesis
      by (auto simp: wait_loop_ready receive_Some)
  qed
next
  case (Cons ev evs rc)
  show ?case
  proof (cases "wait_receive ch rc")
    case (Some p)
    then have "wait_loop dt ds t ch [] rc = (rc', res)"
      using Cons.prems(3) by (cases p) (simp add: wait_loop_ready)
    then have "wait_loop dt ds t ch evs rc = (rc', res)"
      using Some by (cases p) (simp add: wait_loop_ready)
    from Cons.IH [OF Cons.prems(1,2) this] show ?thesis by auto
  next
    case None
    note step = wait_loop_not_ready [OF None]
    show ?thesis
    proof (cases ev)
      case (ResultMsg m)
      with Cons.prems(3) have "wait_loop dt ds t ch evs (handleResult dt m rc) = (rc', res)" by (simp add: step)
      from Cons.IH [OF col_inv_result [OF Cons.prems(1)] Cons.prems(2) this] show ?thesis by auto
    next
      case (StatusMsg m)
      with Cons.prems(3) have "wait_loop dt ds t ch evs (handleStatus ds m rc) = (rc', res)" by (simp add: step)
      from Cons.IH [OF col_inv_status [OF Cons.prems(1)] Cons.prems(2) this] show ?thesis by auto
    next
      case (Cancelled e)
      with Cons.prems(3) col_inv_abandon [OF Cons.prems(1,2)] show ?thesis by (auto simp: step)
    qed
  qed
qed

lemma result_fills_buffer:
  assumes "col_inv rc bl" "mlookup bl ch = Some t" "mlookup (buffers rc) ch = None"
    and "carried dt m = Some (t, tr)"
  shows "mlookup (buffers (handleResult dt m rc)) ch = Some tr"
proof -
  from col_delivered [OF assms(1,2)] assms(3) have "ch \<in> set (mget [] (waiters rc) t)" by force
  with assms(3,4) show ?thesis by (simp add: handleResult_carried store_buffers)
qed

lemma wait_loop_complete:
  assumes "col_inv rc bl" "mlookup bl ch = Some t" "\<exists>ev\<in>set evs. delivers dt t ev" "\<forall>ev\<in>set evs. \<not> is_cancelled ev"
  shows "\<exists>r. snd (wait_loop dt ds t ch evs rc) = Some (Inr r)"
  using assms
proof (induction evs arbitrary: rc)
  case (Cons ev evs rc)
  show ?case
  proof (cases "wait_receive ch rc")
    case (Some p)
    then show ?thesis by (cases p) (simp add: wait_loop_ready)
  next
    case None
    then have buf: "mlookup (buffers rc) ch = None" by (simp add: wait_receive_def split: option.splits)
    note step = wait_loop_not_ready [OF None]
    show ?thesis
    proof (cases ev)
      case (ResultMsg m)
      show ?thesis
      proof (cases "delivers dt t ev")
        case True
        with ResultMsg obtain tr where "carried dt m = Some (t, tr)" by auto
        from result_fills_buffer [OF Cons.prems(1,2) buf this]
        have "wait_receive ch (handleResult dt m rc) = Some (tr, (handleResult dt m rc)\<lparr>buffers := mdel ch (buffers (handleResult dt m rc))\<rparr>)"
          by (simp add: receive_Some)
        with ResultMsg show ?thesis by (simp add: step wait_loop_ready)
      next
        case False
        with Cons.prems Cons.IH [OF col_inv_result [OF Cons.prems(1)] Cons.prems(2)] ResultMsg
        show ?thesis by (auto simp: step)
      qed
    next
      case (StatusMsg m)
      with Cons.prems Cons.IH [OF col_inv_status [OF Cons.prems(1)] Cons.prems(2)]
      show ?thesis by (auto simp: step)
    next
      case (Cancelled e)
      with Cons.prems show ?thesis by auto
    qed
  qed
qed simp

section \<open>Waiting for several tasks\<close>

lemma collect_pairs_out:
  "mlookup (fst (collect_pairs ps out err)) t = Some r \<Longrightarrow> mlookup out t = Some r \<or> (t, Inr r) \<in> set ps"
  by (induction ps out err rule: collect_pairs.induct) (auto split: if_splits)

lemma collect_pairs_keys:
  "t \<in> set (mkeys (fst (collect_pairs ps out err))) \<longleftrightarrow> t \<in> set (mkeys out) \<or> (\<exists>r. (t, Inr r) \<in> set ps)"
  by (induction ps out err rule: collect_pairs.induct) auto

lemma collect_pairs_err:
  "snd (collect_pairs ps out err) =
     (case err of Some e \<Rightarrow> Some e
      | None \<Rightarrow> map_option (\<lambda>p. projl (snd p)) (List.find (\<lambda>p. isl (snd p)) ps))"
  by (induction ps out err rule: collect_pairs.induct) (auto split: option.splits)

lemma WaitForAll_out: "mlookup (fst (WaitForAll ps)) t = Some r \<Longrightarrow> (t, Inr r) \<in> set ps"
  using collect_pairs_out [of ps "[]" None t r] by (simp add: WaitForAll_def)

lemma WaitForAll_err: "snd (WaitForAll ps) = Some e \<Longrightarrow> \<exists>t. (t, Inl e) \<in> set ps"
proof -
  assume "snd (WaitForAll ps) = Some e"
  then obtain p where "List.find (\<lambda>p. isl (snd p)) ps = Some p" and e: "e = projl (snd p)"
    by (auto simp: WaitForAll_def collect_pairs_err)
  then have "p \<in> set ps" "isl (snd p)" by (auto simp: find_Some_iff)
  then have "p = (fst p, Inl e)" using e by (simp add: prod_eq_iff)
  with \<open>p \<in> set ps\<close> show ?thesis by metis
qed

section \<open>The waiter interface\<close>

text \<open>
  \<open>ResultWaiter\<close> as the scheduler and \<open>WaitForAll\<close> rely on it: an answer names the task and is final
  or complete, and an error is the end of the caller's context.
\<close>

locale result_waiter =
  fixes inv :: "'e \<Rightarrow> bool"
    and wait :: "'e \<Rightarrow> string \<Rightarrow> (task_error + TaskResult) option"
  assumes answers: "inv e \<Longrightarrow> wait e t = Some (Inr r) \<Longrightarrow> result_ok t r"
    and errors: "inv e \<Longrightarrow> wait e t = Some (Inl err) \<Longrightarrow> \<exists>w. err = WaitError t w"
begin

lemma all_named:
  assumes "\<And>t x. (t, x) \<in> set arrived \<Longrightarrow> \<exists>e. inv e \<and> wait e t = Some x"
    and "mlookup (fst (WaitForAll arrived)) t = Some r"
  shows "result_ok t r"
  using WaitForAll_out [OF assms(2)] assms(1) answers by blast

lemma all_errors:
  assumes "\<And>t x. (t, x) \<in> set arrived \<Longrightarrow> \<exists>e. inv e \<and> wait e t = Some x"
    and "snd (WaitForAll arrived) = Some err"
  shows "\<exists>t w. err = WaitError t w"
  using WaitForAll_err [OF assms(2)] assms(1) errors by blast

end

definition waiter_inv :: "collector \<times> 'b collector_event list \<Rightarrow> bool" where
  "waiter_inv e \<longleftrightarrow> (\<exists>bl. col_inv (fst e) bl)"

definition waiter :: "('b \<Rightarrow> string + Task) \<Rightarrow> ('b \<Rightarrow> string + TaskStatus) \<Rightarrow>
    collector \<times> 'b collector_event list \<Rightarrow> string \<Rightarrow> (task_error + TaskResult) option" where
  "waiter dt ds e t = snd (WaitFor dt ds (snd e) t (fst e))"

lemma WaitFor_sound:
  assumes "col_inv rc bl" "WaitFor dt ds evs t rc = (rc', res)"
  shows "(\<exists>bl. col_inv rc' bl) \<and> (\<forall>r. res = Some (Inr r) \<longrightarrow> result_ok t r) \<and>
    (\<forall>err. res = Some (Inl err) \<longrightarrow> (\<exists>e. err = WaitError t e \<and> Cancelled e \<in> set evs))"
proof (cases "wait_register t rc")
  case (Inl r)
  with assms col_result [OF assms(1)] show ?thesis by (auto simp: WaitFor_def register_Inl)
next
  case (Inr p)
  then obtain ch rc1 where reg: "wait_register t rc = Inr (ch, rc1)" by (cases p) simp
  with assms(2) have "wait_loop dt ds t ch evs rc1 = (rc', res)" by (simp add: WaitFor_def)
  from wait_loop_sound [OF col_inv_register [OF assms(1) reg] _ this] show ?thesis by simp
qed

interpretation cw: result_waiter waiter_inv "waiter dt ds" for dt ds
proof (unfold_locales, goal_cases)
  case (1 e t r)
  then show ?case
    using WaitFor_sound [of "fst e" _ dt ds "snd e" t] unfolding waiter_inv_def waiter_def
    by (metis prod.collapse)
next
  case (2 e t err)
  then show ?case
    using WaitFor_sound [of "fst e" _ dt ds "snd e" t] unfolding waiter_inv_def waiter_def
    by (metis prod.collapse)
qed

section \<open>Results once complete do not change\<close>

lemma store_keeps_complete:
  assumes "mlookup (results rc) t = Some r" "tr_Task r \<noteq> None"
  shows "mlookup (results (storeAndNotify t' tr rc)) t = Some r"
  using assms by (auto simp: store_results replaceable_def)

lemma cstep_keeps_complete:
  assumes "cstep dt ds s s'" "mlookup (results (col s)) t = Some r" "tr_Task r \<noteq> None"
  shows "mlookup (results (col s')) t = Some r"
  using assms
proof (cases rule: cstep.cases)
  case (block t' ch rc)
  with assms(2) show ?thesis by (simp add: register_Inr)
next
  case (receive ch t' r' rc)
  with assms(2) show ?thesis by (simp add: receive_Some)
next
  case (result m)
  with assms(2,3) show ?thesis
    by (simp add: handleResult_carried store_keeps_complete split: option.split)
next
  case (store t' tr)
  with assms(2,3) show ?thesis by (simp add: store_keeps_complete)
qed (use assms(2) in simp_all)

lemma csteps_keep_complete:
  "(cstep dt ds)\<^sup>*\<^sup>* s s' \<Longrightarrow> mlookup (results (col s)) t = Some r \<Longrightarrow> tr_Task r \<noteq> None \<Longrightarrow>
    mlookup (results (col s')) t = Some r"
  by (induction rule: rtranclp_induct) (auto dest: cstep_keeps_complete)

section \<open>Properties\<close>

definition example_task :: "string \<Rightarrow> TaskState \<Rightarrow> Task" where
  "example_task t st = \<lparr>t_ID = t, t_ContextID = [], t_Status = \<lparr>ts_State = st, ts_Message = None, ts_Timestamp = []\<rparr>,
     t_Artifacts = [], t_History = [], t_Metadata = []\<rparr>"

definition example_msg :: "string \<Rightarrow> 'b \<Rightarrow> 'b nats_msg" where
  "example_msg sub d = \<lparr>n_Subject = sub, n_Data = d\<rparr>"

definition example_result :: TaskResult where
  "example_result = zero_TaskResult\<lparr>tr_TaskID := ''a'', tr_Status := ''completed'',
     tr_Task := Some (example_task ''a'' ''completed'')\<rparr>"

text \<open>A caller that has blocked, and the system after its result arrived.\<close>

definition example_blocked :: system where
  "example_blocked = init_system\<lparr>col := NewResultCollector\<lparr>waiters := [(''a'', [0])], nextch := 1\<rparr>,
     blocked := [(0, ''a'')]\<rparr>"

definition example_notified :: system where
  "example_notified = example_blocked\<lparr>col :=
     handleResult (\<lambda>d. Inr d) (example_msg ''agent.results.a'' (example_task ''a'' ''completed'')) (col example_blocked)\<rparr>"

lemma example_reach: "reach (\<lambda>d. Inr d) ds example_blocked" "reach (\<lambda>d. Inr d) ds example_notified"
proof -
  have "wait_register ''a'' (col init_system) = Inr (0, NewResultCollector\<lparr>waiters := [(''a'', [0])], nextch := 1\<rparr>)"
    by code_simp
  from reach.step [OF reach.start cstep.block [OF this]] show b: "reach (\<lambda>d. Inr d) ds example_blocked"
    by (simp add: example_blocked_def mput_def init_system_def)
  show "reach (\<lambda>d. Inr d) ds example_notified"
    unfolding example_notified_def by (rule reach.step [OF b cstep.result])
qed

text \<open>
  C4: no lost wake-up. In every interleaving of callers and message handlers, a caller that is
  blocked in \<open>WaitFor\<close> while a result for its task is stored has a value in its channel, so its
  \<open>select\<close> can return; and every value a caller was given names the task it asked for and is
  either a final status or a full result.
\<close>

theorem WaitFor_no_lost_wakeup:
  assumes "reach dt ds s"
  shows "(mlookup (blocked s) ch = Some t \<and> mlookup (results (col s)) t \<noteq> None \<longrightarrow>
      (\<exists>r rc. wait_receive ch (col s) = Some (r, rc) \<and> result_ok t r)) \<and>
    ((t, Inr r) \<in> set (returned s) \<longrightarrow> result_ok t r)"
proof -
  from reach_inv [OF assms] have inv: "col_inv (col s) (blocked s)"
    and ret: "(t, Inr r) \<in> set (returned s) \<Longrightarrow> result_ok t r" by (auto simp: sys_inv_def)
  have "\<exists>r rc. wait_receive ch (col s) = Some (r, rc) \<and> result_ok t r"
    if b: "mlookup (blocked s) ch = Some t" and "mlookup (results (col s)) t \<noteq> None"
  proof -
    have "mget [] (waiters (col s)) t = []" using col_waiting [OF inv, of t] that(2) by blast
    with col_delivered [OF inv b] show ?thesis by (auto simp: receive_Some)
  qed
  with ret show ?thesis by blast
qed

theorem WaitFor_no_lost_wakeup_witness:
  "mlookup (blocked example_notified) 0 = Some ''a'' \<and>
   mlookup (results (col example_notified)) ''a'' \<noteq> None \<and>
   (\<exists>r rc. wait_receive 0 (col example_notified) = Some (r, rc) \<and> result_ok ''a'' r)"
proof -
  have "mlookup (blocked example_notified) 0 = Some ''a''" "mlookup (results (col example_notified)) ''a'' \<noteq> None"
    by code_simp+
  with WaitFor_no_lost_wakeup [OF example_reach(2), of 0 "''a''"] show ?thesis by simp
qed

text \<open>
  C12: a full result is final. Once a result message has been stored for a task, no later
  message, status or caller changes it, in any interleaving; and a result message that finds
  nothing or only a status stored for its task is stored.
\<close>

theorem result_stable:
  assumes "carried dt m = Some (t, tr)"
    and "case mlookup (results (col s)) t of None \<Rightarrow> True | Some r \<Rightarrow> tr_Task r = None"
    and "(cstep dt ds)\<^sup>*\<^sup>* (s\<lparr>col := handleResult dt m (col s)\<rparr>) s'"
  shows "mlookup (results (col s')) t = Some tr"
proof -
  have "mlookup (results (handleResult dt m (col s))) t = Some tr"
    using assms(1,2) by (simp add: handleResult_carried store_results replaceable_def)
  with csteps_keep_complete [OF assms(3)] carried_ok [OF assms(1)] show ?thesis by simp
qed

theorem result_stable_witness:
  "carried (\<lambda>d. Inr d) (example_msg ''agent.results.a'' (example_task ''a'' ''completed'')) = Some (''a'', example_result) \<and>
   mlookup (results (handleResult (\<lambda>d. Inr d) (example_msg ''agent.results.a'' (example_task ''a'' ''failed''))
     (col example_notified))) ''a'' = Some example_result"
proof -
  let ?m = "example_msg ''agent.results.a'' (example_task ''a'' ''completed'')"
  let ?s = "example_notified\<lparr>col := handleResult (\<lambda>d. Inr d) (example_msg ''agent.results.a'' (example_task ''a'' ''failed'')) (col example_notified)\<rparr>"
  have c: "carried (\<lambda>d. Inr d) ?m = Some (''a'', example_result)" by code_simp
  have n: "mlookup (results (col example_blocked)) ''a'' = None" by code_simp
  have "(cstep (\<lambda>d. Inr d) (\<lambda>_. Inl ''none''))\<^sup>*\<^sup>* (example_blocked\<lparr>col := handleResult (\<lambda>d. Inr d) ?m (col example_blocked)\<rparr>) ?s"
    unfolding example_notified_def [symmetric] by (rule r_into_rtranclp) (rule cstep.result)
  from result_stable [OF c _ this] c n show ?thesis by simp
qed

text \<open>
  C11: \<open>WaitFor\<close> for one caller, started on a collector that satisfies its invariant. When a result
  message for its task is among the events that reach it before its context ends, it returns a
  result; what it returns names the task and is final or complete; and it fails only with the
  error of its context. The invariant is kept, also when the caller gives up.
\<close>

theorem WaitFor_correct:
  assumes "col_inv rc bl"
  shows "(\<exists>bl. col_inv (fst (WaitFor dt ds evs t rc)) bl) \<and>
    ((\<exists>ev\<in>set evs. delivers dt t ev) \<and> (\<forall>ev\<in>set evs. \<not> is_cancelled ev) \<longrightarrow>
       (\<exists>r. snd (WaitFor dt ds evs t rc) = Some (Inr r))) \<and>
    (snd (WaitFor dt ds evs t rc) = Some (Inr r) \<longrightarrow> result_ok t r) \<and>
    (snd (WaitFor dt ds evs t rc) = Some (Inl err) \<longrightarrow>
       (\<exists>e. err = WaitError t e \<and> Cancelled e \<in> set evs))"
proof -
  have "\<exists>r. snd (WaitFor dt ds evs t rc) = Some (Inr r)"
    if "\<exists>ev\<in>set evs. delivers dt t ev" "\<forall>ev\<in>set evs. \<not> is_cancelled ev"
  proof (cases "wait_register t rc")
    case (Inr p)
    then obtain ch rc1 where reg: "wait_register t rc = Inr (ch, rc1)" by (cases p) simp
    from wait_loop_complete [OF col_inv_register [OF assms reg] _ that] reg
    show ?thesis by (simp add: WaitFor_def)
  qed (simp add: WaitFor_def)
  moreover obtain rc' res where "WaitFor dt ds evs t rc = (rc', res)" by fastforce
  ultimately show ?thesis using WaitFor_sound [OF assms, of dt ds evs t rc' res] by simp
qed

theorem WaitFor_correct_witness:
  "col_inv NewResultCollector [] \<and>
   snd (WaitFor (\<lambda>d. if d = 0 then Inr (example_task ''a'' ''completed'') else Inl ''bad'') (\<lambda>_. Inl ''bad'')
     [ResultMsg (example_msg ''agent.results.a'' (1::nat)), StatusMsg (example_msg ''agent.status.a'' 0),
      ResultMsg (example_msg ''agent.results.x'' 0)] ''a'' NewResultCollector) = Some (Inr example_result) \<and>
   result_ok ''a'' example_result"
proof -
  have "snd (WaitFor (\<lambda>d. if d = 0 then Inr (example_task ''a'' ''completed'') else Inl ''bad'') (\<lambda>_. Inl ''bad'')
     [ResultMsg (example_msg ''agent.results.a'' (1::nat)), StatusMsg (example_msg ''agent.status.a'' 0),
      ResultMsg (example_msg ''agent.results.x'' 0)] ''a'' NewResultCollector) = Some (Inr example_result)"
    by code_simp
  with WaitFor_correct [OF col_inv_new, THEN conjunct2, THEN conjunct2, THEN conjunct1] col_inv_new
  show ?thesis by blast
qed

end
