(* ===== verification/Scheduler.thy ===== *)
theory Scheduler
  imports Dag Collector
begin

text \<open>
  The scheduler (\<open>src/internal/scheduler/scheduler.go\<close>, \<open>types.go\<close>): it runs the tasks of a request
  in waves along the dependency graph of theory \<open>Dag\<close>. The goroutines of a wave only fill their own
  slot or send into a channel that the main loop drains, so a wave is a sequence of updates in an
  order the environment chooses: \<open>v_rank\<close> orders the answers of a batch. The dispatcher, the waiter
  and the context are the other parts of the environment; batches number their uses.
\<close>

section \<open>Types\<close>

record ScheduledTask =
  st_Spec :: TaskSpec
  st_DependsOn :: "string list"

abbreviation st_ID :: "ScheduledTask \<Rightarrow> string" where
  "st_ID t \<equiv> s_ID (st_Spec t)"

record ScheduleRequest =
  sr_Tasks :: "ScheduledTask list"
  sr_ContextID :: string
  sr_Metadata :: metadata

record TaskOutcome =
  to_TaskID :: string
  to_Status :: string
  to_Error :: "task_error option"
  to_Batch :: int

record ScheduleResult =
  sres_ContextID :: string
  sres_TaskResults :: "(string, TaskOutcome) gomap"
  sres_ExecutionOrder :: "string list list"

datatype sched_error =
    NoScheduledTasks
  | EmptyTaskID nat
  | DuplicateTaskID string nat
  | UnknownDependency string string
  | GraphError dag_error

record sched_env =
  v_dispatch :: "nat \<Rightarrow> TaskSpec \<Rightarrow> string \<Rightarrow> dispatch_error + string \<times> string"
  v_wait :: "nat \<Rightarrow> string \<Rightarrow> task_error + TaskResult"
  v_rank :: "nat \<Rightarrow> string \<Rightarrow> nat"
  v_ctx :: "nat \<Rightarrow> wait_error option"
  v_ctx_end :: "wait_error option"

record sched_state =
  sc_dag :: dag
  sc_outcomes :: "(string, TaskOutcome) gomap"
  sc_order :: "string list list"
  sc_skip :: "(string, bool) gomap"
  sc_batch :: nat

type_synonym task_index = "(string, ScheduledTask) gomap"

section \<open>Building the graph\<close>

fun index_tasks :: "nat \<Rightarrow> ScheduledTask list \<Rightarrow> task_index \<Rightarrow> sched_error + task_index" where
  "index_tasks i [] m = Inr m"
| "index_tasks i (t # ts) m =
     (if st_ID t = [] then Inl (EmptyTaskID i)
      else if mlookup m (st_ID t) \<noteq> None then Inl (DuplicateTaskID (st_ID t) i)
      else index_tasks (Suc i) ts (mput (st_ID t) t m))"

fun add_deps :: "task_index \<Rightarrow> string \<Rightarrow> string list \<Rightarrow> dag \<Rightarrow> sched_error + dag" where
  "add_deps m n [] d = Inr d"
| "add_deps m n (dep # deps) d =
     (if mlookup m dep = None then Inl (UnknownDependency n dep)
      else case AddEdge dep n d of
             Inl err \<Rightarrow> Inl (GraphError err)
           | Inr d' \<Rightarrow> add_deps m n deps d')"

fun add_all_deps :: "task_index \<Rightarrow> ScheduledTask list \<Rightarrow> dag \<Rightarrow> sched_error + dag" where
  "add_all_deps m [] d = Inr d"
| "add_all_deps m (t # ts) d =
     (case add_deps m (st_ID t) (st_DependsOn t) d of
        Inl err \<Rightarrow> Inl err
      | Inr d' \<Rightarrow> add_all_deps m ts d')"

definition build_dag :: "ScheduledTask list \<Rightarrow> sched_error + task_index \<times> dag" where
  "build_dag tasks =
     (case index_tasks 0 tasks [] of
        Inl err \<Rightarrow> Inl err
      | Inr m \<Rightarrow>
          (case add_all_deps m tasks (fold AddNode (mkeys m) NewDAG) of
             Inl err \<Rightarrow> Inl err
           | Inr d \<Rightarrow> (case Validate d of Some err \<Rightarrow> Inl (GraphError err) | None \<Rightarrow> Inr (m, d))))"

section \<open>One wave\<close>

definition outcomeStatus :: "TaskState \<Rightarrow> string" where
  "outcomeStatus state =
     (if state = TaskStateCompleted then ''completed''
      else if state = TaskStateFailed then ''failed''
      else if state = TaskStateCanceled then ''canceled''
      else state)"

definition skip_dependents :: "string \<Rightarrow> sched_state \<Rightarrow> sched_state" where
  "skip_dependents n st =
     st\<lparr>sc_skip := fold (\<lambda>s m. mput s True m) (Dependents (sc_dag st) n) (sc_skip st)\<rparr>"

definition put_outcome :: "string \<Rightarrow> string \<Rightarrow> task_error option \<Rightarrow> sched_state \<Rightarrow> sched_state" where
  "put_outcome n status err st =
     st\<lparr>sc_outcomes := mput n \<lparr>to_TaskID = n, to_Status = status, to_Error = err,
          to_Batch = int (sc_batch st)\<rparr> (sc_outcomes st)\<rparr>"

definition complete_node :: "string \<Rightarrow> sched_state \<Rightarrow> sched_state" where
  "complete_node n st = st\<lparr>sc_dag := fst (Complete n (sc_dag st))\<rparr>"

text \<open>The partition of the ready nodes: the nodes to dispatch and whether one was skipped.\<close>

fun partition_ready :: "string list \<Rightarrow> sched_state \<Rightarrow> string list \<Rightarrow> bool \<Rightarrow> sched_state \<times> string list \<times> bool" where
  "partition_ready [] st toDispatch skipped = (st, toDispatch, skipped)"
| "partition_ready (n # ns) st toDispatch skipped =
     (if mget False (sc_skip st) n
      then partition_ready ns (skip_dependents n (complete_node n (put_outcome n ''skipped'' None st))) toDispatch True
      else partition_ready ns st (toDispatch @ [n]) skipped)"

text \<open>
  The dispatch of one node. A node without a task would be a nil dereference in the code; the
  nodes of the graph are the keys of the index, so \<open>NilTask\<close> does not occur.
\<close>

definition dispatch_task :: "sched_env \<Rightarrow> task_index \<Rightarrow> string \<Rightarrow> nat \<Rightarrow> string \<Rightarrow> dispatch_error + string" where
  "dispatch_task env m contextID b n =
     (case mlookup m n of
        None \<Rightarrow> Inl (NilTask n)
      | Some t \<Rightarrow>
          (case v_dispatch env b ((st_Spec t)\<lparr>s_ID := n\<rparr>) contextID of
             Inl err \<Rightarrow> Inl err
           | Inr (dispID, _) \<Rightarrow> Inr dispID))"

text \<open>
  The loop over the dispatch results: a failed dispatch is recorded at once, the others are
  waited for.
\<close>

fun record_dispatches ::
  "(string \<times> (dispatch_error + string)) list \<Rightarrow> sched_state \<Rightarrow> (string \<times> string) list \<Rightarrow>
   sched_state \<times> (string \<times> string) list" where
  "record_dispatches [] st waits = (st, waits)"
| "record_dispatches ((n, Inl err) # rs) st waits =
     record_dispatches rs (skip_dependents n (complete_node n (put_outcome n ''failed'' (Some (DispatchError err)) st))) waits"
| "record_dispatches ((n, Inr dispID) # rs) st waits = record_dispatches rs st (waits @ [(n, dispID)])"

fun error_status :: "task_error \<Rightarrow> string" where
  "error_status (WaitError _ _) = ''canceled''"
| "error_status _ = ''failed''"

definition record_wait :: "string \<Rightarrow> task_error + TaskResult \<Rightarrow> sched_state \<Rightarrow> sched_state" where
  "record_wait n answer st =
     complete_node n
       (case answer of
          Inl err \<Rightarrow> skip_dependents n (put_outcome n (error_status err) (Some err) st)
        | Inr r \<Rightarrow>
            (let status = outcomeStatus (tr_Status r);
                 st1 = put_outcome n status None st
             in if status \<noteq> ''completed'' then skip_dependents n st1 else st1))"

fun record_waits :: "(string \<times> (task_error + TaskResult)) list \<Rightarrow> sched_state \<Rightarrow> sched_state" where
  "record_waits [] st = st"
| "record_waits ((n, answer) # as) st = record_waits as (record_wait n answer st)"

definition run_batch :: "sched_env \<Rightarrow> task_index \<Rightarrow> string \<Rightarrow> string list \<Rightarrow> sched_state \<Rightarrow> sched_state" where
  "run_batch env m contextID toDispatch st =
     (let b = sc_batch st;
          st1 = st\<lparr>sc_order := sc_order st @ [toDispatch]\<rparr>;
          (st2, waits) = record_dispatches (map (\<lambda>n. (n, dispatch_task env m contextID b n)) toDispatch) st1 [];
          arrived = sort_key (\<lambda>(n, _). v_rank env b n) (map (\<lambda>(n, dispID). (n, v_wait env b dispID)) waits);
          st3 = record_waits arrived st2
      in st3\<lparr>sc_batch := Suc (sc_batch st3)\<rparr>)"

section \<open>The loop\<close>

definition open_nodes :: "dag \<Rightarrow> string set" where
  "open_nodes d = {n \<in> set (mkeys (nodes d)). \<not> mget False (completed d) n}"

abbreviation complete_all :: "string list \<Rightarrow> dag \<Rightarrow> dag" where
  "complete_all \<equiv> fold (\<lambda>n d. fst (Complete n d))"

lemma finite_open_nodes [simp]: "finite (open_nodes d)"
  by (simp add: open_nodes_def)

lemma open_nodes_Complete: "open_nodes (fst (Complete n d)) = open_nodes d - {n}"
  by (auto simp: open_nodes_def completed_Complete)

lemma open_nodes_complete_all: "open_nodes (complete_all ns d) = open_nodes d - set ns"
  by (induction ns arbitrary: d) (auto simp: open_nodes_Complete)

lemma Ready_open: "set (Ready d) \<subseteq> open_nodes d"
  by (auto simp: Ready_def open_nodes_def)

lemma sc_dag_simps [simp]:
  "sc_dag (skip_dependents n st) = sc_dag st" "sc_dag (put_outcome n s e st) = sc_dag st"
  "sc_dag (complete_node n st) = fst (Complete n (sc_dag st))"
  by (simp_all add: skip_dependents_def put_outcome_def complete_node_def)

lemma partition_ready_dag:
  "partition_ready ns st td sk = (st', td', sk') \<Longrightarrow>
     \<exists>cs rest. sc_dag st' = complete_all cs (sc_dag st) \<and> td' = td @ rest \<and>
       set ns = set cs \<union> set rest \<and> (sk' \<longleftrightarrow> sk \<or> cs \<noteq> [])"
proof (induction ns st td sk rule: partition_ready.induct)
  case (2 n ns st td sk)
  show ?case
  proof (cases "mget False (sc_skip st) n")
    case True
    with 2 obtain cs rest where "sc_dag st' = complete_all cs (fst (Complete n (sc_dag st)))"
      "td' = td @ rest" "set ns = set cs \<union> set rest" sk'
      by fastforce
    then show ?thesis by (intro exI [of _ "n # cs"] exI [of _ rest]) simp
  next
    case False
    with 2 obtain cs rest where "sc_dag st' = complete_all cs (sc_dag st)"
      "td' = td @ [n] @ rest" "set ns = set cs \<union> set rest" "sk' \<longleftrightarrow> sk \<or> cs \<noteq> []"
      by fastforce
    then show ?thesis by (intro exI [of _ cs] exI [of _ "n # rest"]) simp
  qed
qed simp

lemma record_dispatches_dag:
  "record_dispatches rs st ws = (st', ws') \<Longrightarrow>
     \<exists>cs rest. sc_dag st' = complete_all cs (sc_dag st) \<and> ws' = ws @ rest \<and>
       set (map fst rs) = set cs \<union> set (map fst rest)"
proof (induction rs st ws rule: record_dispatches.induct)
  case (2 n err rs st ws)
  then obtain cs rest where "sc_dag st' = complete_all cs (fst (Complete n (sc_dag st)))"
    "ws' = ws @ rest" "set (map fst rs) = set cs \<union> set (map fst rest)" by fastforce
  then show ?case by (intro exI [of _ "n # cs"] exI [of _ rest]) simp
next
  case (3 n dispID rs st ws)
  then obtain cs rest where "sc_dag st' = complete_all cs (sc_dag st)"
    "ws' = ws @ [(n, dispID)] @ rest" "set (map fst rs) = set cs \<union> set (map fst rest)" by fastforce
  then show ?case by (intro exI [of _ cs] exI [of _ "(n, dispID) # rest"]) simp
qed simp

lemma record_wait_dag: "sc_dag (record_wait n a st) = fst (Complete n (sc_dag st))"
  by (simp add: record_wait_def Let_def split: sum.split)

lemma record_waits_dag: "sc_dag (record_waits as st) = complete_all (map fst as) (sc_dag st)"
  by (induction as st rule: record_waits.induct) (simp_all add: record_wait_dag)

lemma run_batch_open:
  "open_nodes (sc_dag (run_batch env m c td st)) = open_nodes (sc_dag st) - set td"
proof -
  let ?rs = "map (\<lambda>n. (n, dispatch_task env m c (sc_batch st) n)) td"
  obtain st2 ws where r: "record_dispatches ?rs (st\<lparr>sc_order := sc_order st @ [td]\<rparr>) [] = (st2, ws)"
    by fastforce
  from record_dispatches_dag [OF r] obtain cs where
    cs: "sc_dag st2 = complete_all cs (sc_dag st)" "set td = set cs \<union> fst ` set ws"
    by (auto simp: image_image)
  define arr where "arr = sort_key (\<lambda>(n, _). v_rank env (sc_batch st) n)
      (map (\<lambda>(n, dispID). (n, v_wait env (sc_batch st) dispID)) ws)"
  have arr: "fst ` set arr = fst ` set ws" by (force simp: arr_def image_image)
  have "run_batch env m c td st =
      (record_waits arr st2)\<lparr>sc_batch := Suc (sc_batch (record_waits arr st2))\<rparr>"
    by (simp add: run_batch_def Let_def r arr_def)
  then show ?thesis
    using cs arr by (auto simp: record_waits_dag open_nodes_complete_all)
qed

function sched_loop :: "sched_env \<Rightarrow> task_index \<Rightarrow> string \<Rightarrow> sched_state \<Rightarrow> sched_state" where
  "sched_loop env m contextID st =
     (if Remaining (sc_dag st) \<le> 0 then st
      else case partition_ready (Ready (sc_dag st)) st [] False of
             (st1, toDispatch, skippedThisRound) \<Rightarrow>
               if toDispatch = [] then
                 (if skippedThisRound then sched_loop env m contextID st1 else st1)
               else if v_ctx env (sc_batch st1) \<noteq> None then st1
               else sched_loop env m contextID (run_batch env m contextID toDispatch st1))"
  by pat_completeness auto
termination
proof (relation "inv_image finite_psubset (\<lambda>(env, m, c, st). open_nodes (sc_dag st))", goal_cases)
  case 1
  show ?case by auto
next
  case (2 env m c st st1 q td sk)
  then have p: "partition_ready (Ready (sc_dag st)) st [] False = (st1, td, sk)" by simp
  from partition_ready_dag [OF p] 2 obtain cs where
    "sc_dag st1 = complete_all cs (sc_dag st)" "set (Ready (sc_dag st)) = set cs" "cs \<noteq> []" by auto
  moreover from this(2,3) have "open_nodes (sc_dag st) - set cs \<subset> open_nodes (sc_dag st)"
    using Ready_open [of "sc_dag st"] by (cases cs) auto
  ultimately show ?case by (simp add: open_nodes_complete_all finite_psubset_def)
next
  case (3 env m c st st1 q td sk)
  then have p: "partition_ready (Ready (sc_dag st)) st [] False = (st1, td, sk)" by simp
  from partition_ready_dag [OF p] obtain cs where
    "sc_dag st1 = complete_all cs (sc_dag st)" "set (Ready (sc_dag st)) = set cs \<union> set td" by auto
  moreover from this(2) 3 have "open_nodes (sc_dag st) - set cs - set td \<subset> open_nodes (sc_dag st)"
    using Ready_open [of "sc_dag st"] by (cases td) auto
  ultimately show ?case by (simp add: run_batch_open open_nodes_complete_all finite_psubset_def)
qed

declare sched_loop.simps [simp del]

fun mark_canceled :: "string list \<Rightarrow> (string, TaskOutcome) gomap \<Rightarrow> (string, TaskOutcome) gomap" where
  "mark_canceled [] outs = outs"
| "mark_canceled (n # ns) outs =
     mark_canceled ns
       (if mlookup outs n = None
        then mput n \<lparr>to_TaskID = n, to_Status = ''canceled'', to_Error = None, to_Batch = -1\<rparr> outs
        else outs)"

definition Schedule :: "sched_env \<Rightarrow> ScheduleRequest \<Rightarrow> sched_error + ScheduleResult \<times> wait_error option" where
  "Schedule env req =
     (if sr_Tasks req = [] then Inl NoScheduledTasks
      else case build_dag (sr_Tasks req) of
             Inl err \<Rightarrow> Inl err
           | Inr (m, d) \<Rightarrow>
               (let st = sched_loop env m (sr_ContextID req)
                      \<lparr>sc_dag = d, sc_outcomes = [], sc_order = [], sc_skip = [], sc_batch = 0\<rparr>
                in Inr (\<lparr>sres_ContextID = sr_ContextID req,
                         sres_TaskResults = mark_canceled (mkeys m) (sc_outcomes st),
                         sres_ExecutionOrder = sc_order st\<rparr>, v_ctx_end env)))"

section \<open>Requests that build a graph\<close>

definition dep_rel :: "ScheduledTask list \<Rightarrow> (string \<times> string) set" where
  "dep_rel ts = {(p, st_ID t) | p t. t \<in> set ts \<and> p \<in> set (st_DependsOn t)}"

definition request_valid :: "ScheduledTask list \<Rightarrow> bool" where
  "request_valid ts \<longleftrightarrow> ts \<noteq> [] \<and> (\<forall>t\<in>set ts. st_ID t \<noteq> []) \<and> distinct (map st_ID ts) \<and>
     (\<forall>t\<in>set ts. set (st_DependsOn t) \<subseteq> st_ID ` set ts) \<and> acyclic (dep_rel ts)"

lemma index_tasks_Inr:
  "index_tasks i ts m = Inr m' \<longleftrightarrow>
     (\<forall>t\<in>set ts. st_ID t \<noteq> [] \<and> st_ID t \<notin> set (mkeys m)) \<and> distinct (map st_ID ts) \<and>
     m' = fold (\<lambda>t m. mput (st_ID t) t m) ts m"
  by (induction i ts m rule: index_tasks.induct) (auto simp: mlookup_None_keys image_iff dest: sym)

lemma fold_index_keys: "set (mkeys (fold (\<lambda>t m. mput (st_ID t) t m) ts m)) = set (mkeys m) \<union> st_ID ` set ts"
  by (induction ts arbitrary: m) auto

lemma fold_index_lookup:
  assumes "distinct (map st_ID ts)" "t \<in> set ts"
  shows "mlookup (fold (\<lambda>t m. mput (st_ID t) t m) ts m) (st_ID t) = Some t"
proof -
  have keep: "k \<notin> st_ID ` set ts \<Longrightarrow> mlookup (fold (\<lambda>t m. mput (st_ID t) t m) ts m) k = mlookup m k" for ts m k
    by (induction ts arbitrary: m) auto
  show ?thesis using assms by (induction ts arbitrary: m) (auto simp: keep)
qed

lemma NewDAG_facts: "dag_wf NewDAG" "node_set NewDAG = {}" "done_set NewDAG = {}" "erel (edges NewDAG) = {}"
  by (auto simp: dag_wf_def node_set_def done_set_def erel_def NewDAG_def only_true_def acyclic_def)

lemma AddNode_facts:
  "node_set (AddNode n d) = insert n (node_set d)" "done_set (AddNode n d) = done_set d"
  "edges (AddNode n d) = edges d" if "dag_wf d"
  using that by (auto simp: AddNode_def node_set_def done_set_def wf_node Let_def split: option.splits)

lemma fold_AddNode:
  assumes "dag_wf d"
  shows "dag_wf (fold AddNode ns d)" "node_set (fold AddNode ns d) = node_set d \<union> set ns"
    "done_set (fold AddNode ns d) = done_set d" "edges (fold AddNode ns d) = edges d"
  using assms by (induction ns arbitrary: d) (simp_all add: AddNode_wf AddNode_facts)

text \<open>A graph under construction: well formed, nothing completed, with the given nodes and edges.\<close>

definition building :: "string set \<Rightarrow> (string \<times> string) set \<Rightarrow> dag \<Rightarrow> bool" where
  "building N E d \<longleftrightarrow> dag_wf d \<and> node_set d = N \<and> done_set d = {} \<and> erel (edges d) = E"

lemma building_AddEdge:
  assumes "building N E d" "a \<in> N" "b \<in> N"
  shows "if acyclic (insert (a, b) E) then \<exists>d'. AddEdge a b d = Inr d' \<and> building N (insert (a, b) E) d'
    else \<exists>err. AddEdge a b d = Inl err"
proof -
  have wf: "dag_wf d" and N: "node_set d = N" and E: "erel (edges d) = E" and dn: "done_set d = {}"
    using assms(1) by (auto simp: building_def)
  have ac: "acyclic E" using wf E by (simp add: dag_wf_def)
  have iff: "(\<exists>d'. AddEdge a b d = Inr d') \<longleftrightarrow> acyclic (insert (a, b) E)"
    using assms(2,3) ac by (auto simp: AddEdge_def reachable_iff wf_node [OF wf] N E acyclic_insert)
  show ?thesis
  proof (cases "AddEdge a b d")
    case (Inl err)
    with iff show ?thesis by auto
  next
    case (Inr d')
    have "dag_wf d'" using AddEdge_wf [OF wf Inr] dn by simp
    with AddEdge_Inr [OF Inr] AddEdge_frame [OF Inr] Inr iff E N dn show ?thesis
      by (auto simp: building_def)
  qed
qed

lemma building_acyclic: "building N E d \<Longrightarrow> acyclic E"
  by (auto simp: building_def dag_wf_def)

lemma building_add_deps:
  assumes "building N E d" "n \<in> N" "set (mkeys m) = N"
  shows "(\<exists>err. add_deps m n deps d = Inl err) \<and> \<not> (set deps \<subseteq> N \<and> acyclic (E \<union> (\<lambda>p. (p, n)) ` set deps)) \<or>
    (\<exists>d'. add_deps m n deps d = Inr d' \<and> building N (E \<union> (\<lambda>p. (p, n)) ` set deps) d' \<and> set deps \<subseteq> N)"
  using assms(1)
proof (induction deps arbitrary: E d)
  case (Cons p deps)
  have eq: "insert (p, n) E \<union> (\<lambda>p. (p, n)) ` set deps = E \<union> (\<lambda>p. (p, n)) ` set (p # deps)" by auto
  show ?case
  proof (cases "p \<in> N \<and> acyclic (insert (p, n) E)")
    case True
    with building_AddEdge [OF Cons.prems _ assms(2), of p] obtain d1 where
      d1: "AddEdge p n d = Inr d1" "building N (insert (p, n) E) d1" by auto
    have "add_deps m n (p # deps) d = add_deps m n deps d1"
      using True d1(1) assms(3) by (simp add: mlookup_None_keys)
    with Cons.IH [OF d1(2)] True show ?thesis unfolding eq by auto
  next
    case False
    then have "\<exists>err. add_deps m n (p # deps) d = Inl err"
      using building_AddEdge [OF Cons.prems _ assms(2), of p] assms(3)
      by (auto simp: mlookup_None_keys)
    moreover have "\<not> (set (p # deps) \<subseteq> N \<and> acyclic (E \<union> (\<lambda>p. (p, n)) ` set (p # deps)))"
      using False acyclic_subset [of "E \<union> (\<lambda>p. (p, n)) ` set (p # deps)" "insert (p, n) E"] by auto
    ultimately show ?thesis by blast
  qed
qed simp

lemma dep_rel_Cons: "dep_rel (t # ts) = (\<lambda>p. (p, st_ID t)) ` set (st_DependsOn t) \<union> dep_rel ts"
  by (auto simp: dep_rel_def)

lemma building_add_all:
  assumes "building N E d" "st_ID ` set ts \<subseteq> N" "set (mkeys m) = N"
  shows "(\<exists>err. add_all_deps m ts d = Inl err) \<and>
      \<not> ((\<forall>t\<in>set ts. set (st_DependsOn t) \<subseteq> N) \<and> acyclic (E \<union> dep_rel ts)) \<or>
    (\<exists>d'. add_all_deps m ts d = Inr d' \<and> building N (E \<union> dep_rel ts) d' \<and>
      (\<forall>t\<in>set ts. set (st_DependsOn t) \<subseteq> N))"
  using assms(1,2)
proof (induction ts arbitrary: E d)
  case Nil
  then show ?case by (simp add: dep_rel_def)
next
  case (Cons t ts)
  let ?D = "(\<lambda>p. (p, st_ID t)) ` set (st_DependsOn t)"
  have eq: "E \<union> ?D \<union> dep_rel ts = E \<union> dep_rel (t # ts)" by (auto simp: dep_rel_Cons)
  have "st_ID t \<in> N" and sub: "st_ID ` set ts \<subseteq> N" using Cons.prems by simp_all
  from building_add_deps [OF Cons.prems(1) this(1) assms(3), of "st_DependsOn t"]
  show ?case
  proof (elim disjE exE conjE)
    fix err assume "add_deps m (st_ID t) (st_DependsOn t) d = Inl err"
      and "\<not> (set (st_DependsOn t) \<subseteq> N \<and> acyclic (E \<union> ?D))"
    then show ?thesis
      using acyclic_subset [of "E \<union> dep_rel (t # ts)" "E \<union> ?D"] unfolding eq [symmetric] by auto
  next
    fix d1 assume d1: "add_deps m (st_ID t) (st_DependsOn t) d = Inr d1" "building N (E \<union> ?D) d1"
      "set (st_DependsOn t) \<subseteq> N"
    with Cons.IH [OF d1(2) sub] show ?thesis unfolding eq by auto
  qed
qed

lemma build_dag_cases:
  assumes "ts \<noteq> []"
  shows "(\<exists>err. build_dag ts = Inl err) \<and> \<not> request_valid ts \<or>
    (\<exists>m d. build_dag ts = Inr (m, d) \<and> request_valid ts \<and> building (st_ID ` set ts) (dep_rel ts) d \<and>
      set (mkeys m) = st_ID ` set ts \<and> (\<forall>t\<in>set ts. mlookup m (st_ID t) = Some t))"
proof (cases "index_tasks 0 ts []")
  case (Inl err)
  then have "\<not> (\<exists>m. index_tasks 0 ts [] = Inr m)" by simp
  then have "\<not> request_valid ts" by (auto simp: index_tasks_Inr request_valid_def)
  with Inl show ?thesis by (simp add: build_dag_def)
next
  case (Inr m)
  then have ids: "\<forall>t\<in>set ts. st_ID t \<noteq> []" "distinct (map st_ID ts)"
    and m: "m = fold (\<lambda>t m. mput (st_ID t) t m) ts []" by (auto simp: index_tasks_Inr)
  let ?N = "st_ID ` set ts" and ?d0 = "fold AddNode (mkeys m) NewDAG"
  have keys: "set (mkeys m) = ?N" by (simp add: m fold_index_keys)
  have b: "building ?N {} ?d0"
    by (simp add: building_def fold_AddNode NewDAG_facts keys)
  from building_add_all [OF b subset_refl keys] show ?thesis
  proof (elim disjE exE conjE)
    fix d assume d: "add_all_deps m ts ?d0 = Inr d" "building ?N ({} \<union> dep_rel ts) d"
      and deps: "\<forall>t\<in>set ts. set (st_DependsOn t) \<subseteq> ?N"
    have "nodes d \<noteq> []" using d(2) assms by (auto simp: building_def node_set_def)
    moreover have "set (mkeys (edges d)) \<subseteq> set (mkeys (nodes d))" "acyclic (erel (edges d))"
      using d(2) by (auto simp: building_def dag_wf_def node_set_def)
    ultimately have "Validate d = None" by (simp add: Validate_iff)
    with Inr d keys have "build_dag ts = Inr (m, d)" by (simp add: build_dag_def)
    moreover have "request_valid ts"
      using ids assms deps building_acyclic [OF d(2)] by (simp add: request_valid_def)
    ultimately show ?thesis
      using d keys fold_index_lookup [OF ids(2)] by (auto simp: m)
  qed (use Inr ids in \<open>auto simp: build_dag_def request_valid_def\<close>)
qed

section \<open>Settling a task\<close>

text \<open>
  All three places that record an outcome do the same: store it, complete the node, and mark the
  dependents when the status is not \<open>completed\<close>.
\<close>

definition settle :: "string \<times> string \<times> task_error option \<Rightarrow> sched_state \<Rightarrow> sched_state" where
  "settle x st = (case x of (n, status, err) \<Rightarrow>
     (let st1 = complete_node n (put_outcome n status err st)
      in if status \<noteq> ''completed'' then skip_dependents n st1 else st1))"

abbreviation settle_all :: "(string \<times> string \<times> task_error option) list \<Rightarrow> sched_state \<Rightarrow> sched_state" where
  "settle_all \<equiv> fold settle"

fun answer_entry :: "string \<times> (task_error + TaskResult) \<Rightarrow> string \<times> string \<times> task_error option" where
  "answer_entry (n, Inl err) = (n, error_status err, Some err)"
| "answer_entry (n, Inr r) = (n, outcomeStatus (tr_Status r), None)"

lemma fst_answer_entry [simp]: "fst (answer_entry a) = fst a"
  by (cases a rule: answer_entry.cases) simp_all

lemma error_status_not_completed [simp]: "error_status err \<noteq> ''completed''"
  by (cases err) simp_all

lemma skip_complete_commute:
  "skip_dependents n (complete_node k st) = complete_node k (skip_dependents n st)"
  by (simp add: skip_dependents_def complete_node_def Dependents_def)

lemma record_wait_settle: "record_wait n a st = settle (answer_entry (n, a)) st"
  by (cases a) (simp_all add: record_wait_def settle_def skip_complete_commute Let_def)

lemma record_waits_settle: "record_waits as st = settle_all (map answer_entry as) st"
  by (induction as st rule: record_waits.induct) (simp_all add: record_wait_settle)

lemma record_dispatches_settle:
  "record_dispatches (map (\<lambda>n. (n, f n)) ns) st ws =
     (settle_all (map (\<lambda>n. (n, ''failed'', Some (DispatchError (projl (f n))))) (filter (\<lambda>n. isl (f n)) ns)) st,
      ws @ map (\<lambda>n. (n, projr (f n))) (filter (\<lambda>n. \<not> isl (f n)) ns))"
proof (induction ns arbitrary: st ws)
  case (Cons n ns)
  then show ?case by (cases "f n") (simp_all add: settle_def Let_def)
qed simp

lemma settle_facts:
  "sc_dag (settle (n, s, e) st) = fst (Complete n (sc_dag st))"
  "mlookup (sc_outcomes (settle (n, s, e) st)) k =
     (if k = n then Some \<lparr>to_TaskID = n, to_Status = s, to_Error = e, to_Batch = int (sc_batch st)\<rparr>
      else mlookup (sc_outcomes st) k)"
  "mget False (sc_skip (settle (n, s, e) st)) k \<longleftrightarrow>
     mget False (sc_skip st) k \<or> s \<noteq> ''completed'' \<and> (n, k) \<in> erel (edges (sc_dag st))"
  "sc_order (settle (n, s, e) st) = sc_order st" "sc_batch (settle (n, s, e) st) = sc_batch st"
  by (auto simp: settle_def Let_def complete_node_def put_outcome_def skip_dependents_def
      Dependents_def mget_fold_put erel_def)

lemma settle_all_frame:
  "sc_order (settle_all xs st) = sc_order st" "sc_batch (settle_all xs st) = sc_batch st"
  "sc_dag (settle_all xs st) = complete_all (map fst xs) (sc_dag st)"
  by (induction xs arbitrary: st) (auto simp: settle_facts)

lemma edges_complete_all [simp]: "edges (complete_all ns d) = edges d"
  by (induction ns arbitrary: d) simp_all

lemma settle_all_outcomes:
  "mlookup (sc_outcomes (settle_all xs st)) k =
     (case map_of (rev xs) k of
        None \<Rightarrow> mlookup (sc_outcomes st) k
      | Some (s, e) \<Rightarrow> Some \<lparr>to_TaskID = k, to_Status = s, to_Error = e, to_Batch = int (sc_batch st)\<rparr>)"
  by (induction xs arbitrary: st) (auto simp: settle_facts map_add_def split: option.splits)

lemma settle_all_skip:
  "mget False (sc_skip (settle_all xs st)) k \<longleftrightarrow>
     mget False (sc_skip st) k \<or> (\<exists>n s e. (n, s, e) \<in> set xs \<and> s \<noteq> ''completed'' \<and> (n, k) \<in> erel (edges (sc_dag st)))"
proof (induction xs arbitrary: st)
  case (Cons x xs)
  obtain n s e where "x = (n, s, e)" by (cases x)
  then show ?case by (simp add: Cons.IH settle_facts) blast
qed simp

lemma settle_all_Some:
  assumes "distinct (map fst xs)" "(k, s, e) \<in> set xs"
  shows "mlookup (sc_outcomes (settle_all xs st)) k =
    Some \<lparr>to_TaskID = k, to_Status = s, to_Error = e, to_Batch = int (sc_batch st)\<rparr>"
proof -
  have "map_of (rev xs) k = Some (s, e)"
    using assms by (intro map_of_is_SomeI) (simp_all add: rev_map [symmetric])
  then show ?thesis by (simp add: settle_all_outcomes)
qed

lemma settle_all_other:
  assumes "k \<notin> fst ` set xs"
  shows "mlookup (sc_outcomes (settle_all xs st)) k = mlookup (sc_outcomes st) k"
proof -
  have "map_of (rev xs) k = None" using assms by (simp add: map_of_eq_None_iff)
  then show ?thesis by (simp add: settle_all_outcomes)
qed

section \<open>Waves of a well-formed graph\<close>

text \<open>What the loop keeps of the graph and of the marks, whatever the order of the updates.\<close>

definition completed_task :: "sched_state \<Rightarrow> string \<Rightarrow> bool" where
  "completed_task st n \<longleftrightarrow> map_option to_Status (mlookup (sc_outcomes st) n) = Some ''completed''"

definition core_inv :: "string set \<Rightarrow> (string \<times> string) set \<Rightarrow> sched_state \<Rightarrow> bool" where
  "core_inv N E st \<longleftrightarrow> dag_wf (sc_dag st) \<and> node_set (sc_dag st) = N \<and> erel (edges (sc_dag st)) = E \<and>
     (\<forall>n. mlookup (sc_outcomes st) n \<noteq> None \<longleftrightarrow> n \<in> done_set (sc_dag st)) \<and>
     (\<forall>n. mget False (sc_skip st) n \<longleftrightarrow>
        (\<exists>p. (p, n) \<in> E \<and> p \<in> done_set (sc_dag st) \<and> \<not> completed_task st p))"

lemma completed_settle:
  "completed_task (settle (n, s, e) st) k \<longleftrightarrow> (if k = n then s = ''completed'' else completed_task st k)"
  by (simp add: completed_task_def settle_facts)

lemma core_invI:
  assumes "dag_wf (sc_dag st)" "node_set (sc_dag st) = N" "erel (edges (sc_dag st)) = E"
    and "\<And>n. mlookup (sc_outcomes st) n \<noteq> None \<longleftrightarrow> n \<in> done_set (sc_dag st)"
    and "\<And>n. mget False (sc_skip st) n \<longleftrightarrow>
      (\<exists>p. (p, n) \<in> E \<and> p \<in> done_set (sc_dag st) \<and> \<not> completed_task st p)"
  shows "core_inv N E st"
  unfolding core_inv_def using assms by (intro conjI allI)

lemma core_invD:
  assumes "core_inv N E st"
  shows core_wf: "dag_wf (sc_dag st)" and core_nodes: "node_set (sc_dag st) = N"
    and core_edges: "erel (edges (sc_dag st)) = E"
    and core_outcome: "mlookup (sc_outcomes st) n \<noteq> None \<longleftrightarrow> n \<in> done_set (sc_dag st)"
    and core_skip: "mget False (sc_skip st) n \<longleftrightarrow>
      (\<exists>p. (p, n) \<in> E \<and> p \<in> done_set (sc_dag st) \<and> \<not> completed_task st p)"
proof -
  note inv = assms [unfolded core_inv_def]
  show "dag_wf (sc_dag st)" "node_set (sc_dag st) = N" "erel (edges (sc_dag st)) = E"
    by (rule inv [THEN conjunct1], rule inv [THEN conjunct2, THEN conjunct1],
        rule inv [THEN conjunct2, THEN conjunct2, THEN conjunct1])
  show "mlookup (sc_outcomes st) n \<noteq> None \<longleftrightarrow> n \<in> done_set (sc_dag st)"
    by (rule inv [THEN conjunct2, THEN conjunct2, THEN conjunct2, THEN conjunct1, THEN spec])
  show "mget False (sc_skip st) n \<longleftrightarrow>
      (\<exists>p. (p, n) \<in> E \<and> p \<in> done_set (sc_dag st) \<and> \<not> completed_task st p)"
    by (rule inv [THEN conjunct2, THEN conjunct2, THEN conjunct2, THEN conjunct2, THEN spec])
qed

lemma insert_node_iff:
  assumes "n \<notin> D"
  shows "(\<exists>p. (p, k) \<in> E \<and> p \<in> insert n D \<and> \<not> (if p = n then c else P p)) \<longleftrightarrow>
    (\<exists>p. (p, k) \<in> E \<and> p \<in> D \<and> \<not> P p) \<or> \<not> c \<and> (n, k) \<in> E"
  using assms by (metis insert_iff)

lemma core_settle:
  assumes core: "core_inv N E st" and n: "n \<in> N" "n \<notin> done_set (sc_dag st)"
  shows "core_inv N E (settle (n, s, e) st)"
proof -
  note wf = core_wf [OF core]
  have dn: "done_set (sc_dag (settle (n, s, e) st)) = insert n (done_set (sc_dag st))"
    by (simp add: settle_facts done_set_Complete [OF wf])
  show ?thesis
  proof (rule core_invI, unfold dn, goal_cases)
    case 1
    show ?case using Complete_wf [OF wf] n core_nodes [OF core] by (simp add: settle_facts)
  next
    case 2
    show ?case using core_nodes [OF core] by (simp add: settle_facts)
  next
    case 3
    show ?case using core_edges [OF core] by (simp add: settle_facts)
  next
    case (4 k)
    show ?case using core_outcome [OF core, of k] by (simp add: settle_facts(2))
  next
    case (5 k)
    show ?case
    proof -
      note split_node = insert_node_iff [OF n(2)]
      show ?thesis
        by (simp only: completed_settle settle_facts(3) core_edges [OF core] core_skip [OF core] split_node)
    qed
  qed
qed

lemma core_settle_all:
  assumes "core_inv N E st" "distinct (map fst xs)" "fst ` set xs \<subseteq> N - done_set (sc_dag st)"
  shows "core_inv N E (settle_all xs st)"
  using assms
proof (induction xs arbitrary: st)
  case (Cons x xs)
  obtain n s e where x: "x = (n, s, e)" by (cases x)
  have wf: "dag_wf (sc_dag st)" using Cons.prems(1) by (simp add: core_inv_def)
  have "core_inv N E (settle (n, s, e) st)" using Cons.prems x by (intro core_settle) auto
  moreover have "fst ` set xs \<subseteq> N - done_set (sc_dag (settle (n, s, e) st))"
    using Cons.prems x by (auto simp: settle_facts done_set_Complete [OF wf])
  ultimately show ?case using Cons x by simp
qed simp

lemma partition_ready_wave:
  assumes "\<And>a b. a \<in> set ns \<Longrightarrow> b \<in> set ns \<Longrightarrow> (a, b) \<notin> erel (edges (sc_dag st))"
  shows "partition_ready ns st td sk =
    (settle_all (map (\<lambda>n. (n, ''skipped'', None)) (filter (mget False (sc_skip st)) ns)) st,
     td @ filter (\<lambda>n. \<not> mget False (sc_skip st) n) ns,
     sk \<or> filter (mget False (sc_skip st)) ns \<noteq> [])"
  using assms
proof (induction ns arbitrary: st td sk)
  case (Cons n ns)
  show ?case
  proof (cases "mget False (sc_skip st) n")
    case True
    let ?st = "settle (n, ''skipped'', None) st"
    have same: "mget False (sc_skip ?st) k = mget False (sc_skip st) k" if "k \<in> set ns" for k
      using Cons.prems [of n k] that by (simp add: settle_facts)
    have "\<And>a b. a \<in> set ns \<Longrightarrow> b \<in> set ns \<Longrightarrow> (a, b) \<notin> erel (edges (sc_dag ?st))"
      using Cons.prems by (simp add: settle_facts)
    note IH = Cons.IH [OF this]
    have f: "filter (mget False (sc_skip ?st)) ns = filter (mget False (sc_skip st)) ns"
      "filter (\<lambda>k. \<not> mget False (sc_skip ?st) k) ns = filter (\<lambda>k. \<not> mget False (sc_skip st) k) ns"
      using same by (auto intro: filter_cong)
    have "partition_ready (n # ns) st td sk = partition_ready ns ?st td True"
      using True by (simp add: settle_def Let_def)
    also have "\<dots> = (settle_all (map (\<lambda>n. (n, ''skipped'', None)) (filter (mget False (sc_skip st)) (n # ns))) st,
        td @ filter (\<lambda>n. \<not> mget False (sc_skip st) n) (n # ns), True)"
      using True by (simp add: IH f)
    finally show ?thesis using True by simp
  next
    case False
    then show ?thesis using Cons.IH [of st "td @ [n]" sk] Cons.prems by simp
  qed
qed simp

section \<open>The invariant of the loop\<close>

text \<open>What the environment makes of task \<open>n\<close> when it is dispatched in batch \<open>b\<close>.\<close>

definition batch_entry ::
  "sched_env \<Rightarrow> task_index \<Rightarrow> string \<Rightarrow> nat \<Rightarrow> string \<Rightarrow> string \<times> string \<times> task_error option" where
  "batch_entry env m c b n =
     (case dispatch_task env m c b n of
        Inl err \<Rightarrow> (n, ''failed'', Some (DispatchError err))
      | Inr dispID \<Rightarrow> answer_entry (n, v_wait env b dispID))"

fun entry_outcome :: "nat \<Rightarrow> string \<times> string \<times> task_error option \<Rightarrow> TaskOutcome" where
  "entry_outcome b (n, s, e) = \<lparr>to_TaskID = n, to_Status = s, to_Error = e, to_Batch = int b\<rparr>"

lemma fst_batch_entry [simp]: "fst (batch_entry env m c b n) = n"
  by (simp add: batch_entry_def split: sum.split)

lemma run_batch_settle:
  "\<exists>xs. mset xs = mset (map (batch_entry env m c (sc_batch st)) td) \<and>
     run_batch env m c td st =
       (settle_all xs (st\<lparr>sc_order := sc_order st @ [td]\<rparr>))\<lparr>sc_batch := Suc (sc_batch st)\<rparr>"
proof -
  define b where "b = sc_batch st"
  define f where "f = dispatch_task env m c b"
  define failed where "failed = map (\<lambda>n. (n, ''failed'', Some (DispatchError (projl (f n))))) (filter (\<lambda>n. isl (f n)) td)"
  define waits where "waits = map (\<lambda>n. (n, projr (f n))) (filter (\<lambda>n. \<not> isl (f n)) td)"
  define arr where "arr = sort_key (\<lambda>(n, _). v_rank env b n) (map (\<lambda>(n, dispID). (n, v_wait env b dispID)) waits)"
  have "run_batch env m c td st =
      (settle_all (failed @ map answer_entry arr) (st\<lparr>sc_order := sc_order st @ [td]\<rparr>))\<lparr>sc_batch := Suc (sc_batch st)\<rparr>"
    by (simp add: run_batch_def Let_def b_def [symmetric] f_def [symmetric] record_dispatches_settle
        failed_def [symmetric] waits_def arr_def record_waits_settle settle_all_frame comp_def)
  moreover have "mset failed = image_mset (batch_entry env m c b) (mset (filter (\<lambda>n. isl (f n)) td))"
    unfolding failed_def mset_map
    by (rule image_mset_cong) (auto simp: batch_entry_def f_def [symmetric] isl_def)
  moreover have "mset (map answer_entry arr) = image_mset (batch_entry env m c b) (mset (filter (\<lambda>n. \<not> isl (f n)) td))"
  proof -
    have "mset (map answer_entry arr) = image_mset (\<lambda>n. answer_entry (n, v_wait env b (projr (f n)))) (mset (filter (\<lambda>n. \<not> isl (f n)) td))"
      by (simp add: arr_def waits_def image_mset.compositionality comp_def)
    also have "\<dots> = image_mset (batch_entry env m c b) (mset (filter (\<lambda>n. \<not> isl (f n)) td))"
      by (rule image_mset_cong) (auto simp: batch_entry_def f_def [symmetric] split: sum.split)
    finally show ?thesis .
  qed
  moreover have "mset (filter (\<lambda>n. isl (f n)) td) + mset (filter (\<lambda>n. \<not> isl (f n)) td) = mset td"
    by (simp add: mset_filter)
  ultimately show ?thesis
    by (intro exI [of _ "failed @ map answer_entry arr"]) (simp add: b_def image_mset_union [symmetric])
qed

definition run_inv ::
  "sched_env \<Rightarrow> task_index \<Rightarrow> string \<Rightarrow> string set \<Rightarrow> (string \<times> string) set \<Rightarrow> sched_state \<Rightarrow> bool" where
  "run_inv env m c N E st \<longleftrightarrow> core_inv N E st \<and> sc_batch st = length (sc_order st) \<and>
     distinct (concat (sc_order st)) \<and> set (concat (sc_order st)) \<subseteq> done_set (sc_dag st) \<and>
     (\<forall>n\<in>done_set (sc_dag st). \<forall>p. (p, n) \<in> E \<longrightarrow> p \<in> done_set (sc_dag st)) \<and>
     (\<forall>n\<in>done_set (sc_dag st). n \<in> set (concat (sc_order st)) \<longleftrightarrow> \<not> mget False (sc_skip st) n) \<and>
     (\<forall>n\<in>done_set (sc_dag st). mget False (sc_skip st) n \<longrightarrow>
        (\<exists>b. mlookup (sc_outcomes st) n = Some (entry_outcome b (n, ''skipped'', None)))) \<and>
     (\<forall>k<length (sc_order st). v_ctx env k = None) \<and>
     (\<forall>k<length (sc_order st). \<forall>n\<in>set (sc_order st ! k).
        mlookup (sc_outcomes st) n = Some (entry_outcome k (batch_entry env m c k n)) \<and>
        (\<forall>p. (p, n) \<in> E \<longrightarrow> (\<exists>j<k. p \<in> set (sc_order st ! j))))"

lemma run_invD:
  assumes "run_inv env m c N E st"
  shows run_core: "core_inv N E st" and run_batches: "sc_batch st = length (sc_order st)"
    and run_distinct: "distinct (concat (sc_order st))"
    and run_sub: "n \<in> set (concat (sc_order st)) \<Longrightarrow> n \<in> done_set (sc_dag st)"
    and run_closed: "n \<in> done_set (sc_dag st) \<Longrightarrow> (p, n) \<in> E \<Longrightarrow> p \<in> done_set (sc_dag st)"
    and run_ran: "n \<in> done_set (sc_dag st) \<Longrightarrow> n \<in> set (concat (sc_order st)) \<longleftrightarrow> \<not> mget False (sc_skip st) n"
    and run_skipped: "n \<in> done_set (sc_dag st) \<Longrightarrow> mget False (sc_skip st) n \<Longrightarrow>
      \<exists>b. mlookup (sc_outcomes st) n = Some (entry_outcome b (n, ''skipped'', None))"
    and run_ctx: "k < length (sc_order st) \<Longrightarrow> v_ctx env k = None"
    and run_outcome: "k < length (sc_order st) \<Longrightarrow> n \<in> set (sc_order st ! k) \<Longrightarrow>
      mlookup (sc_outcomes st) n = Some (entry_outcome k (batch_entry env m c k n))"
    and run_before: "k < length (sc_order st) \<Longrightarrow> n \<in> set (sc_order st ! k) \<Longrightarrow> (p, n) \<in> E \<Longrightarrow>
      \<exists>j<k. p \<in> set (sc_order st ! j)"
  using assms unfolding run_inv_def by blast+

text \<open>
  Settling nodes whose predecessors are done changes neither the outcomes of the nodes done before
  nor the marks of any node that is done afterwards.
\<close>

lemma settle_wave:
  assumes core: "core_inv N E st"
    and xs: "distinct (map fst xs)" "fst ` set xs \<subseteq> N - done_set (sc_dag st)"
  shows "done_set (sc_dag (settle_all xs st)) = done_set (sc_dag st) \<union> fst ` set xs"
    and "(\<And>p. (p, n) \<in> E \<Longrightarrow> p \<in> done_set (sc_dag st)) \<Longrightarrow>
      mget False (sc_skip (settle_all xs st)) n \<longleftrightarrow> mget False (sc_skip st) n"
    and "n \<in> done_set (sc_dag st) \<Longrightarrow> mlookup (sc_outcomes (settle_all xs st)) n = mlookup (sc_outcomes st) n"
proof -
  have sub: "set (map fst xs) \<subseteq> node_set (sc_dag st)" using xs(2) core_nodes [OF core] by auto
  show "done_set (sc_dag (settle_all xs st)) = done_set (sc_dag st) \<union> fst ` set xs"
    by (simp add: settle_all_frame dg.fold_finish(2) [OF core_wf [OF core] sub])
  show "mlookup (sc_outcomes (settle_all xs st)) n = mlookup (sc_outcomes st) n"
    if "n \<in> done_set (sc_dag st)" using settle_all_other [of n xs st] that xs(2) by blast
  assume pre: "\<And>p. (p, n) \<in> E \<Longrightarrow> p \<in> done_set (sc_dag st)"
  have "\<not> (\<exists>a s e. (a, s, e) \<in> set xs \<and> s \<noteq> ''completed'' \<and> (a, n) \<in> E)"
  proof clarify
    fix a s e assume "(a, s, e) \<in> set xs" "(a, n) \<in> E"
    then have "a \<in> fst ` set xs" by force
    with pre [OF \<open>(a, n) \<in> E\<close>] xs(2) show False by blast
  qed
  then show "mget False (sc_skip (settle_all xs st)) n \<longleftrightarrow> mget False (sc_skip st) n"
    unfolding settle_all_skip core_edges [OF core] by blast
qed

lemma in_concat_nth: "k < length xss \<Longrightarrow> x \<in> set (xss ! k) \<Longrightarrow> x \<in> set (concat xss)"
  by (auto intro: bexI [of _ "xss ! k"])

lemma in_concat_iff: "x \<in> set (concat xss) \<longleftrightarrow> (\<exists>k<length xss. x \<in> set (xss ! k))"
  by (auto simp: set_concat) (metis in_set_conv_nth)

lemma run_skip_step:
  assumes inv: "run_inv env m c N E st" and ns: "distinct ns" "set ns \<subseteq> set (Ready (sc_dag st))"
    and marked: "\<And>n. n \<in> set ns \<Longrightarrow> mget False (sc_skip st) n"
  shows "run_inv env m c N E (settle_all (map (\<lambda>n. (n, ''skipped'', None)) ns) st)"
proof -
  let ?xs = "map (\<lambda>n. (n, ''skipped'', None :: task_error option)) ns" and ?D = "done_set (sc_dag st)"
  note core = run_core [OF inv]
  have fstx: "fst ` set ?xs = set ns" "distinct (map fst ?xs)" using ns(1) by (auto simp: image_image comp_def)
  have R: "set ns \<subseteq> N - ?D" "\<And>n p. n \<in> set ns \<Longrightarrow> (p, n) \<in> E \<Longrightarrow> p \<in> ?D"
    using ns(2) core_nodes [OF core] core_edges [OF core] by (auto simp: set_Ready [OF core_wf [OF core]])
  from R(1) have sub: "fst ` set ?xs \<subseteq> N - ?D" unfolding fstx .
  note wave = settle_wave [OF core fstx(2) sub, unfolded fstx]
  have skip: "mget False (sc_skip (settle_all ?xs st)) n \<longleftrightarrow> mget False (sc_skip st) n" if "n \<in> ?D \<union> set ns" for n
    using wave(2) [of n] run_closed [OF inv] R(2) that by blast
  have new: "mlookup (sc_outcomes (settle_all ?xs st)) n = Some (entry_outcome (sc_batch st) (n, ''skipped'', None))"
    if "n \<in> set ns" for n using settle_all_Some [OF fstx(2), of n "''skipped''" None st] that by simp
  have old: "n \<in> set (sc_order st ! k) \<Longrightarrow> k < length (sc_order st) \<Longrightarrow> n \<in> ?D" for n k
    by (rule run_sub [OF inv in_concat_nth])
  show ?thesis
    unfolding run_inv_def settle_all_frame(1,2) wave(1)
  proof (intro conjI ballI allI impI)
    show "core_inv N E (settle_all ?xs st)" by (rule core_settle_all [OF core fstx(2) sub])
    show "sc_batch st = length (sc_order st)" "distinct (concat (sc_order st))"
      by (rule run_batches [OF inv], rule run_distinct [OF inv])
    show "set (concat (sc_order st)) \<subseteq> ?D \<union> set ns" using run_sub [OF inv] by blast
    fix n assume n: "n \<in> ?D \<union> set ns"
    show "p \<in> ?D \<union> set ns" if "(p, n) \<in> E" for p using that n run_closed [OF inv] R(2) by blast
    show "n \<in> set (concat (sc_order st)) \<longleftrightarrow> \<not> mget False (sc_skip (settle_all ?xs st)) n"
      using n skip [OF n] run_ran [OF inv, of n] run_sub [OF inv, of n] marked [of n] R(1) by blast
    show "\<exists>b. mlookup (sc_outcomes (settle_all ?xs st)) n = Some (entry_outcome b (n, ''skipped'', None))"
      if "mget False (sc_skip (settle_all ?xs st)) n"
      using n that skip [OF n] new [of n] wave(3) [of n] run_skipped [OF inv, of n] by auto
  next
    fix k assume k: "k < length (sc_order st)"
    then show "v_ctx env k = None" by (rule run_ctx [OF inv])
    fix n assume n: "n \<in> set (sc_order st ! k)"
    show "mlookup (sc_outcomes (settle_all ?xs st)) n = Some (entry_outcome k (batch_entry env m c k n))"
      using run_outcome [OF inv k n] wave(3) [OF old [OF n k]] by simp
    show "\<exists>j<k. p \<in> set (sc_order st ! j)" if "(p, n) \<in> E" for p by (rule run_before [OF inv k n that])
  qed
qed

lemma run_batch_step:
  assumes inv: "run_inv env m c N E st" and td: "distinct td" "set td \<subseteq> N - done_set (sc_dag st)"
    and preds: "\<And>n p. n \<in> set td \<Longrightarrow> (p, n) \<in> E \<Longrightarrow> p \<in> done_set (sc_dag st)"
    and unmarked: "\<And>n. n \<in> set td \<Longrightarrow> \<not> mget False (sc_skip st) n"
    and ctx: "v_ctx env (sc_batch st) = None"
  shows "run_inv env m c N E (run_batch env m c td st)"
    and "done_set (sc_dag (run_batch env m c td st)) = done_set (sc_dag st) \<union> set td"
proof -
  let ?D = "done_set (sc_dag st)" and ?b = "sc_batch st"
  define st1 where "st1 = st\<lparr>sc_order := sc_order st @ [td]\<rparr>"
  obtain xs where xs: "mset xs = mset (map (batch_entry env m c ?b) td)"
    and run: "run_batch env m c td st = (settle_all xs st1)\<lparr>sc_batch := Suc ?b\<rparr>"
    unfolding st1_def using run_batch_settle by blast
  have same: "sc_dag st1 = sc_dag st" "sc_outcomes st1 = sc_outcomes st" "sc_skip st1 = sc_skip st"
    "sc_batch st1 = ?b" "sc_order st1 = sc_order st @ [td]" by (simp_all add: st1_def)
  have core: "core_inv N E st1"
    using run_core [OF inv] by (simp add: core_inv_def completed_task_def same)
  have "mset (map fst xs) = mset td"
    using arg_cong [OF xs, of "image_mset fst"] by (simp add: image_mset.compositionality comp_def)
  then have fstx: "fst ` set xs = set td" "distinct (map fst xs)"
    using td(1) by (metis list.set_map mset_eq_setD, metis mset_eq_imp_distinct_iff)
  have setx: "set xs = batch_entry env m c ?b ` set td"
    using mset_eq_setD [OF xs] by simp
  have sub: "fst ` set xs \<subseteq> N - done_set (sc_dag st1)" using td(2) by (simp add: fstx same)
  note wave = settle_wave [OF core fstx(2) sub, unfolded fstx same]
  let ?st = "settle_all xs st1"
  show "done_set (sc_dag (run_batch env m c td st)) = ?D \<union> set td" by (simp add: run wave(1))
  have skip: "mget False (sc_skip ?st) n \<longleftrightarrow> mget False (sc_skip st) n" if "n \<in> ?D \<union> set td" for n
    using wave(2) [of n] run_closed [OF inv] preds that by blast
  have new: "mlookup (sc_outcomes ?st) n = Some (entry_outcome ?b (batch_entry env m c ?b n))" if "n \<in> set td" for n
  proof -
    obtain s e where be: "batch_entry env m c ?b n = (n, s, e)"
      using fst_batch_entry [of env m c ?b n] by (metis prod.collapse)
    with that setx have "(n, s, e) \<in> set xs" by force
    from settle_all_Some [OF fstx(2) this, of st1] be show ?thesis by (simp add: same)
  qed
  have old: "n \<in> set (sc_order st ! k) \<Longrightarrow> k < length (sc_order st) \<Longrightarrow> n \<in> ?D" for n k
    by (rule run_sub [OF inv in_concat_nth])
  have ran: "\<exists>j<length (sc_order st). p \<in> set (sc_order st ! j)" if "n \<in> set td" "(p, n) \<in> E" for n p
  proof -
    have pD: "p \<in> ?D" by (rule preds [OF that])
    have "completed_task st p"
      using unmarked [OF that(1)] that(2) pD core_skip [OF run_core [OF inv], of n] by blast
    then have "\<not> mget False (sc_skip st) p"
      using run_skipped [OF inv pD] by (auto simp: completed_task_def)
    with run_ran [OF inv pD] have "p \<in> set (concat (sc_order st))" by blast
    then show ?thesis by (simp only: in_concat_iff)
  qed
  let ?r = "run_batch env m c td st" and ?o = "sc_order st @ [td]"
  have r: "sc_order ?r = ?o" "sc_batch ?r = Suc ?b" "done_set (sc_dag ?r) = ?D \<union> set td"
    "sc_skip ?r = sc_skip ?st" "sc_outcomes ?r = sc_outcomes ?st"
    by (simp_all add: run settle_all_frame(1) wave(1) same)
  show "run_inv env m c N E ?r"
    unfolding run_inv_def r
  proof (intro conjI ballI allI impI)
    show "core_inv N E ?r"
      using core_settle_all [OF core fstx(2) sub] by (simp add: run core_inv_def completed_task_def)
    show "Suc ?b = length ?o" using run_batches [OF inv] by simp
    have sub: "set (concat (sc_order st)) \<subseteq> ?D" using run_sub [OF inv] by blast
    have "set (concat (sc_order st)) \<inter> set td = {}" using sub td(2) by blast
    then show "distinct (concat ?o)" using run_distinct [OF inv] td(1) by simp
    show "set (concat ?o) \<subseteq> ?D \<union> set td" using sub by auto
    fix n assume n: "n \<in> ?D \<union> set td"
    show "p \<in> ?D \<union> set td" if "(p, n) \<in> E" for p using that n run_closed [OF inv] preds by blast
    have "n \<in> set (concat ?o) \<longleftrightarrow> n \<in> set (concat (sc_order st)) \<or> n \<in> set td" by auto
    then show "n \<in> set (concat ?o) \<longleftrightarrow> \<not> mget False (sc_skip ?st) n"
      using n skip [OF n] run_ran [OF inv, of n] unmarked [of n] by blast
    show "\<exists>b. mlookup (sc_outcomes ?st) n = Some (entry_outcome b (n, ''skipped'', None))"
      if "mget False (sc_skip ?st) n"
    proof -
      from that skip [OF n] have sk: "mget False (sc_skip st) n" by blast
      with n unmarked have "n \<in> ?D" by blast
      with run_skipped [OF inv this sk] wave(3) [OF this] show ?thesis by simp
    qed
  next
    fix k assume k: "k < length ?o"
    show "v_ctx env k = None"
      using k ctx run_ctx [OF inv, of k] run_batches [OF inv] by (cases "k = ?b") auto
    fix n assume n: "n \<in> set (?o ! k)"
    show "mlookup (sc_outcomes ?st) n = Some (entry_outcome k (batch_entry env m c k n))"
    proof (cases "k < length (sc_order st)")
      case True
      with n have n': "n \<in> set (sc_order st ! k)" by (simp add: nth_append)
      from run_outcome [OF inv True this] wave(3) [OF old [OF n' True]] show ?thesis by simp
    next
      case False
      with k n have "k = ?b" "n \<in> set td" using run_batches [OF inv] by (auto simp: nth_append less_Suc_eq)
      with new [of n] show ?thesis by simp
    qed
    show "\<exists>j<k. p \<in> set (?o ! j)" if p: "(p, n) \<in> E" for p
    proof (cases "k < length (sc_order st)")
      case True
      with n have "n \<in> set (sc_order st ! k)" by (simp add: nth_append)
      from run_before [OF inv True this p] True show ?thesis by (auto simp: nth_append intro: less_trans)
    next
      case False
      with k n have "k = length (sc_order st)" "n \<in> set td" by (auto simp: nth_append less_Suc_eq)
      with ran [OF _ p] show ?thesis by (auto simp: nth_append)
    qed
  qed
qed

section \<open>The whole loop\<close>

text \<open>One iteration on a state that satisfies the invariant, in terms of waves.\<close>

definition to_skip :: "sched_state \<Rightarrow> string list" where
  "to_skip st = filter (mget False (sc_skip st)) (Ready (sc_dag st))"

definition to_run :: "sched_state \<Rightarrow> string list" where
  "to_run st = filter (\<lambda>n. \<not> mget False (sc_skip st) n) (Ready (sc_dag st))"

definition after_skip :: "sched_state \<Rightarrow> sched_state" where
  "after_skip st = settle_all (map (\<lambda>n. (n, ''skipped'', None)) (to_skip st)) st"

lemma ready_facts:
  assumes "core_inv N E st"
  shows "set (Ready (sc_dag st)) = {n \<in> N - done_set (sc_dag st). \<forall>p. (p, n) \<in> E \<longrightarrow> p \<in> done_set (sc_dag st)}"
    and "distinct (Ready (sc_dag st))"
    and "partition_ready (Ready (sc_dag st)) st [] False = (after_skip st, to_run st, to_skip st \<noteq> [])"
proof -
  show R: "set (Ready (sc_dag st)) = {n \<in> N - done_set (sc_dag st). \<forall>p. (p, n) \<in> E \<longrightarrow> p \<in> done_set (sc_dag st)}"
    using set_Ready [OF core_wf [OF assms]] by (simp add: core_nodes [OF assms] core_edges [OF assms])
  show "distinct (Ready (sc_dag st))" by (rule distinct_Ready [OF core_wf [OF assms]])
  have "(a, b) \<notin> erel (edges (sc_dag st))" if "a \<in> set (Ready (sc_dag st))" "b \<in> set (Ready (sc_dag st))" for a b
    using that unfolding R core_edges [OF assms] by blast
  from partition_ready_wave [OF this]
  show "partition_ready (Ready (sc_dag st)) st [] False = (after_skip st, to_run st, to_skip st \<noteq> [])"
    by (simp add: after_skip_def to_run_def to_skip_def)
qed

lemma after_skip_facts:
  assumes inv: "run_inv env m c N E st"
  shows "run_inv env m c N E (after_skip st)" "sc_batch (after_skip st) = sc_batch st"
    and "set (to_run st) \<subseteq> N - done_set (sc_dag (after_skip st))" "distinct (to_run st)"
    and "n \<in> set (to_run st) \<Longrightarrow> (p, n) \<in> E \<Longrightarrow> p \<in> done_set (sc_dag (after_skip st))"
    and "n \<in> set (to_run st) \<Longrightarrow> \<not> mget False (sc_skip (after_skip st)) n"
proof -
  note core = run_core [OF inv] and R = ready_facts [OF run_core [OF inv]]
  let ?xs = "map (\<lambda>n. (n, ''skipped'', None :: task_error option)) (to_skip st)"
  have sk: "distinct (to_skip st)" "set (to_skip st) \<subseteq> set (Ready (sc_dag st))"
    using R(2) by (auto simp: to_skip_def)
  have "\<And>n. n \<in> set (to_skip st) \<Longrightarrow> mget False (sc_skip st) n" by (simp add: to_skip_def)
  from run_skip_step [OF inv sk this] show "run_inv env m c N E (after_skip st)" by (simp add: after_skip_def)
  show "sc_batch (after_skip st) = sc_batch st" by (simp add: after_skip_def settle_all_frame)
  have f: "fst ` set ?xs = set (to_skip st)" "distinct (map fst ?xs)" using sk(1) by (auto simp: image_image comp_def)
  have "fst ` set ?xs \<subseteq> N - done_set (sc_dag st)" using sk(2) unfolding f R(1) by blast
  note wave = settle_wave [OF core f(2) this, unfolded f, folded after_skip_def]
  have disj: "set (to_run st) \<inter> set (to_skip st) = {}" by (auto simp: to_run_def to_skip_def)
  have run: "set (to_run st) \<subseteq> set (Ready (sc_dag st))" by (auto simp: to_run_def)
  show "set (to_run st) \<subseteq> N - done_set (sc_dag (after_skip st))"
    using run disj unfolding wave(1) R(1) by blast
  show "distinct (to_run st)" using R(2) by (simp add: to_run_def)
  assume n: "n \<in> set (to_run st)"
  then have pre: "(p, n) \<in> E \<Longrightarrow> p \<in> done_set (sc_dag st)" for p using run unfolding R(1) by blast
  then show "(p, n) \<in> E \<Longrightarrow> p \<in> done_set (sc_dag (after_skip st))" unfolding wave(1) by blast
  have "\<not> mget False (sc_skip st) n" using n by (simp add: to_run_def)
  with wave(2) [of n, OF pre] show "\<not> mget False (sc_skip (after_skip st)) n" by blast
qed

lemma core_progress:
  assumes core: "core_inv N E st" and left: "done_set (sc_dag st) \<noteq> N"
  shows "\<not> Remaining (sc_dag st) \<le> 0" and "to_run st = [] \<Longrightarrow> to_skip st \<noteq> []"
proof -
  have "done_set (sc_dag st) \<subseteq> N" "finite N"
    using dg.finished_tasks [OF core_wf [OF core]] core_nodes [OF core] finite_node_set(1) [of "sc_dag st"] by auto
  with left have "0 < card (N - done_set (sc_dag st))" by (simp add: card_gt_0_iff)
  then show "\<not> Remaining (sc_dag st) \<le> 0"
    using Remaining_card [OF core_wf [OF core]] core_nodes [OF core] by simp
  have "Ready (sc_dag st) \<noteq> []"
    using Ready_progress [OF core_wf [OF core]] left core_nodes [OF core] by simp
  then show "to_run st = [] \<Longrightarrow> to_skip st \<noteq> []"
    by (cases "Ready (sc_dag st)") (auto simp: to_run_def to_skip_def split: if_splits)
qed

lemma core_finished: "core_inv N E st \<Longrightarrow> done_set (sc_dag st) = N \<Longrightarrow> Remaining (sc_dag st) \<le> 0"
  using Remaining_card [OF core_wf] core_nodes by fastforce

lemma sched_loop_wave:
  assumes inv: "run_inv env m c N E st"
  shows "sched_loop env m c st =
    (if done_set (sc_dag st) = N then st
     else if to_run st = [] then sched_loop env m c (after_skip st)
     else if v_ctx env (sc_batch st) \<noteq> None then after_skip st
     else sched_loop env m c (run_batch env m c (to_run st) (after_skip st)))"
  using core_progress [OF run_core [OF inv]] core_finished [OF run_core [OF inv]] after_skip_facts(2) [OF inv]
  by (subst sched_loop.simps) (simp add: ready_facts(3) [OF run_core [OF inv]])

lemma sched_loop_run:
  assumes "run_inv env m c N E st"
  shows "run_inv env m c N E (sched_loop env m c st) \<and>
    (done_set (sc_dag (sched_loop env m c st)) = N \<or> v_ctx env (length (sc_order (sched_loop env m c st))) \<noteq> None)"
  using assms
proof (induction env m c st rule: sched_loop.induct)
  case (1 env m c st)
  note inv = 1(3) and skip = after_skip_facts [OF 1(3)]
  note core = run_core [OF inv] and loop = sched_loop_wave [OF inv] and part = ready_facts(3) [OF run_core [OF inv], symmetric]
  consider (finish) "done_set (sc_dag st) = N"
    | (skips) "done_set (sc_dag st) \<noteq> N" "to_run st = []"
    | (cancel) "done_set (sc_dag st) \<noteq> N" "to_run st \<noteq> []" "v_ctx env (sc_batch st) \<noteq> None"
    | (batch) "done_set (sc_dag st) \<noteq> N" "to_run st \<noteq> []" "v_ctx env (sc_batch st) = None" by blast
  then show ?case
  proof cases
    case finish
    then show ?thesis using inv by (simp add: loop)
  next
    case skips
    with 1(1) [OF core_progress(1) [OF core skips(1)] part refl skips(2) core_progress(2) [OF core skips] skip(1)]
    show ?thesis by (simp add: loop)
  next
    case cancel
    then show ?thesis using skip(1,2) run_batches [OF skip(1)] by (simp add: loop)
  next
    case batch
    have ctx: "v_ctx env (sc_batch (after_skip st)) = None" using batch(3) skip(2) by simp
    note step = run_batch_step(1) [OF skip(1) skip(4) skip(3) skip(5) skip(6) ctx]
    from 1(2) [OF core_progress(1) [OF core batch(1)] part refl batch(2) _ step] batch ctx
    show ?thesis by (simp add: loop)
  qed
qed

lemma run_inv_start:
  assumes "building N E d"
  shows "run_inv env m c N E \<lparr>sc_dag = d, sc_outcomes = [], sc_order = [], sc_skip = [], sc_batch = 0\<rparr>"
  using assms by (auto simp: run_inv_def core_inv_def building_def)

lemma mark_canceled_lookup:
  "mlookup (mark_canceled ns outs) k =
     (if mlookup outs k = None \<and> k \<in> set ns
      then Some \<lparr>to_TaskID = k, to_Status = ''canceled'', to_Error = None, to_Batch = -1\<rparr>
      else mlookup outs k)"
  by (induction ns outs rule: mark_canceled.induct) auto

lemma batch_entry_index:
  assumes "mlookup m n = Some t"
  shows "batch_entry env m c b n = batch_entry env [(n, t)] c b n"
proof -
  have "mlookup [(n, t)] n = Some t" by (simp add: mlookup_def)
  then show ?thesis unfolding batch_entry_def dispatch_task_def assms by simp
qed

text \<open>What a returned schedule is made of: the final state of the loop over a well-formed graph.\<close>

lemma Schedule_Inr:
  assumes "Schedule env req = Inr (res, err)"
  obtains m st where "request_valid (sr_Tasks req)" "err = v_ctx_end env"
    "run_inv env m (sr_ContextID req) (st_ID ` set (sr_Tasks req)) (dep_rel (sr_Tasks req)) st"
    "done_set (sc_dag st) = st_ID ` set (sr_Tasks req) \<or> v_ctx env (length (sc_order st)) \<noteq> None"
    "sres_ExecutionOrder res = sc_order st"
    "\<And>n. mlookup (sres_TaskResults res) n =
       (if mlookup (sc_outcomes st) n = None \<and> n \<in> st_ID ` set (sr_Tasks req)
        then Some \<lparr>to_TaskID = n, to_Status = ''canceled'', to_Error = None, to_Batch = -1\<rparr>
        else mlookup (sc_outcomes st) n)"
    "\<And>t. t \<in> set (sr_Tasks req) \<Longrightarrow> mlookup m (st_ID t) = Some t"
proof -
  have ne: "sr_Tasks req \<noteq> []" using assms by (auto simp: Schedule_def)
  from build_dag_cases [OF ne] assms ne obtain m d where
    b: "build_dag (sr_Tasks req) = Inr (m, d)" and valid: "request_valid (sr_Tasks req)"
      "building (st_ID ` set (sr_Tasks req)) (dep_rel (sr_Tasks req)) d"
      "set (mkeys m) = st_ID ` set (sr_Tasks req)" "\<forall>t\<in>set (sr_Tasks req). mlookup m (st_ID t) = Some t"
    by (auto simp: Schedule_def)
  let ?st = "sched_loop env m (sr_ContextID req) \<lparr>sc_dag = d, sc_outcomes = [], sc_order = [], sc_skip = [], sc_batch = 0\<rparr>"
  note run = sched_loop_run [OF run_inv_start [OF valid(2), of env m "sr_ContextID req"]]
  show thesis
    using that [of m ?st] run valid b ne assms
    by (auto simp: Schedule_def Let_def mark_canceled_lookup)
qed

section \<open>The order of arrival does not matter\<close>

definition same_view :: "sched_state \<Rightarrow> sched_state \<Rightarrow> bool" where
  "same_view st st' \<longleftrightarrow> done_set (sc_dag st) = done_set (sc_dag st') \<and> sc_order st = sc_order st' \<and>
     sc_batch st = sc_batch st' \<and> mlookup (sc_outcomes st) = mlookup (sc_outcomes st')"

lemma same_view_skip:
  assumes "core_inv N E st" "core_inv N E st'" "same_view st st'"
  shows "mget False (sc_skip st) n = mget False (sc_skip st') n"
  using assms(3) unfolding core_skip [OF assms(1)] core_skip [OF assms(2)] completed_task_def same_view_def by simp

lemma same_view_ready:
  assumes "core_inv N E st" "core_inv N E st'" "same_view st st'"
  shows "to_run st = to_run st'" "to_skip st = to_skip st'"
proof -
  have "set (Ready (sc_dag st)) = set (Ready (sc_dag st'))"
    using assms(3) by (simp add: ready_facts(1) [OF assms(1)] ready_facts(1) [OF assms(2)] same_view_def)
  then have "Ready (sc_dag st) = Ready (sc_dag st')"
    by (intro sorted_distinct_set_unique) (simp_all add: sorted_Ready ready_facts(2) [OF assms(1)] ready_facts(2) [OF assms(2)])
  moreover have "mget False (sc_skip st) = mget False (sc_skip st')"
    by (rule ext) (rule same_view_skip [OF assms])
  ultimately show "to_run st = to_run st'" "to_skip st = to_skip st'"
    by (simp_all add: to_run_def to_skip_def)
qed

lemma same_view_settle:
  assumes core: "core_inv N E st" "core_inv N E st'" and view: "same_view st st'"
    and xs: "mset xs = mset ys" "distinct (map fst xs)" "fst ` set xs \<subseteq> N - done_set (sc_dag st)"
  shows "same_view (settle_all xs st) (settle_all ys st')"
proof -
  have sets: "set ys = set xs" by (rule mset_eq_setD [OF xs(1), symmetric])
  have ys: "distinct (map fst ys)" using xs(1,2) by (metis mset_map mset_eq_imp_distinct_iff)
  have sub: "fst ` set ys \<subseteq> N - done_set (sc_dag st')" using xs(3) view by (simp add: sets same_view_def)
  note w = settle_wave(1) [OF core(1) xs(2,3)] settle_wave(1) [OF core(2) ys sub]
  have "mlookup (sc_outcomes (settle_all xs st)) k = mlookup (sc_outcomes (settle_all ys st')) k" for k
  proof (cases "k \<in> fst ` set xs")
    case True
    then obtain s e where "(k, s, e) \<in> set xs" by auto
    with settle_all_Some [OF xs(2), of k s e st] settle_all_Some [OF ys, of k s e st'] sets view
    show ?thesis by (simp add: same_view_def)
  next
    case False
    with settle_all_other [of k xs st] settle_all_other [of k ys st'] sets view show ?thesis
      by (simp add: same_view_def)
  qed
  with w view sets show ?thesis by (simp add: same_view_def settle_all_frame fun_eq_iff)
qed

lemma same_view_after_skip:
  assumes "run_inv env m c N E st" "run_inv env' m c N E st'" "same_view st st'"
  shows "same_view (after_skip st) (after_skip st')"
proof -
  note core = run_core [OF assms(1)] run_core [OF assms(2)]
  have "distinct (to_skip st)" "set (to_skip st) \<subseteq> N - done_set (sc_dag st)"
    using ready_facts(1,2) [OF core(1)] by (auto simp: to_skip_def)
  then show ?thesis
    unfolding after_skip_def same_view_ready(2) [OF core assms(3), symmetric]
    by (intro same_view_settle [OF core assms(3) refl]) (auto simp: comp_def image_image)
qed

lemma same_view_batch:
  assumes inv: "run_inv env m c N E st" "run_inv env' m c N E st'" and view: "same_view st st'"
    and env: "v_dispatch env' = v_dispatch env" "v_wait env' = v_wait env"
    and td: "distinct td" "set td \<subseteq> N - done_set (sc_dag st)"
  shows "same_view (run_batch env m c td st) (run_batch env' m c td st')"
proof -
  let ?a = "st\<lparr>sc_order := sc_order st @ [td]\<rparr>" and ?b = "st'\<lparr>sc_order := sc_order st' @ [td]\<rparr>"
  have "batch_entry env' m c b n = batch_entry env m c b n" for b n
    unfolding batch_entry_def dispatch_task_def env ..
  then have be: "batch_entry env' m c (sc_batch st') = batch_entry env m c (sc_batch st)"
    using view by (simp add: fun_eq_iff same_view_def)
  obtain xs where xs: "mset xs = mset (map (batch_entry env m c (sc_batch st)) td)"
    "run_batch env m c td st = (settle_all xs ?a)\<lparr>sc_batch := Suc (sc_batch st)\<rparr>"
    using run_batch_settle by blast
  obtain ys where ys: "mset ys = mset (map (batch_entry env m c (sc_batch st)) td)"
    "run_batch env' m c td st' = (settle_all ys ?b)\<lparr>sc_batch := Suc (sc_batch st')\<rparr>"
    using run_batch_settle [of env' m c st' td] unfolding be by blast
  have "mset (map fst xs) = mset td"
    using arg_cong [OF xs(1), of "image_mset fst"] by (simp add: image_mset.compositionality comp_def)
  then have f: "fst ` set xs = set td" "distinct (map fst xs)"
    using td(1) by (metis list.set_map mset_eq_setD, metis mset_eq_imp_distinct_iff)
  have "core_inv N E ?a" "core_inv N E ?b" "same_view ?a ?b"
    using run_core [OF inv(1)] run_core [OF inv(2)] view
    by (simp_all add: core_inv_def completed_task_def same_view_def)
  from same_view_settle [OF this _ f(2)] td(2) xs(1) ys(1) f(1)
  have "same_view (settle_all xs ?a) (settle_all ys ?b)" by simp
  then show ?thesis using view by (simp add: xs(2) ys(2) same_view_def)
qed

lemma same_view_loop:
  assumes "run_inv env m c N E st" "run_inv env' m c N E st'" "same_view st st'"
    and "v_dispatch env' = v_dispatch env" "v_wait env' = v_wait env" "v_ctx env' = v_ctx env"
  shows "same_view (sched_loop env m c st) (sched_loop env' m c st')"
  using assms
proof (induction env m c st arbitrary: st' rule: sched_loop.induct)
  case (1 env m c st st')
  note inv = 1(3,4) and view = 1(5) and env = 1(6,7,8)
  note skip = after_skip_facts [OF inv(1)] and skip' = after_skip_facts [OF inv(2)]
  note core = run_core [OF inv(1)] run_core [OF inv(2)]
  note loop = sched_loop_wave [OF inv(1)] sched_loop_wave [OF inv(2)]
  note eq = same_view_ready(1) [OF core view] and part = ready_facts(3) [OF core(1), symmetric]
  have "done_set (sc_dag st') = done_set (sc_dag st)" "sc_batch st' = sc_batch st" using view by (simp_all add: same_view_def)
  note eqs = this eq [symmetric] env
  note sv = same_view_after_skip [OF inv view]
  consider (finish) "done_set (sc_dag st) = N"
    | (skips) "done_set (sc_dag st) \<noteq> N" "to_run st = []"
    | (cancel) "done_set (sc_dag st) \<noteq> N" "to_run st \<noteq> []" "v_ctx env (sc_batch st) \<noteq> None"
    | (batch) "done_set (sc_dag st) \<noteq> N" "to_run st \<noteq> []" "v_ctx env (sc_batch st) = None" by blast
  then show ?case
  proof cases
    case finish
    then show ?thesis using view by (simp add: loop eqs)
  next
    case skips
    with 1(1) [OF core_progress(1) [OF core(1) skips(1)] part refl skips(2) core_progress(2) [OF core(1) skips]
        skip(1) skip'(1) sv env]
    show ?thesis by (simp add: loop eqs)
  next
    case cancel
    then show ?thesis using sv by (simp add: loop eqs)
  next
    case batch
    have ctx: "v_ctx env (sc_batch (after_skip st)) = None" using batch(3) skip(2) by simp
    have ctx': "v_ctx env' (sc_batch (after_skip st')) = None" using batch(3) skip'(2) by (simp add: eqs)
    note step = run_batch_step(1) [OF skip(1) skip(4) skip(3) skip(5) skip(6) ctx]
    note step' = run_batch_step(1) [OF skip'(1) skip'(4) skip'(3) skip'(5) skip'(6) ctx', folded eq]
    note view' = same_view_batch [OF skip(1) skip'(1) sv env(1,2) skip(4) skip(3)]
    from 1(2) [OF core_progress(1) [OF core(1) batch(1)] part refl batch(2) _ step step' view' env] batch ctx
    show ?thesis by (simp add: loop eqs)
  qed
qed

section \<open>Properties\<close>

text \<open>
  C6: the scheduler accepts exactly the well-formed requests: at least one task, non-empty and
  distinct identifiers, dependencies on tasks of the request, and no dependency cycle; it always
  returns.
\<close>

theorem Schedule_accepts:
  "(\<exists>res err. Schedule env req = Inr (res, err)) \<longleftrightarrow> request_valid (sr_Tasks req)"
proof (cases "sr_Tasks req = []")
  case True
  then show ?thesis by (simp add: Schedule_def request_valid_def)
next
  case False
  from build_dag_cases [OF False] False show ?thesis by (auto simp: Schedule_def Let_def)
qed

text \<open>
  C1: dependency order. Every task is dispatched at most once, and a task of batch \<open>k\<close> only after
  all its dependencies were dispatched in earlier batches and ended with status \<open>completed\<close>; no
  batch is dispatched once the context is cancelled.
\<close>

theorem Schedule_order:
  assumes "Schedule env req = Inr (res, err)"
  shows "distinct (concat (sres_ExecutionOrder res)) \<and>
    (\<forall>k<length (sres_ExecutionOrder res). v_ctx env k = None \<and>
      (\<forall>t\<in>set (sr_Tasks req). st_ID t \<in> set (sres_ExecutionOrder res ! k) \<longrightarrow>
        (\<forall>p\<in>set (st_DependsOn t). (\<exists>j<k. p \<in> set (sres_ExecutionOrder res ! j)) \<and>
           map_option to_Status (mlookup (sres_TaskResults res) p) = Some ''completed'')))"
  using assms
proof (rule Schedule_Inr)
  fix m st
  assume inv: "run_inv env m (sr_ContextID req) (st_ID ` set (sr_Tasks req)) (dep_rel (sr_Tasks req)) st"
    and order: "sres_ExecutionOrder res = sc_order st"
    and out: "\<And>n. mlookup (sres_TaskResults res) n =
       (if mlookup (sc_outcomes st) n = None \<and> n \<in> st_ID ` set (sr_Tasks req)
        then Some \<lparr>to_TaskID = n, to_Status = ''canceled'', to_Error = None, to_Batch = -1\<rparr>
        else mlookup (sc_outcomes st) n)"
  have "(\<exists>j<k. p \<in> set (sc_order st ! j)) \<and> map_option to_Status (mlookup (sres_TaskResults res) p) = Some ''completed''"
    if k: "k < length (sc_order st)" and t: "t \<in> set (sr_Tasks req)" "st_ID t \<in> set (sc_order st ! k)"
      and p: "p \<in> set (st_DependsOn t)" for k t p
  proof -
    have E: "(p, st_ID t) \<in> dep_rel (sr_Tasks req)" using t p by (auto simp: dep_rel_def)
    have D: "st_ID t \<in> done_set (sc_dag st)" by (rule run_sub [OF inv in_concat_nth [OF k t(2)]])
    have "\<not> mget False (sc_skip st) (st_ID t)" using run_ran [OF inv D] in_concat_nth [OF k t(2)] by blast
    then have "completed_task st p"
      using E run_closed [OF inv D E] unfolding core_skip [OF run_core [OF inv]] by blast
    with run_before [OF inv k t(2) E] show ?thesis by (auto simp: out completed_task_def)
  qed
  with run_distinct [OF inv] run_ctx [OF inv] show ?thesis unfolding order by blast
qed

text \<open>
  C2: every task has an outcome, and it is one of three: it was dispatched in some batch and the
  outcome is what the dispatcher and the waiter answered in that batch; it was never dispatched
  because a dependency ended with another status than \<open>completed\<close>, and is skipped; or the context
  was cancelled first, and it is canceled with batch \<open>-1\<close>. The error is the one of the context.
\<close>

theorem Schedule_outcome:
  assumes "Schedule env req = Inr (res, err)" "t \<in> set (sr_Tasks req)"
  shows "err = v_ctx_end env \<and>
    ((\<exists>k<length (sres_ExecutionOrder res). st_ID t \<in> set (sres_ExecutionOrder res ! k) \<and>
        mlookup (sres_TaskResults res) (st_ID t) =
          Some (entry_outcome k (batch_entry env [(st_ID t, t)] (sr_ContextID req) k (st_ID t)))) \<or>
     st_ID t \<notin> set (concat (sres_ExecutionOrder res)) \<and>
       (\<exists>b. mlookup (sres_TaskResults res) (st_ID t) = Some (entry_outcome b (st_ID t, ''skipped'', None))) \<and>
       (\<exists>p\<in>set (st_DependsOn t). map_option to_Status (mlookup (sres_TaskResults res) p) \<noteq> Some ''completed'') \<or>
     st_ID t \<notin> set (concat (sres_ExecutionOrder res)) \<and>
       mlookup (sres_TaskResults res) (st_ID t) =
         Some \<lparr>to_TaskID = st_ID t, to_Status = ''canceled'', to_Error = None, to_Batch = -1\<rparr> \<and>
       v_ctx env (length (sres_ExecutionOrder res)) \<noteq> None)"
  using assms(1)
proof (rule Schedule_Inr)
  fix m st
  let ?n = "st_ID t" and ?E = "dep_rel (sr_Tasks req)"
  assume valid: "request_valid (sr_Tasks req)" and err: "err = v_ctx_end env"
    and inv: "run_inv env m (sr_ContextID req) (st_ID ` set (sr_Tasks req)) ?E st"
    and last: "done_set (sc_dag st) = st_ID ` set (sr_Tasks req) \<or> v_ctx env (length (sc_order st)) \<noteq> None"
    and order: "sres_ExecutionOrder res = sc_order st"
    and out: "\<And>n. mlookup (sres_TaskResults res) n =
       (if mlookup (sc_outcomes st) n = None \<and> n \<in> st_ID ` set (sr_Tasks req)
        then Some \<lparr>to_TaskID = n, to_Status = ''canceled'', to_Error = None, to_Batch = -1\<rparr>
        else mlookup (sc_outcomes st) n)"
    and index: "\<And>t. t \<in> set (sr_Tasks req) \<Longrightarrow> mlookup m (st_ID t) = Some t"
  note core = run_core [OF inv]
  show ?thesis
  proof (cases "?n \<in> done_set (sc_dag st)")
    case False
    then have "mlookup (sc_outcomes st) ?n = None" using core_outcome [OF core, of ?n] by blast
    moreover have "?n \<notin> set (concat (sc_order st))" using run_sub [OF inv, of ?n] False by blast
    ultimately show ?thesis using last assms(2) False by (auto simp: out order err)
  next
    case fin: True
    have here: "mlookup (sres_TaskResults res) n = mlookup (sc_outcomes st) n" if "n \<in> done_set (sc_dag st)" for n
      using core_outcome [OF core, of n] that by (simp add: out)
    show ?thesis
    proof (cases "mget False (sc_skip st) ?n")
      case True
      then obtain p where p: "(p, ?n) \<in> ?E" "p \<in> done_set (sc_dag st)" "\<not> completed_task st p"
        unfolding core_skip [OF core] by blast
      from p(1) valid assms(2) have "p \<in> set (st_DependsOn t)"
        by (auto simp: dep_rel_def request_valid_def distinct_map inj_on_def)
      moreover have "?n \<notin> set (concat (sc_order st))" using run_ran [OF inv fin] True by blast
      moreover have "map_option to_Status (mlookup (sres_TaskResults res) p) \<noteq> Some ''completed''"
        using p(3) here [OF p(2)] by (simp add: completed_task_def)
      moreover have "\<exists>b. mlookup (sres_TaskResults res) ?n = Some (entry_outcome b (?n, ''skipped'', None))"
        using run_skipped [OF inv fin True] here [OF fin] by simp
      ultimately show ?thesis unfolding order err by blast
    next
      case False
      then have "?n \<in> set (concat (sc_order st))" using run_ran [OF inv fin] by blast
      then obtain k where k: "k < length (sc_order st)" "?n \<in> set (sc_order st ! k)"
        unfolding in_concat_iff by blast
      from run_outcome [OF inv k] here [OF fin] k batch_entry_index [OF index [OF assms(2)]] show ?thesis
        by (auto simp: order err)
    qed
  qed
qed

text \<open>
  C7: the order in which the answers of a batch arrive does not show in the result: with the
  same answers, two schedules have the same execution order and the same outcome for every task.
\<close>

theorem Schedule_arrival:
  assumes "Schedule env req = Inr (res, err)"
  shows "\<exists>res'. Schedule (env\<lparr>v_rank := rank\<rparr>) req = Inr (res', err) \<and>
    sres_ExecutionOrder res' = sres_ExecutionOrder res \<and>
    mlookup (sres_TaskResults res') = mlookup (sres_TaskResults res)"
proof -
  let ?env = "env\<lparr>v_rank := rank\<rparr>" and ?c = "sr_ContextID req"
  have ne: "sr_Tasks req \<noteq> []" using assms by (auto simp: Schedule_def)
  from build_dag_cases [OF ne] assms ne obtain m d where b: "build_dag (sr_Tasks req) = Inr (m, d)"
    and d: "building (st_ID ` set (sr_Tasks req)) (dep_rel (sr_Tasks req)) d"
    by (auto simp: Schedule_def)
  let ?st = "\<lparr>sc_dag = d, sc_outcomes = [], sc_order = [], sc_skip = [], sc_batch = 0\<rparr>"
  have "same_view (sched_loop env m ?c ?st) (sched_loop ?env m ?c ?st)"
    by (rule same_view_loop [OF run_inv_start [OF d] run_inv_start [OF d]]) (simp_all add: same_view_def)
  then show ?thesis
    using assms ne b by (auto simp: Schedule_def Let_def same_view_def fun_eq_iff mark_canceled_lookup)
qed

text \<open>A request of three tasks: the first fails, the second depends on it, the third is independent.\<close>

definition example_scheduled :: "string \<Rightarrow> string list \<Rightarrow> ScheduledTask" where
  "example_scheduled n deps = \<lparr>st_Spec = example_spec\<lparr>s_ID := n\<rparr>, st_DependsOn = deps\<rparr>"

definition example_schedule :: ScheduleRequest where
  "example_schedule = \<lparr>sr_Tasks = [example_scheduled ''a'' [], example_scheduled ''b'' [''a''],
     example_scheduled ''c'' [], example_scheduled ''d'' [''c'']],
     sr_ContextID = ''ctx'', sr_Metadata = []\<rparr>"

definition example_env :: sched_env where
  "example_env = \<lparr>v_dispatch = (\<lambda>b s c. Inr (s_ID s, ''q'')),
     v_wait = (\<lambda>b n. if n = ''a'' then Inl (OtherError ''boom'')
       else Inr (zero_TaskResult\<lparr>tr_TaskID := n, tr_Status := ''completed''\<rparr>)),
     v_rank = (\<lambda>b n. if n = ''a'' then 1 else 0), v_ctx = (\<lambda>b. None), v_ctx_end = None\<rparr>"

definition example_outcomes :: "(string, TaskOutcome) gomap" where
  "example_outcomes = [(''c'', entry_outcome 0 (''c'', ''completed'', None)),
     (''a'', entry_outcome 0 (''a'', ''failed'', Some (OtherError ''boom''))),
     (''b'', entry_outcome 1 (''b'', ''skipped'', None)), (''d'', entry_outcome 1 (''d'', ''completed'', None))]"

lemma example_schedule_run:
  "Schedule example_env example_schedule =
    Inr (\<lparr>sres_ContextID = ''ctx'', sres_TaskResults = example_outcomes,
          sres_ExecutionOrder = [[''a'', ''c''], [''d'']]\<rparr>, None)"
  by code_simp

theorem Schedule_order_witness:
  "\<exists>res. Schedule example_env example_schedule = Inr (res, None) \<and> distinct (concat (sres_ExecutionOrder res)) \<and>
    sres_ExecutionOrder res = [[''a'', ''c''], [''d'']]"
  using Schedule_order [OF example_schedule_run] example_schedule_run by (intro exI conjI) auto

theorem Schedule_outcome_witness:
  "example_scheduled ''b'' [''a''] \<in> set (sr_Tasks example_schedule) \<and>
   (\<exists>b res. Schedule example_env example_schedule = Inr (res, None) \<and>
      mlookup (sres_TaskResults res) ''b'' = Some (entry_outcome b (''b'', ''skipped'', None)))"
proof -
  have t: "example_scheduled ''b'' [''a''] \<in> set (sr_Tasks example_schedule)" by (simp add: example_schedule_def)
  have i: "st_ID (example_scheduled ''b'' [''a'']) = ''b''" by (simp add: example_scheduled_def)
  have none: "''b'' \<notin> set ([[''a'', ''c''], [''d'']] ! k)" if "k < Suc (Suc 0)" for k
    using that by (cases k) auto
  then show ?thesis
    using Schedule_outcome [OF example_schedule_run t] example_schedule_run t
    unfolding i by (auto simp: example_env_def numeral_2_eq_2)
qed

theorem Schedule_arrival_witness:
  "\<exists>res. Schedule (example_env\<lparr>v_rank := \<lambda>b n. 0\<rparr>) example_schedule = Inr (res, None) \<and>
    sres_ExecutionOrder res = [[''a'', ''c''], [''d'']] \<and>
    mlookup (sres_TaskResults res) = mlookup example_outcomes"
  using Schedule_arrival [OF example_schedule_run, of "\<lambda>b n. 0"] by simp

end
