(* ===== verification/Utf8.thy ===== *)
theory Utf8
  imports Prelude
begin

text \<open>
  The parts of Go's string handling that the source relies on: ranging over a string by runes (UTF-8
  decoding, with the replacement rune for invalid bytes), writing runes back, and the prefix
  functions of package \<open>strings\<close>. Strings are byte strings; a rune is a natural number.
\<close>

section \<open>Runes\<close>

abbreviation byte :: "char \<Rightarrow> nat" where
  "byte c \<equiv> of_char c"

definition RuneError :: nat where "RuneError = 0xFFFD"

definition within :: "nat \<Rightarrow> nat \<Rightarrow> nat \<Rightarrow> bool" where
  "within lo hi n \<longleftrightarrow> lo \<le> n \<and> n \<le> hi"

text \<open>\<open>utf8.DecodeRuneInString\<close>: the first rune and the number of bytes it takes.\<close>

definition decode2 :: "nat \<Rightarrow> string \<Rightarrow> nat \<times> nat" where
  "decode2 b0 cs = (case cs of
     c1 # _ \<Rightarrow> if within 0x80 0xBF (byte c1) then ((b0 - 0xC0) * 64 + (byte c1 - 0x80), 2) else (RuneError, 1)
   | _ \<Rightarrow> (RuneError, 1))"

definition decode3 :: "nat \<Rightarrow> string \<Rightarrow> nat \<times> nat" where
  "decode3 b0 cs = (case cs of
     c1 # c2 # _ \<Rightarrow>
       if within (if b0 = 0xE0 then 0xA0 else 0x80) (if b0 = 0xED then 0x9F else 0xBF) (byte c1) \<and> within 0x80 0xBF (byte c2)
       then ((b0 - 0xE0) * 4096 + (byte c1 - 0x80) * 64 + (byte c2 - 0x80), 3) else (RuneError, 1)
   | _ \<Rightarrow> (RuneError, 1))"

definition decode4 :: "nat \<Rightarrow> string \<Rightarrow> nat \<times> nat" where
  "decode4 b0 cs = (case cs of
     c1 # c2 # c3 # _ \<Rightarrow>
       if within (if b0 = 0xF0 then 0x90 else 0x80) (if b0 = 0xF4 then 0x8F else 0xBF) (byte c1) \<and>
          within 0x80 0xBF (byte c2) \<and> within 0x80 0xBF (byte c3)
       then ((b0 - 0xF0) * 262144 + (byte c1 - 0x80) * 4096 + (byte c2 - 0x80) * 64 + (byte c3 - 0x80), 4)
       else (RuneError, 1)
   | _ \<Rightarrow> (RuneError, 1))"

fun DecodeRune :: "string \<Rightarrow> nat \<times> nat" where
  "DecodeRune [] = (RuneError, 0)"
| "DecodeRune (c # cs) =
     (if byte c < 0x80 then (byte c, 1)
      else if within 0xC2 0xDF (byte c) then decode2 (byte c) cs
      else if within 0xE0 0xEF (byte c) then decode3 (byte c) cs
      else if within 0xF0 0xF4 (byte c) then decode4 (byte c) cs
      else (RuneError, 1))"

text \<open>The runes a \<open>range\<close> loop over the string visits.\<close>

lemma decode_width:
  "0 < snd (DecodeRune (c # cs)) \<and> snd (DecodeRune (c # cs)) \<le> length (c # cs)"
  by (auto simp: decode2_def decode3_def decode4_def split: list.splits)

function runes :: "string \<Rightarrow> nat list" where
  "runes [] = []"
| "runes (c # cs) = fst (DecodeRune (c # cs)) # runes (drop (snd (DecodeRune (c # cs))) (c # cs))"
  by pat_completeness auto
termination
  by (relation "measure length") (use decode_width in \<open>auto simp del: DecodeRune.simps\<close>)

declare runes.simps(2) [simp del]

definition scalar :: "nat \<Rightarrow> bool" where
  "scalar r \<longleftrightarrow> r < 0xD800 \<or> within 0xE000 0x10FFFF r"

text \<open>\<open>Builder.WriteRune\<close>: the encoding of a rune, the replacement rune for what is none.\<close>

definition EncodeRune :: "nat \<Rightarrow> string" where
  "EncodeRune r =
     (let r = (if scalar r then r else RuneError) in
      if r < 0x80 then [char_of r]
      else if r < 0x800 then [char_of (0xC0 + r div 64), char_of (0x80 + r mod 64)]
      else if r < 0x10000 then
        [char_of (0xE0 + r div 4096), char_of (0x80 + r div 64 mod 64), char_of (0x80 + r mod 64)]
      else [char_of (0xF0 + r div 262144), char_of (0x80 + r div 4096 mod 64),
            char_of (0x80 + r div 64 mod 64), char_of (0x80 + r mod 64)])"

section \<open>Decoding and encoding\<close>

lemma within_iff: "within lo hi n \<longleftrightarrow> lo \<le> n \<and> n \<le> hi"
  by (simp add: within_def)

lemma of_char_of: "n < 256 \<Longrightarrow> byte (char_of n) = n"
  by simp

lemma byte_less: "byte c < 256"
  by simp

lemma mod64: "(n::nat) mod 64 < 64" "(n::nat) mod 64 \<le> 63"
  by (simp_all add: mod_less_divisor less_Suc_eq_le [symmetric] del: mod_less_divisor)

lemma split64: "(n::nat) = n div 64 * 64 + n mod 64"
  by simp

lemma div4096: "(n::nat) div 4096 = n div 64 div 64"
  by (simp add: div_mult2_eq [symmetric])

lemma div262144: "(n::nat) div 262144 = n div 64 div 64 div 64"
  by (simp add: div_mult2_eq [symmetric])

lemma decode_encode2:
  assumes "0x80 \<le> r" "r < 0x800"
  shows "DecodeRune ([char_of (0xC0 + r div 64), char_of (0x80 + r mod 64)] @ rest) = (r, 2)"
proof -
  have d: "2 \<le> r div 64" "r div 64 < 32" "r mod 64 < 64" using assms by (simp_all add: div_le_mono [of 128 r 64, simplified] less_mult_imp_div_less)
  then have "byte (char_of (0xC0 + r div 64)) = 0xC0 + r div 64" "byte (char_of (0x80 + r mod 64)) = 0x80 + r mod 64"
    by (simp_all add: of_char_of)
  then show ?thesis using d by (simp add: within_iff decode2_def)
qed

lemma decode_encode3:
  assumes "0x800 \<le> r" "r < 0x10000" "scalar r"
  shows "DecodeRune ([char_of (0xE0 + r div 4096), char_of (0x80 + r div 64 mod 64), char_of (0x80 + r mod 64)] @ rest) = (r, 3)"
proof -
  define a b c where abc: "a = r div 4096" "b = r div 64 mod 64" "c = r mod 64"
  have r: "r = a * 4096 + b * 64 + c"
    using split64 [of r] split64 [of "r div 64"] unfolding abc div4096 by linarith
  have bd: "a < 16" "b < 64" "c < 64" using assms(2) by (simp_all add: abc less_mult_imp_div_less)
  have lo: "a = 0 \<Longrightarrow> 32 \<le> b" using assms(1) r bd by simp
  have hi: "a = 13 \<Longrightarrow> b < 32" using assms(3) r bd by (simp add: scalar_def within_iff)
  have "byte (char_of (0xE0 + a)) = 0xE0 + a" "byte (char_of (0x80 + b)) = 0x80 + b" "byte (char_of (0x80 + c)) = 0x80 + c"
    using bd by (simp_all add: of_char_of)
  then have "DecodeRune ([char_of (0xE0 + a), char_of (0x80 + b), char_of (0x80 + c)] @ rest) = (a * 4096 + b * 64 + c, 3)"
    using bd lo hi by (auto simp: within_iff decode3_def)
  then show ?thesis unfolding r [symmetric] by (simp only: abc)
qed

lemma decode_encode4:
  assumes "0x10000 \<le> r" "r \<le> 0x10FFFF"
  shows "DecodeRune ([char_of (0xF0 + r div 262144), char_of (0x80 + r div 4096 mod 64),
    char_of (0x80 + r div 64 mod 64), char_of (0x80 + r mod 64)] @ rest) = (r, 4)"
proof -
  define a b c d where abcd: "a = r div 262144" "b = r div 4096 mod 64" "c = r div 64 mod 64" "d = r mod 64"
  have r: "r = a * 262144 + b * 4096 + c * 64 + d"
    using split64 [of r] split64 [of "r div 64"] split64 [of "r div 64 div 64"] unfolding abcd div4096 div262144 by linarith
  have bd: "b < 64" "c < 64" "d < 64" by (simp_all add: abcd)
  have a: "a \<le> 4" using assms(2) r by simp
  have lo: "a = 0 \<Longrightarrow> 16 \<le> b" using assms(1) r bd by simp
  have hi: "a = 4 \<Longrightarrow> b < 16" using assms(2) r bd by simp
  have "byte (char_of (0xF0 + a)) = 0xF0 + a" "byte (char_of (0x80 + b)) = 0x80 + b"
    "byte (char_of (0x80 + c)) = 0x80 + c" "byte (char_of (0x80 + d)) = 0x80 + d"
    using bd a by (simp_all add: of_char_of)
  then have "DecodeRune ([char_of (0xF0 + a), char_of (0x80 + b), char_of (0x80 + c), char_of (0x80 + d)] @ rest) =
      (a * 262144 + b * 4096 + c * 64 + d, 4)"
    using bd a lo hi by (auto simp: within_iff decode4_def)
  then show ?thesis unfolding r [symmetric] by (simp only: abcd)
qed

lemma decode_encode:
  assumes "scalar r"
  shows "DecodeRune (EncodeRune r @ rest) = (r, length (EncodeRune r))"
proof -
  consider "r < 0x80" | "0x80 \<le> r" "r < 0x800" | "0x800 \<le> r" "r < 0x10000" | "0x10000 \<le> r" "r \<le> 0x10FFFF"
  proof -
    have "r < 0x80 \<or> 0x80 \<le> r \<and> r < 0x800 \<or> 0x800 \<le> r \<and> r < 0x10000 \<or> 0x10000 \<le> r \<and> r \<le> 0x10FFFF"
      using assms unfolding scalar_def within_iff by linarith
    with that show thesis by blast
  qed
  then show ?thesis
  proof cases
    case 1
    then show ?thesis using assms by (simp add: EncodeRune_def)
  next
    case 2
    then show ?thesis using assms decode_encode2 [OF 2, of rest] by (simp add: EncodeRune_def del: DecodeRune.simps)
  next
    case 3
    then show ?thesis using assms decode_encode3 [OF 3 assms, of rest] by (simp add: EncodeRune_def del: DecodeRune.simps)
  next
    case 4
    then show ?thesis using assms decode_encode4 [OF 4, of rest] by (simp add: EncodeRune_def del: DecodeRune.simps)
  qed
qed

lemma scalar_RuneError [simp]: "scalar RuneError"
  by (simp add: scalar_def RuneError_def within_iff)

lemma scalar_decode: "scalar (fst (DecodeRune s))"
proof (cases s)
  case Nil
  then show ?thesis by simp
next
  case (Cons c cs)
  have two: "scalar (fst (decode2 b0 cs))" if "within 0xC2 0xDF b0" for b0
    using that by (auto simp: decode2_def scalar_def within_iff RuneError_def split: list.splits)
  have three: "scalar (fst (decode3 b0 cs))" if "within 0xE0 0xEF b0" for b0
    using that by (auto simp: decode3_def scalar_def within_iff RuneError_def split: list.splits if_splits)
  have four: "scalar (fst (decode4 b0 cs))" if "within 0xF0 0xF4 b0" for b0
    using that by (auto simp: decode4_def scalar_def within_iff RuneError_def split: list.splits if_splits)
  show ?thesis using two three four by (auto simp: Cons) (simp add: scalar_def)
qed

lemma scalar_runes: "r \<in> set (runes s) \<Longrightarrow> scalar r"
  by (induction s rule: runes.induct) (auto simp: runes.simps scalar_decode simp del: DecodeRune.simps)

lemma EncodeRune_nonempty [simp]: "EncodeRune r \<noteq> []"
  by (simp add: EncodeRune_def Let_def)

lemma runes_EncodeRune:
  assumes "scalar r"
  shows "runes (EncodeRune r @ rest) = r # runes rest"
proof -
  obtain c cs where e: "EncodeRune r @ rest = c # cs" by (cases "EncodeRune r @ rest") auto
  have "runes (c # cs) = r # runes (drop (length (EncodeRune r)) (c # cs))"
    using decode_encode [OF assms, of rest] unfolding e by (simp add: runes.simps del: DecodeRune.simps)
  then show ?thesis unfolding e [symmetric] by simp
qed

abbreviation encode_runes :: "nat list \<Rightarrow> string" where
  "encode_runes rs \<equiv> concat (map EncodeRune rs)"

text \<open>Ranging over an encoded sequence of runes gives the sequence back.\<close>

lemma runes_encode: "\<forall>r\<in>set rs. scalar r \<Longrightarrow> runes (encode_runes rs) = rs"
  by (induction rs) (simp_all add: runes_EncodeRune)

lemma EncodeRune_ascii: "r < 0x80 \<Longrightarrow> EncodeRune r = [char_of r]"
  by (simp add: EncodeRune_def scalar_def)

lemma EncodeRune_high:
  assumes "0x80 \<le> r" "c \<in> set (EncodeRune r)"
  shows "0x80 \<le> byte c"
proof -
  have m: "x mod 64 \<le> 63" for x :: nat using mod_less_divisor [of 64 x] by linarith
  show ?thesis
  proof (cases "scalar r")
    case False
    with assms(2) show ?thesis by (auto simp: EncodeRune_def RuneError_def Let_def)
  next
    case True
    have "r \<le> 0x10FFFF" using True by (auto simp: scalar_def within_iff)
    then have "r div 262144 \<le> 4" by (simp add: div_le_mono [of r "0x10FFFF" 262144, simplified])
    moreover have "r < 0x10000 \<Longrightarrow> r div 4096 < 16" "r < 0x800 \<Longrightarrow> r div 64 < 32"
      by (simp_all add: less_mult_imp_div_less)
    ultimately show ?thesis
      using True assms m [of r] m [of "r div 64"] m [of "r div 4096"]
      by (auto simp: EncodeRune_def Let_def split: if_splits)
  qed
qed

section \<open>Package strings\<close>

definition HasPrefix :: "string \<Rightarrow> string \<Rightarrow> bool" where
  "HasPrefix s pre \<longleftrightarrow> take (length pre) s = pre"

definition TrimPrefix :: "string \<Rightarrow> string \<Rightarrow> string" where
  "TrimPrefix s pre = (if HasPrefix s pre then drop (length pre) s else s)"

lemma HasPrefix_iff: "HasPrefix s pre \<longleftrightarrow> (\<exists>t. s = pre @ t)"
  unfolding HasPrefix_def by (metis append_eq_conv_conj append_take_drop_id)

lemma HasPrefix_append [simp]: "HasPrefix (pre @ s) pre"
  by (simp add: HasPrefix_def)

lemma TrimPrefix_append [simp]: "TrimPrefix (pre @ s) pre = s"
  by (simp add: TrimPrefix_def)

lemma TrimPrefix_cases: "s = pre @ TrimPrefix s pre \<or> \<not> HasPrefix s pre \<and> TrimPrefix s pre = s"
  by (auto simp: TrimPrefix_def HasPrefix_iff)

text \<open>\<open>strings.Split(s, sep)\<close> for a one-byte separator.\<close>

fun Split :: "char \<Rightarrow> string \<Rightarrow> string list" where
  "Split sep [] = [[]]"
| "Split sep (c # cs) = (if c = sep then [] # Split sep cs
     else case Split sep cs of [] \<Rightarrow> [[c]] | p # ps \<Rightarrow> (c # p) # ps)"

lemma Split_piece: "sep \<notin> set p \<Longrightarrow> Split sep (p @ sep # s) = p # Split sep s"
  by (induction p) auto

lemma Split_lines:
  "\<forall>p\<in>set ps. sep \<notin> set p \<Longrightarrow> Split sep (concat (map (\<lambda>p. p @ [sep]) ps)) = ps @ [[]]"
  by (induction ps) (simp_all add: Split_piece)

text \<open>\<open>strings.TrimSpace\<close>: Unicode white space is dropped at both ends, decoding runes from the
  front and, with \<open>utf8.DecodeLastRuneInString\<close>, from the back.\<close>

definition IsSpace :: "nat \<Rightarrow> bool" where
  "IsSpace r \<longleftrightarrow> within 9 13 r \<or> within 0x2000 0x200a r \<or>
     r \<in> {0x20, 0x85, 0xA0, 0x1680, 0x2028, 0x2029, 0x202f, 0x205f, 0x3000}"

definition RuneStart :: "char \<Rightarrow> bool" where
  "RuneStart c \<longleftrightarrow> \<not> within 0x80 0xBF (byte c)"

definition DecodeLastRune :: "string \<Rightarrow> nat \<times> nat" where
  "DecodeLastRune s =
     (if s = [] then (RuneError, 0)
      else if byte (last s) < 0x80 then (byte (last s), 1)
      else
        (let k = (case find (\<lambda>k. k \<le> length s \<and> RuneStart (s ! (length s - k))) [2, 3, 4] of
                    Some k \<Rightarrow> k | None \<Rightarrow> min 5 (length s));
             (r, size) = DecodeRune (drop (length s - k) s)
         in if size = k then (r, size) else (RuneError, 1)))"

lemma last_width: "s \<noteq> [] \<Longrightarrow> 0 < snd (DecodeLastRune s)"
proof -
  assume s: "s \<noteq> []"
  have pos: "0 < snd (DecodeRune t)" if "t \<noteq> []" for t
    using that decode_width by (cases t) (auto simp del: DecodeRune.simps)
  have "0 < snd (DecodeRune (drop (length s - k) s))" if "0 < k" for k
  proof (rule pos)
    show "drop (length s - k) s \<noteq> []" using s that by (cases s) auto
  qed
  moreover have "0 < (case find P [2, 3, 4] of Some k \<Rightarrow> k | None \<Rightarrow> min 5 (length s))" for P
    using s by simp
  ultimately show ?thesis using s by (auto simp: DecodeLastRune_def Let_def simp del: DecodeRune.simps split: prod.splits)
qed

function TrimLeftSpace :: "string \<Rightarrow> string" where
  "TrimLeftSpace [] = []"
| "TrimLeftSpace (c # cs) =
     (if IsSpace (fst (DecodeRune (c # cs))) then TrimLeftSpace (drop (snd (DecodeRune (c # cs))) (c # cs)) else c # cs)"
  by pat_completeness auto
termination
  by (relation "measure length") (use decode_width in \<open>auto simp del: DecodeRune.simps\<close>)

function TrimRightSpace :: "string \<Rightarrow> string" where
  "TrimRightSpace s =
     (if s \<noteq> [] \<and> IsSpace (fst (DecodeLastRune s)) then TrimRightSpace (take (length s - snd (DecodeLastRune s)) s) else s)"
  by pat_completeness auto
termination
  by (relation "measure length") (use last_width in auto)

declare TrimLeftSpace.simps(2) [simp del] TrimRightSpace.simps [simp del]

definition TrimSpace :: "string \<Rightarrow> string" where
  "TrimSpace s = TrimRightSpace (TrimLeftSpace s)"

lemma TrimSpace_indented:
  assumes "s \<noteq> []" "\<forall>c\<in>{hd s, last s}. byte c < 0x80 \<and> \<not> IsSpace (byte c)"
  shows "TrimSpace (''  '' @ s) = s"
proof -
  obtain c cs where s: "s = c # cs" using assms(1) by (cases s) auto
  have "TrimLeftSpace (''  '' @ s) = s"
    using assms(2) by (simp add: s TrimLeftSpace.simps(2) IsSpace_def)
  moreover have "TrimRightSpace s = s"
    using assms by (subst TrimRightSpace.simps) (simp add: DecodeLastRune_def)
  ultimately show ?thesis by (simp add: TrimSpace_def)
qed

end
