(* ===== verification/Branch.thy ===== *)
theory Branch
  imports Utf8 Dispatch
begin

text \<open>
  Worker branches (\<open>src/internal/branch\<close>): names and their sanitisation (\<open>naming.go\<close>), the search
  for earlier sessions (\<open>retry.go\<close>) and the branch life cycle of a worker (\<open>worker.go\<close>). Git is a
  parameter: operations return the commands they run, and the answers come from the caller.
\<close>

section \<open>Names\<close>

definition Prefix :: string where "Prefix = ''agent/''"

record BranchName =
  b_Feature :: string
  b_AgentName :: string
  b_SessionID :: string

datatype branch_error =
    EmptyComponent string
  | WrongPrefix string
  | WrongSegments string nat
  | EmptySegment nat string
  | SessionIDFailed string
  | ListFailed string
  | GitFailed string string
  | NotStarted

definition isValidBranchChar :: "nat \<Rightarrow> bool" where
  "isValidBranchChar r \<longleftrightarrow>
     \<not> (r \<le> 0x1f \<or> r = 0x7f) \<and> r \<notin> {0x20, 0x7e, 0x5e, 0x3a, 0x3f, 0x2a, 0x5b, 0x5c, 0x2e, 0x40, 0x2f}"

definition sanitize_rune :: "nat \<Rightarrow> string" where
  "sanitize_rune r = (if isValidBranchChar r then EncodeRune r else ''-'')"

fun contains_dd :: "string \<Rightarrow> bool" where
  "contains_dd (x # y # s) = (x = CHR ''-'' \<and> y = CHR ''-'' \<or> contains_dd (y # s))"
| "contains_dd _ = False"

text \<open>\<open>strings.ReplaceAll(s, "--", "-")\<close>: occurrences are found from the left and do not overlap.\<close>

fun replace_dd :: "string \<Rightarrow> string" where
  "replace_dd (x # y # s) =
     (if x = CHR ''-'' \<and> y = CHR ''-'' then CHR ''-'' # replace_dd s else x # replace_dd (y # s))"
| "replace_dd s = s"

lemma replace_dd_length: "length (replace_dd s) \<le> length s"
  by (induction s rule: replace_dd.induct) auto

lemma replace_dd_shrinks: "contains_dd s \<Longrightarrow> length (replace_dd s) < length s"
proof (induction s rule: replace_dd.induct)
  case (1 x y s)
  then show ?case using replace_dd_length [of s] by auto
qed auto

function collapse_loop :: "string \<Rightarrow> string" where
  "collapse_loop s = (if contains_dd s then collapse_loop (replace_dd s) else s)"
  by pat_completeness auto
termination
  by (relation "measure length") (auto simp: replace_dd_shrinks)

declare collapse_loop.simps [simp del]

definition trim_hyphens :: "string \<Rightarrow> string" where
  "trim_hyphens s = rev (dropWhile ((=) (CHR ''-'')) (rev (dropWhile ((=) (CHR ''-'')) s)))"

definition Sanitize :: "string \<Rightarrow> string" where
  "Sanitize s = trim_hyphens (collapse_loop (concat (map sanitize_rune (runes s))))"

definition New :: "string \<Rightarrow> string \<Rightarrow> string \<Rightarrow> branch_error + BranchName" where
  "New feature agentName sessionID =
     (let b = \<lparr>b_Feature = Sanitize feature, b_AgentName = Sanitize agentName,
               b_SessionID = Sanitize sessionID\<rparr>
      in if b_Feature b = [] then Inl (EmptyComponent ''feature'')
         else if b_AgentName b = [] then Inl (EmptyComponent ''agentName'')
         else if b_SessionID b = [] then Inl (EmptyComponent ''sessionID'')
         else Inr b)"

definition branch_String :: "BranchName \<Rightarrow> string" where
  "branch_String b = Prefix @ b_Feature b @ ''/'' @ b_AgentName b @ ''/'' @ b_SessionID b"

text \<open>\<open>strings.SplitN(s, "/", n)\<close> for \<open>n > 0\<close>: at most \<open>n\<close> parts, the last one unsplit.\<close>

fun SplitN :: "string \<Rightarrow> nat \<Rightarrow> string list" where
  "SplitN s 0 = []"
| "SplitN s (Suc 0) = [s]"
| "SplitN s (Suc (Suc n)) =
     (case dropWhile (\<lambda>c. c \<noteq> CHR ''/'') s of
        [] \<Rightarrow> [s]
      | _ # rest \<Rightarrow> takeWhile (\<lambda>c. c \<noteq> CHR ''/'') s # SplitN rest (Suc n))"

fun empty_segment :: "nat \<Rightarrow> string list \<Rightarrow> nat option" where
  "empty_segment i [] = None"
| "empty_segment i (p # ps) = (if p = [] then Some i else empty_segment (Suc i) ps)"

definition Parse :: "string \<Rightarrow> branch_error + BranchName" where
  "Parse ref0 =
     (let ref = TrimPrefix ref0 ''origin/'' in
      if \<not> HasPrefix ref Prefix then Inl (WrongPrefix ref)
      else
        (let parts = SplitN (TrimPrefix ref Prefix) 3 in
         if length parts \<noteq> 3 then Inl (WrongSegments ref (length parts))
         else case empty_segment 0 parts of
                Some i \<Rightarrow> Inl (EmptySegment i ref)
              | None \<Rightarrow> Inr \<lparr>b_Feature = parts ! 0, b_AgentName = parts ! 1, b_SessionID = parts ! 2\<rparr>))"

section \<open>Earlier sessions\<close>

text \<open>\<open>git branch -r\<close> answers with its output or an error.\<close>

fun list_lines :: "string list \<Rightarrow> string list" where
  "list_lines [] = []"
| "list_lines (l # ls) =
     (let line = TrimSpace l in
      if line = [] then list_lines ls else TrimPrefix line ''origin/'' # list_lines ls)"

definition GitBranchLister :: "string + string \<Rightarrow> string + string list" where
  "GitBranchLister git =
     (case git of
        Inl err \<Rightarrow> Inl err
      | Inr out \<Rightarrow> Inr (list_lines (Split (CHR 0x0A) out)))"

fun find_matches :: "string \<Rightarrow> string list \<Rightarrow> BranchName list" where
  "find_matches pre [] = []"
| "find_matches pre (ref # refs) =
     (if \<not> HasPrefix ref pre then find_matches pre refs
      else case Parse ref of
             Inl _ \<Rightarrow> find_matches pre refs
           | Inr b \<Rightarrow> b # find_matches pre refs)"

definition FindRetries :: "string + string list \<Rightarrow> string \<Rightarrow> string \<Rightarrow> branch_error + BranchName list" where
  "FindRetries lister feature agentName =
     (case lister of
        Inl err \<Rightarrow> Inl (ListFailed err)
      | Inr refs \<Rightarrow>
          Inr (find_matches (Prefix @ Sanitize feature @ ''/'' @ Sanitize agentName @ ''/'') refs))"

definition IsRetry :: "string + string list \<Rightarrow> string \<Rightarrow> string \<Rightarrow> branch_error + bool \<times> nat" where
  "IsRetry lister feature agentName =
     (case FindRetries lister feature agentName of
        Inl err \<Rightarrow> Inl err
      | Inr matches \<Rightarrow> (let count = length matches in Inr (0 < count, count)))"

definition LatestSession :: "string + string list \<Rightarrow> string \<Rightarrow> string \<Rightarrow> branch_error + BranchName option" where
  "LatestSession lister feature agentName =
     (case FindRetries lister feature agentName of
        Inl err \<Rightarrow> Inl err
      | Inr matches \<Rightarrow> if matches = [] then Inr None else Inr (Some (matches ! (length matches - 1))))"

section \<open>The worker session\<close>

type_synonym Detector = "string + string list"

record WorkerSession =
  w_Feature :: string
  w_AgentName :: string
  w_RepoDir :: string
  w_RemoteURL :: string
  w_branch :: "BranchName option"
  w_detector :: "Detector option"

text \<open>What a session does to the outside: git commands run in the work tree, and log records.\<close>

datatype worker_event =
    Git string "string list"
  | RetryDetectionFailed branch_error
  | RetryDetected nat nat
  | SessionStarted BranchName
  | SessionComplete string string
  | SessionAborted string string
  | AbortBeforeStart string

type_synonym git_env = "string \<Rightarrow> string list \<Rightarrow> string option"

definition newSessionID :: "string + 8 word list \<Rightarrow> string + string" where
  "newSessionID rand = (case rand of Inl err \<Rightarrow> Inl err | Inr b \<Rightarrow> Inr (EncodeToString b))"

definition remote :: "WorkerSession \<Rightarrow> string" where
  "remote w = (if w_RemoteURL w \<noteq> [] then w_RemoteURL w else ''origin'')"

definition SetDetector :: "Detector option \<Rightarrow> WorkerSession \<Rightarrow> WorkerSession" where
  "SetDetector d w = w\<lparr>w_detector := d\<rparr>"

definition gitCheckoutBranch :: "git_env \<Rightarrow> WorkerSession \<Rightarrow> string \<Rightarrow> worker_event list \<times> string option" where
  "gitCheckoutBranch git w branchName =
     (let args = [''checkout'', ''-b'', branchName] in ([Git (w_RepoDir w) args], git (w_RepoDir w) args))"

definition retry_log :: "WorkerSession \<Rightarrow> worker_event list" where
  "retry_log w =
     (case w_detector w of
        None \<Rightarrow> []
      | Some d \<Rightarrow>
          (case IsRetry d (w_Feature w) (w_AgentName w) of
             Inl detErr \<Rightarrow> [RetryDetectionFailed detErr]
           | Inr (isRetry, n) \<Rightarrow> if isRetry then [RetryDetected (n + 1) n] else []))"

definition Worker_Start ::
  "string + 8 word list \<Rightarrow> git_env \<Rightarrow> WorkerSession \<Rightarrow>
   worker_event list \<times> WorkerSession \<times> (branch_error + BranchName)" where
  "Worker_Start rand git w =
     (case newSessionID rand of
        Inl err \<Rightarrow> ([], w, Inl (SessionIDFailed err))
      | Inr sessionID \<Rightarrow>
          (case New (w_Feature w) (w_AgentName w) sessionID of
             Inl err \<Rightarrow> ([], w, Inl err)
           | Inr b \<Rightarrow>
               (case gitCheckoutBranch git w (branch_String b) of
                  (evs, Some err) \<Rightarrow> (retry_log w @ evs, w, Inl (GitFailed (branch_String b) err))
                | (evs, None) \<Rightarrow>
                    (retry_log w @ evs @ [SessionStarted b], w\<lparr>w_branch := Some b\<rparr>, Inr b))))"

definition Worker_Complete ::
  "git_env \<Rightarrow> WorkerSession \<Rightarrow> worker_event list \<times> branch_error option" where
  "Worker_Complete git w =
     (case w_branch w of
        None \<Rightarrow> ([], Some NotStarted)
      | Some b \<Rightarrow>
          (let rem = remote w; args = [''push'', rem, branch_String b] in
           case git (w_RepoDir w) args of
             Some err \<Rightarrow> ([Git (w_RepoDir w) args], Some (GitFailed (branch_String b) err))
           | None \<Rightarrow> ([Git (w_RepoDir w) args, SessionComplete (branch_String b) rem], None)))"

definition Worker_Abort ::
  "git_env \<Rightarrow> string \<Rightarrow> WorkerSession \<Rightarrow> worker_event list \<times> branch_error option" where
  "Worker_Abort git reason w =
     (case w_branch w of
        None \<Rightarrow> ([AbortBeforeStart reason], None)
      | Some b \<Rightarrow>
          (let del = [''branch'', ''-D'', branch_String b] in
           ([SessionAborted (branch_String b) reason, Git (w_RepoDir w) [''checkout'', ''-''], Git (w_RepoDir w) del],
            case git (w_RepoDir w) del of Some err \<Rightarrow> Some (GitFailed (branch_String b) err) | None \<Rightarrow> None)))"

fun commands :: "worker_event list \<Rightarrow> (string \<times> string list) list" where
  "commands [] = []"
| "commands (Git dir args # evs) = (dir, args) # commands evs"
| "commands (_ # evs) = commands evs"

section \<open>What sanitisation gives\<close>

definition hyphens :: "nat list \<Rightarrow> nat list" where
  "hyphens = map (\<lambda>r. if isValidBranchChar r then r else 0x2d)"

definition clean_runes :: "nat list \<Rightarrow> bool" where
  "clean_runes rs \<longleftrightarrow> (\<forall>r\<in>set rs. scalar r \<and> isValidBranchChar r)"

definition valid_component :: "string \<Rightarrow> bool" where
  "valid_component t \<longleftrightarrow>
     encode_runes (runes t) = t \<and> (\<forall>r\<in>set (runes t). isValidBranchChar r) \<and> \<not> contains_dd t \<and>
     (t \<noteq> [] \<longrightarrow> hd t \<noteq> CHR ''-'' \<and> last t \<noteq> CHR ''-'')"

lemma hyphen_valid [simp]: "isValidBranchChar 0x2d"
  by (simp add: isValidBranchChar_def)

lemma encode_hyphen [simp]: "EncodeRune 0x2d = ''-''"
  by (simp add: EncodeRune_ascii char_of_eq_iff)

lemma hyphen_notin:
  assumes "r \<noteq> 0x2d"
  shows "CHR ''-'' \<notin> set (EncodeRune r)"
proof (cases "r < 0x80")
  case True
  then have "take_bit 8 r = r" by (simp add: take_bit_nat_eq_self)
  then show ?thesis using assms True by (auto simp: EncodeRune_ascii eq_commute [of "CHR ''-''"] char_of_eq_iff)
next
  case False
  then show ?thesis using EncodeRune_high [of r "CHR ''-''"] by fastforce
qed

lemma sanitize_encode: "concat (map sanitize_rune rs) = encode_runes (hyphens rs)"
  by (induction rs) (simp_all add: hyphens_def sanitize_rune_def)

lemma hyphens_clean: "clean_runes (hyphens (runes s))"
  by (auto simp: clean_runes_def hyphens_def scalar_runes) (simp add: scalar_def)

lemma contains_dd_iff: "contains_dd s \<longleftrightarrow> (\<exists>a b. s = a @ ''--'' @ b)"
proof (induction s rule: contains_dd.induct)
  case (1 x y s)
  have "(\<exists>a b. x # y # s = a @ ''--'' @ b) \<longleftrightarrow>
    x = CHR ''-'' \<and> y = CHR ''-'' \<or> (\<exists>a b. y # s = a @ ''--'' @ b)"
    (is "?L \<longleftrightarrow> ?R")
  proof
    assume ?L
    then obtain a b where ab: "x # y # s = a @ ''--'' @ b" by blast
    then show ?R by (cases a) auto
  next
    assume ?R
    then show ?L by (metis append_Cons append_Nil)
  qed
  with 1 show ?case by simp
qed (auto simp: Cons_eq_append_conv)

lemma replace_dd_skip: "CHR ''-'' \<notin> set p \<Longrightarrow> replace_dd (p @ s) = p @ replace_dd s"
proof (induction p)
  case (Cons c p)
  then show ?case by (cases "p @ s") auto
qed simp

lemma replace_dd_step: "c \<noteq> CHR ''-'' \<Longrightarrow> replace_dd (CHR ''-'' # c # s) = CHR ''-'' # replace_dd (c # s)"
  by simp

lemma replace_dd_clean:
  "clean_runes rs \<Longrightarrow> \<exists>rs'. replace_dd (encode_runes rs) = encode_runes rs' \<and> clean_runes rs'"
proof (induction rs rule: induct_list012)
  case 1
  then show ?case by (intro exI [of _ "[]"]) simp
next
  case (2 x)
  have "replace_dd (EncodeRune x) = EncodeRune x"
    using replace_dd_skip [OF hyphen_notin, of x "[]"] by (cases "x = 0x2d") auto
  with 2 show ?case by (intro exI [of _ "[x]"]) simp
next
  case (3 x y zs)
  obtain u where u: "replace_dd (encode_runes zs) = encode_runes u" "clean_runes u"
    using 3 by (auto simp: clean_runes_def)
  obtain v where v: "replace_dd (encode_runes (y # zs)) = encode_runes v" "clean_runes v"
    using 3 by (auto simp: clean_runes_def)
  consider "x \<noteq> 0x2d" | "x = 0x2d" "y = 0x2d" | "x = 0x2d" "y \<noteq> 0x2d" by blast
  then show ?case
  proof cases
    case 1
    then have "replace_dd (encode_runes (x # y # zs)) = encode_runes (x # v)"
      using v(1) by (simp add: replace_dd_skip hyphen_notin)
    with v(2) 3(3) show ?thesis by (intro exI [of _ "x # v"]) (simp add: clean_runes_def)
  next
    case 2
    then have "replace_dd (encode_runes (x # y # zs)) = encode_runes (x # u)" using u(1) by simp
    with u(2) 3(3) show ?thesis by (intro exI [of _ "x # u"]) (simp add: clean_runes_def)
  next
    case 3
    obtain c p where c: "EncodeRune y = c # p" "c \<noteq> CHR ''-''"
      using hyphen_notin [OF 3(2)] by (cases "EncodeRune y") auto
    have "replace_dd (encode_runes (x # y # zs)) = encode_runes (x # v)"
      using v(1) 3(1) c by (simp add: replace_dd_step del: replace_dd.simps)
    with v(2) \<open>clean_runes (x # y # zs)\<close> show ?thesis by (intro exI [of _ "x # v"]) (simp add: clean_runes_def)
  qed
qed

lemma collapse_clean:
  "clean_runes rs \<Longrightarrow> \<exists>rs'. collapse_loop (encode_runes rs) = encode_runes rs' \<and> clean_runes rs'"
proof (induction "length (encode_runes rs)" arbitrary: rs rule: less_induct)
  case less
  then show ?case
    using replace_dd_clean [OF less.prems] replace_dd_shrinks
    by (subst collapse_loop.simps) metis
qed

lemma collapse_no_dd: "\<not> contains_dd (collapse_loop s)"
  by (induction s rule: collapse_loop.induct) (subst collapse_loop.simps, simp)

lemma drop_hyphens_encode: "dropWhile ((=) (CHR ''-'')) (encode_runes rs) = encode_runes (dropWhile ((=) 0x2d) rs)"
proof (induction rs)
  case (Cons r rs)
  obtain c p where "EncodeRune r = c # p" by (cases "EncodeRune r") auto
  then show ?case using Cons hyphen_notin [of r] by (cases "r = 0x2d") auto
qed simp

lemma drop_hyphens_rev:
  "rev (dropWhile ((=) (CHR ''-'')) (rev (encode_runes rs))) = encode_runes (rev (dropWhile ((=) 0x2d) (rev rs)))"
proof (induction rs rule: rev_induct)
  case (snoc r rs)
  obtain c p where "rev (EncodeRune r) = c # p" by (cases "rev (EncodeRune r)") auto
  moreover then have "EncodeRune r = rev p @ [c]" by (metis rev.simps(2) rev_rev_ident)
  ultimately show ?case using snoc hyphen_notin [of r] by (cases "r = 0x2d") auto
qed simp

lemma trim_encode:
  "trim_hyphens (encode_runes rs) = encode_runes (rev (dropWhile ((=) 0x2d) (rev (dropWhile ((=) 0x2d) rs))))"
  by (simp only: trim_hyphens_def drop_hyphens_encode drop_hyphens_rev)

lemma trim_clean: "clean_runes rs \<Longrightarrow> clean_runes (rev (dropWhile ((=) 0x2d) (rev (dropWhile ((=) 0x2d) rs))))"
  by (auto simp: clean_runes_def dest!: set_dropWhileD)

lemma trim_sandwich: "\<exists>a b. s = a @ trim_hyphens s @ b \<and> set (a @ b) \<subseteq> {CHR ''-''}"
proof -
  let ?d = "\<lambda>s. dropWhile ((=) (CHR ''-'')) s" and ?t = "\<lambda>s. takeWhile ((=) (CHR ''-'')) s"
  have "rev (?d s) = ?t (rev (?d s)) @ ?d (rev (?d s))" by simp
  then have "?d s = trim_hyphens s @ rev (?t (rev (?d s)))"
    unfolding trim_hyphens_def by (metis rev_append rev_rev_ident)
  then have "s = ?t s @ trim_hyphens s @ rev (?t (rev (?d s)))" by (metis takeWhile_dropWhile_id)
  moreover have "set (?t s @ rev (?t (rev (?d s)))) \<subseteq> {CHR ''-''}" by (auto dest: set_takeWhileD)
  ultimately show ?thesis by blast
qed

lemma trim_no_dd: "\<not> contains_dd s \<Longrightarrow> \<not> contains_dd (trim_hyphens s)"
  using trim_sandwich [of s] unfolding contains_dd_iff by (metis append.assoc)

lemma trim_ends:
  assumes "trim_hyphens s \<noteq> []"
  shows "hd (trim_hyphens s) \<noteq> CHR ''-'' \<and> last (trim_hyphens s) \<noteq> CHR ''-''"
proof -
  define u where "u = dropWhile ((=) (CHR ''-'')) s"
  define v where "v = dropWhile ((=) (CHR ''-'')) (rev u)"
  have t: "trim_hyphens s = rev v" by (simp add: trim_hyphens_def u_def v_def)
  have v: "v \<noteq> []" using assms t by simp
  then have h: "hd v \<noteq> CHR ''-''" unfolding v_def by (metis hd_dropWhile)
  obtain p where p: "rev u = p @ v" unfolding v_def by (metis takeWhile_dropWhile_id)
  then have "u = rev v @ rev p" by (metis rev_append rev_rev_ident)
  then have "hd u = hd (rev v)" "u \<noteq> []" using v by auto
  moreover have "hd u \<noteq> CHR ''-''" using \<open>u \<noteq> []\<close> unfolding u_def by (metis hd_dropWhile)
  ultimately show ?thesis using h v by (simp add: t last_rev)
qed

lemma trim_id: "s = [] \<or> hd s \<noteq> CHR ''-'' \<and> last s \<noteq> CHR ''-'' \<Longrightarrow> trim_hyphens s = s"
proof -
  assume a: "s = [] \<or> hd s \<noteq> CHR ''-'' \<and> last s \<noteq> CHR ''-''"
  show "trim_hyphens s = s"
  proof (cases "s = []")
    case False
    then have "dropWhile ((=) (CHR ''-'')) s = s" using a by (cases s) auto
    moreover have "dropWhile ((=) (CHR ''-'')) (rev s) = rev s"
      using a False by (cases s rule: rev_cases) auto
    ultimately show ?thesis by (simp add: trim_hyphens_def)
  qed (simp add: trim_hyphens_def)
qed

lemma Sanitize_runes: "\<exists>rs. Sanitize s = encode_runes rs \<and> clean_runes rs"
  using collapse_clean [OF hyphens_clean, of s] trim_encode trim_clean
  unfolding Sanitize_def sanitize_encode by metis

lemma clean_runes_encode: "clean_runes rs \<Longrightarrow> runes (encode_runes rs) = rs"
  by (rule runes_encode) (simp add: clean_runes_def)

lemma Sanitize_valid: "valid_component (Sanitize s)"
proof -
  obtain rs where rs: "Sanitize s = encode_runes rs" "clean_runes rs" using Sanitize_runes by blast
  have "\<not> contains_dd (Sanitize s)" unfolding Sanitize_def by (intro trim_no_dd collapse_no_dd)
  moreover have "Sanitize s \<noteq> [] \<Longrightarrow> hd (Sanitize s) \<noteq> CHR ''-'' \<and> last (Sanitize s) \<noteq> CHR ''-''"
    unfolding Sanitize_def by (rule trim_ends)
  moreover have "runes (Sanitize s) = rs" using rs by (simp add: clean_runes_encode)
  ultimately show ?thesis using rs by (simp add: valid_component_def clean_runes_def)
qed

lemma Sanitize_id:
  assumes "valid_component s"
  shows "Sanitize s = s"
proof -
  have "concat (map sanitize_rune (runes s)) = encode_runes (runes s)"
    using assms by (intro arg_cong [where f = concat] map_cong) (auto simp: valid_component_def sanitize_rune_def)
  then show ?thesis
    using assms by (subst Sanitize_def, subst collapse_loop.simps) (auto simp: valid_component_def intro!: trim_id)
qed

lemma replace_dd_rest: "filter ((\<noteq>) (CHR ''-'')) (replace_dd s) = filter ((\<noteq>) (CHR ''-'')) s"
  by (induction s rule: replace_dd.induct) auto

lemma collapse_rest: "filter ((\<noteq>) (CHR ''-'')) (collapse_loop s) = filter ((\<noteq>) (CHR ''-'')) s"
  by (induction s rule: collapse_loop.induct) (subst collapse_loop.simps, simp add: replace_dd_rest)

lemma trim_rest: "filter ((\<noteq>) (CHR ''-'')) (trim_hyphens s) = filter ((\<noteq>) (CHR ''-'')) s"
proof -
  obtain a b where ab: "s = a @ trim_hyphens s @ b" "set (a @ b) \<subseteq> {CHR ''-''}" using trim_sandwich by blast
  then have "filter ((\<noteq>) (CHR ''-'')) a = []" "filter ((\<noteq>) (CHR ''-'')) b = []"
    by (auto simp: filter_empty_conv)
  then show ?thesis using arg_cong [OF ab(1), of "filter ((\<noteq>) (CHR ''-''))"] by simp
qed

lemma encode_rest:
  "filter ((\<noteq>) (CHR ''-'')) (encode_runes (hyphens rs)) =
   encode_runes (filter (\<lambda>r. isValidBranchChar r \<and> r \<noteq> 0x2d) rs)"
proof (induction rs)
  case (Cons r rs)
  have "filter ((\<noteq>) (CHR ''-'')) (EncodeRune r) = EncodeRune r" if "r \<noteq> 0x2d"
    using hyphen_notin [OF that] by (auto simp: filter_id_conv)
  then show ?case using Cons by (auto simp: hyphens_def)
qed (simp add: hyphens_def)

lemma Sanitize_rest:
  "filter ((\<noteq>) (CHR ''-'')) (Sanitize s) = encode_runes (filter (\<lambda>r. isValidBranchChar r \<and> r \<noteq> 0x2d) (runes s))"
  by (simp add: Sanitize_def sanitize_encode trim_rest collapse_rest encode_rest)

text \<open>Bytes of a valid component: ASCII ones are allowed characters.\<close>

lemma valid_component_byte:
  assumes "valid_component t" "c \<in> set t"
  shows "0x80 \<le> byte c \<or> isValidBranchChar (byte c)"
proof -
  have "c \<in> set (encode_runes (runes t))" using assms by (simp add: valid_component_def)
  then obtain r where r: "r \<in> set (runes t)" "c \<in> set (EncodeRune r)" by auto
  show ?thesis
  proof (cases "r < 0x80")
    case True
    then have "byte c = r" using r(2) by (auto simp: EncodeRune_ascii)
    then show ?thesis using assms(1) r(1) by (simp add: valid_component_def)
  next
    case False
    then show ?thesis using EncodeRune_high [of r c] r(2) by simp
  qed
qed

lemma valid_component_no_slash: "valid_component t \<Longrightarrow> CHR ''/'' \<notin> set t"
  using valid_component_byte [of t "CHR ''/''"] by (auto simp: isValidBranchChar_def)

lemma valid_component_no_newline: "valid_component t \<Longrightarrow> CHR 0x0A \<notin> set t"
  using valid_component_byte [of t "CHR 0x0A"] by (auto simp: isValidBranchChar_def)

section \<open>Names round trip\<close>

definition segments_ok :: "BranchName \<Rightarrow> bool" where
  "segments_ok b \<longleftrightarrow>
     b_Feature b \<noteq> [] \<and> b_AgentName b \<noteq> [] \<and> b_SessionID b \<noteq> [] \<and>
     CHR ''/'' \<notin> set (b_Feature b) \<and> CHR ''/'' \<notin> set (b_AgentName b)"

lemma split_at_slash: "CHR ''/'' \<notin> set f \<Longrightarrow>
    takeWhile (\<lambda>c. c \<noteq> CHR ''/'') (f @ CHR ''/'' # s) = f \<and> dropWhile (\<lambda>c. c \<noteq> CHR ''/'') (f @ CHR ''/'' # s) = CHR ''/'' # s"
  by (induction f) auto

lemma SplitN_slash:
  "CHR ''/'' \<notin> set f \<Longrightarrow> SplitN (f @ CHR ''/'' # s) (Suc (Suc n)) = f # SplitN s (Suc n)"
  by (simp add: split_at_slash)

lemma SplitN_cases:
  "SplitN s (Suc (Suc n)) = [s] \<or>
   (\<exists>f rest. s = f @ CHR ''/'' # rest \<and> CHR ''/'' \<notin> set f \<and> SplitN s (Suc (Suc n)) = f # SplitN rest (Suc n))"
proof (cases "dropWhile (\<lambda>c. c \<noteq> CHR ''/'') s")
  case (Cons c rest)
  have c: "c = CHR ''/''" using hd_dropWhile [of "\<lambda>c. c \<noteq> CHR ''/''" s] Cons by simp
  have "s = takeWhile (\<lambda>c. c \<noteq> CHR ''/'') s @ CHR ''/'' # rest"
    using takeWhile_dropWhile_id [of "\<lambda>c. c \<noteq> CHR ''/''" s] Cons c by simp
  moreover have "CHR ''/'' \<notin> set (takeWhile (\<lambda>c. c \<noteq> CHR ''/'') s)" by (auto dest: set_takeWhileD)
  ultimately show ?thesis using Cons by (intro disjI2) (auto intro!: exI)
qed (simp only: SplitN.simps list.case simp_thms)

lemma SplitN_3:
  "length (SplitN s 3) = 3 \<Longrightarrow>
   \<exists>f a i. s = f @ CHR ''/'' # a @ CHR ''/'' # i \<and> CHR ''/'' \<notin> set f \<and> CHR ''/'' \<notin> set a \<and> SplitN s 3 = [f, a, i]"
proof -
  assume len: "length (SplitN s 3) = 3"
  have nums: "(3::nat) = Suc (Suc (Suc 0))" "(2::nat) = Suc (Suc 0)" by simp_all
  have "SplitN s 3 \<noteq> [s]" using len by (metis One_nat_def length_Cons list.size(3) numeral_eq_one_iff semiring_norm(86))
  then obtain f rest where f: "s = f @ CHR ''/'' # rest" "CHR ''/'' \<notin> set f" "SplitN s 3 = f # SplitN rest 2"
    using SplitN_cases [of s "Suc 0"] unfolding nums by blast
  have "length (SplitN rest 2) = 2" using len f(3) by simp
  then have "SplitN rest 2 \<noteq> [rest]" by (metis One_nat_def length_Cons list.size(3) numeral_eq_one_iff semiring_norm(85))
  then obtain a i where a: "rest = a @ CHR ''/'' # i" "CHR ''/'' \<notin> set a" "SplitN rest 2 = a # SplitN i (Suc 0)"
    using SplitN_cases [of rest 0] unfolding nums by blast
  have "SplitN s 3 = [f, a, i]" using f(3) a(3) by simp
  then show ?thesis using f(1,2) a(1,2) by blast
qed

lemma SplitN_3_join:
  "CHR ''/'' \<notin> set f \<Longrightarrow> CHR ''/'' \<notin> set a \<Longrightarrow> SplitN (f @ CHR ''/'' # a @ CHR ''/'' # i) 3 = [f, a, i]"
  using SplitN_slash [of f "a @ CHR ''/'' # i" 1] SplitN_slash [of a i 0]
  by (simp add: numeral_3_eq_3 del: SplitN.simps(3))

lemma Parse_plain:
  assumes "segments_ok b"
  shows "Parse (branch_String b) = Inr b"
proof -
  have "TrimPrefix (branch_String b) ''origin/'' = branch_String b"
    by (simp add: TrimPrefix_def HasPrefix_def branch_String_def Prefix_def)
  moreover have "branch_String b = Prefix @ (b_Feature b @ CHR ''/'' # b_AgentName b @ CHR ''/'' # b_SessionID b)"
    by (simp add: branch_String_def)
  ultimately show ?thesis
    using assms by (simp add: Parse_def SplitN_3_join segments_ok_def)
qed

lemma Parse_origin: "segments_ok b \<Longrightarrow> Parse (''origin/'' @ branch_String b) = Inr b"
proof -
  assume ok: "segments_ok b"
  have "TrimPrefix (branch_String b) ''origin/'' = branch_String b"
    by (simp add: TrimPrefix_def HasPrefix_def branch_String_def Prefix_def)
  then have "Parse (''origin/'' @ branch_String b) = Parse (branch_String b)"
    unfolding Parse_def TrimPrefix_append by simp
  then show ?thesis by (simp add: Parse_plain ok)
qed

lemma Parse_Inr:
  assumes "Parse ref = Inr b"
  shows "segments_ok b \<and> (ref = branch_String b \<or> ref = ''origin/'' @ branch_String b)"
proof -
  define r where "r = TrimPrefix ref ''origin/''"
  have pre: "HasPrefix r Prefix" using assms by (auto simp: Parse_def Let_def r_def split: if_splits)
  define p where "p = TrimPrefix r Prefix"
  have r: "r = Prefix @ p" using TrimPrefix_cases [of r Prefix] pre by (simp add: p_def)
  have len: "length (SplitN p 3) = 3"
    using assms by (auto simp: Parse_def Let_def r_def p_def split: if_splits)
  then obtain f a i where f: "p = f @ CHR ''/'' # a @ CHR ''/'' # i" "CHR ''/'' \<notin> set f" "CHR ''/'' \<notin> set a"
    "SplitN p 3 = [f, a, i]" using SplitN_3 by blast
  have b: "b = \<lparr>b_Feature = f, b_AgentName = a, b_SessionID = i\<rparr>" "f \<noteq> []" "a \<noteq> []" "i \<noteq> []"
    using assms pre f(4) by (auto simp: Parse_def Let_def r_def [symmetric] p_def [symmetric] split: if_splits)
  have "r = branch_String b" using r f(1) b by (simp add: branch_String_def)
  moreover have "ref = r \<or> ref = ''origin/'' @ r" using TrimPrefix_cases [of ref "''origin/''"] by (auto simp: r_def)
  ultimately show ?thesis using b f by (auto simp: segments_ok_def)
qed

lemma New_Inr:
  assumes "New feature agentName sessionID = Inr b"
  shows "b = \<lparr>b_Feature = Sanitize feature, b_AgentName = Sanitize agentName, b_SessionID = Sanitize sessionID\<rparr> \<and>
    segments_ok b"
  using assms valid_component_no_slash [OF Sanitize_valid]
  by (auto simp: New_def Let_def segments_ok_def split: if_splits)

lemma New_Inl:
  "New feature agentName sessionID = Inl e \<Longrightarrow>
   Sanitize feature = [] \<or> Sanitize agentName = [] \<or> Sanitize sessionID = []"
  by (auto simp: New_def Let_def split: if_splits)

lemma New_total:
  "Sanitize feature \<noteq> [] \<Longrightarrow> Sanitize agentName \<noteq> [] \<Longrightarrow> Sanitize sessionID \<noteq> [] \<Longrightarrow>
   \<exists>b. New feature agentName sessionID = Inr b"
  by (simp add: New_def)

section \<open>Sessions of an agent\<close>

lemma runes_ascii: "\<forall>c\<in>set s. byte c < 0x80 \<Longrightarrow> runes s = map byte s"
  by (induction s) (simp_all add: runes.simps(2))

lemma encode_ascii: "\<forall>c\<in>set s. byte c < 0x80 \<Longrightarrow> encode_runes (map byte s) = s"
  by (induction s) (simp_all add: EncodeRune_ascii)

lemma valid_ascii:
  assumes "\<forall>c\<in>set s. byte c < 0x80 \<and> isValidBranchChar (byte c) \<and> c \<noteq> CHR ''-''"
  shows "valid_component s"
proof -
  have r: "runes s = map byte s" using assms by (intro runes_ascii) blast
  have "encode_runes (runes s) = s" unfolding r using assms by (intro encode_ascii) blast
  moreover have "CHR ''-'' \<notin> set s" using assms by blast
  then have "\<not> contains_dd s" by (auto simp: contains_dd_iff)
  ultimately show ?thesis using assms by (simp add: valid_component_def r)
qed

definition hex_chars :: string where "hex_chars = ''0123456789abcdef''"

lemma hex_digit_chars: "n < 16 \<Longrightarrow> hex_digit n \<in> set hex_chars"
  unfolding hex_digit_def hex_chars_def by (rule nth_mem) simp

lemma EncodeToString_chars: "set (EncodeToString bs) \<subseteq> set hex_chars"
proof (induction bs)
  case (Cons b bs)
  have "unat b < 256" using unsigned_less [of b, where ?'a = nat] by simp
  then have "unat b div 16 < 16" "unat b mod 16 < 16" by (simp_all add: less_mult_imp_div_less)
  with Cons show ?case by (simp add: hex_digit_chars)
qed simp

lemma hex_char_valid: "c \<in> set hex_chars \<Longrightarrow> byte c < 0x80 \<and> isValidBranchChar (byte c) \<and> c \<noteq> CHR ''-'' \<and> \<not> IsSpace (byte c)"
  by (auto simp: hex_chars_def isValidBranchChar_def IsSpace_def within_iff)

lemma EncodeToString_empty: "EncodeToString bs = [] \<longleftrightarrow> bs = []"
  by (cases bs) simp_all

lemma Sanitize_hex: "Sanitize (EncodeToString bs) = EncodeToString bs"
  by (intro Sanitize_id valid_ascii) (use EncodeToString_chars hex_char_valid in blast)

text \<open>The branches workers create: a sanitised feature and agent, and a hexadecimal session.\<close>

definition worker_branch :: "BranchName \<Rightarrow> bool" where
  "worker_branch b \<longleftrightarrow> (\<exists>feature agentName bs. New feature agentName (EncodeToString bs) = Inr b)"

lemma worker_branchD:
  assumes "worker_branch b"
  shows "segments_ok b" "valid_component (b_Feature b)" "valid_component (b_AgentName b)"
    "valid_component (b_SessionID b)" "set (b_SessionID b) \<subseteq> set hex_chars"
proof -
  obtain f a bs where b: "New f a (EncodeToString bs) = Inr b" using assms by (auto simp: worker_branch_def)
  note n = New_Inr [OF b, unfolded Sanitize_hex]
  from n show "segments_ok b" by blast
  from n Sanitize_valid show "valid_component (b_Feature b)" "valid_component (b_AgentName b)" by auto
  from n Sanitize_valid [of "EncodeToString bs"] show "valid_component (b_SessionID b)" by (simp add: Sanitize_hex)
  from n EncodeToString_chars show "set (b_SessionID b) \<subseteq> set hex_chars" by simp
qed

definition git_line :: "BranchName \<Rightarrow> string" where
  "git_line b = ''  origin/'' @ branch_String b"

lemma git_line_trim:
  assumes "worker_branch b"
  shows "TrimSpace (git_line b) = ''origin/'' @ branch_String b"
proof -
  have ne: "b_SessionID b \<noteq> []" using worker_branchD(1) [OF assms] by (simp add: segments_ok_def)
  then have "last (''origin/'' @ branch_String b) = last (b_SessionID b)" by (simp add: branch_String_def)
  moreover have "last (b_SessionID b) \<in> set hex_chars" using ne worker_branchD(5) [OF assms] last_in_set by blast
  ultimately have "TrimSpace (''  '' @ (''origin/'' @ branch_String b)) = ''origin/'' @ branch_String b"
    using hex_char_valid by (intro TrimSpace_indented) (auto simp: IsSpace_def within_iff)
  then show ?thesis by (simp add: git_line_def)
qed

lemma git_line_no_newline: "worker_branch b \<Longrightarrow> CHR 0x0A \<notin> set (git_line b)"
  using worker_branchD(2-4) [of b] valid_component_no_newline
  by (auto simp: git_line_def branch_String_def Prefix_def)

lemma list_lines_workers:
  "\<forall>b\<in>set bs. worker_branch b \<Longrightarrow> list_lines (map git_line bs @ [[]]) = map branch_String bs"
proof (induction bs)
  case Nil
  then show ?case by (simp add: TrimSpace_def TrimRightSpace.simps)
next
  case (Cons b bs)
  then show ?case using TrimPrefix_append [of "''origin/''"] by (simp add: git_line_trim)
qed

lemma GitBranchLister_workers:
  assumes "\<forall>b\<in>set bs. worker_branch b"
  shows "GitBranchLister (Inr (concat (map (\<lambda>b. git_line b @ [CHR 0x0A]) bs))) = Inr (map branch_String bs)"
proof -
  have "Split (CHR 0x0A) (concat (map (\<lambda>p. p @ [CHR 0x0A]) (map git_line bs))) = map git_line bs @ [[]]"
    using assms git_line_no_newline by (intro Split_lines) auto
  then show ?thesis using list_lines_workers [OF assms] by (simp add: GitBranchLister_def comp_def)
qed

lemma slash_append_eq:
  "CHR ''/'' \<notin> set f \<Longrightarrow> CHR ''/'' \<notin> set g \<Longrightarrow> f @ CHR ''/'' # s = g @ CHR ''/'' # t \<longleftrightarrow> f = g \<and> s = t"
  using split_at_slash [of f s] split_at_slash [of g t] by (metis list.inject)

lemma branch_prefix_iff:
  assumes "segments_ok b" "CHR ''/'' \<notin> set f" "CHR ''/'' \<notin> set a"
  shows "HasPrefix (branch_String b) (Prefix @ f @ ''/'' @ a @ ''/'') \<longleftrightarrow> b_Feature b = f \<and> b_AgentName b = a"
proof -
  have "HasPrefix (branch_String b) (Prefix @ f @ ''/'' @ a @ ''/'') \<longleftrightarrow>
      (\<exists>t. b_Feature b @ CHR ''/'' # (b_AgentName b @ CHR ''/'' # b_SessionID b) = f @ CHR ''/'' # (a @ CHR ''/'' # t))"
    by (simp add: HasPrefix_iff branch_String_def)
  also have "\<dots> \<longleftrightarrow> b_Feature b = f \<and> b_AgentName b = a"
    using assms by (simp add: slash_append_eq segments_ok_def)
  finally show ?thesis .
qed

lemma find_matches_branches:
  assumes "CHR ''/'' \<notin> set f" "CHR ''/'' \<notin> set a"
  shows "\<forall>b\<in>set bs. segments_ok b \<Longrightarrow>
    find_matches (Prefix @ f @ ''/'' @ a @ ''/'') (map branch_String bs) = filter (\<lambda>b. b_Feature b = f \<and> b_AgentName b = a) bs"
  using assms branch_prefix_iff by (induction bs) (auto simp: Parse_plain)

lemma FindRetries_branches:
  "\<forall>b\<in>set bs. segments_ok b \<Longrightarrow>
   FindRetries (Inr (map branch_String bs)) feature agentName =
   Inr (filter (\<lambda>b. b_Feature b = Sanitize feature \<and> b_AgentName b = Sanitize agentName) bs)"
  unfolding FindRetries_def using find_matches_branches valid_component_no_slash [OF Sanitize_valid] by simp

section \<open>Events of a session\<close>

lemma commands_append: "commands (xs @ ys) = commands xs @ commands ys"
  by (induction xs rule: commands.induct) auto

lemma commands_retry_log: "commands (retry_log w) = []"
  by (auto simp: retry_log_def split: option.splits sum.splits prod.splits)

lemma Worker_Complete_commands:
  "commands (fst (Worker_Complete git (w\<lparr>w_branch := Some b\<rparr>))) = [(w_RepoDir w, [''push'', remote w, branch_String b])]"
  by (auto simp: Worker_Complete_def Let_def remote_def split: option.splits)

section \<open>Properties\<close>

text \<open>Sanitising gives a name with no forbidden character, no two hyphens in a row and no hyphen at
  either end. Names of that shape are exactly the ones it leaves alone, so it is idempotent, and it
  only ever adds or removes hyphens: the allowed characters stay, in order.\<close>

lemma Sanitize_correct:
  "valid_component (Sanitize s) \<and> (Sanitize s = s) = valid_component s \<and>
   Sanitize (Sanitize s) = Sanitize s \<and>
   filter ((\<noteq>) (CHR ''-'')) (Sanitize s) =
     encode_runes (filter (\<lambda>r. isValidBranchChar r \<and> r \<noteq> 0x2d) (runes s))"
  using Sanitize_valid [of s] Sanitize_id Sanitize_rest by metis

text \<open>C36: Parsing accepts exactly the printed names with three non-empty segments and no slash in the
  first two, with or without the remote prefix, and gives the name back.\<close>

theorem Parse_iff:
  "Parse ref = Inr b \<longleftrightarrow> segments_ok b \<and> (ref = branch_String b \<or> ref = ''origin/'' @ branch_String b)"
  using Parse_Inr Parse_plain Parse_origin by blast

text \<open>C37: From the output of git for branches that workers created, retry detection finds exactly the
  sessions of the same sanitised feature and agent, in the order listed; their number is the attempt
  count, and the latest session is the last of them.\<close>

theorem FindRetries_correct:
  fixes feature agentName :: string
  assumes "\<forall>b\<in>set bs. worker_branch b"
  defines "d \<equiv> GitBranchLister (Inr (concat (map (\<lambda>b. git_line b @ [CHR 0x0A]) bs)))"
    and "own \<equiv> filter (\<lambda>b. b_Feature b = Sanitize feature \<and> b_AgentName b = Sanitize agentName) bs"
  shows "FindRetries d feature agentName = Inr own \<and>
    IsRetry d feature agentName = Inr (own \<noteq> [], length own) \<and>
    LatestSession d feature agentName = Inr (if own = [] then None else Some (last own))"
proof -
  have "\<forall>b\<in>set bs. segments_ok b" using assms(1) worker_branchD(1) by blast
  then have f: "FindRetries d feature agentName = Inr own"
    unfolding d_def own_def GitBranchLister_workers [OF assms(1)] by (rule FindRetries_branches)
  then show ?thesis by (simp add: IsRetry_def LatestSession_def Let_def last_conv_nth)
qed

definition example_branch :: "8 word list \<Rightarrow> BranchName" where
  "example_branch bs = \<lparr>b_Feature = ''login-page'', b_AgentName = ''coder'', b_SessionID = EncodeToString bs\<rparr>"

lemma example_names:
  "Sanitize ''login page?'' = ''login-page''" "Sanitize ''coder'' = ''coder''" "Sanitize ''writer'' = ''writer''"
  by (simp_all add: Sanitize_def runes_ascii sanitize_rune_def isValidBranchChar_def EncodeRune_ascii
      collapse_loop.simps trim_hyphens_def char_of_eq_iff eq_commute [of "CHR ''-''"])

theorem FindRetries_correct_witness:
  "let bs = [example_branch [1, 2], example_branch [3, 4]];
       d = GitBranchLister (Inr (concat (map (\<lambda>b. git_line b @ [CHR 0x0A]) bs)))
   in IsRetry d ''login page?'' ''coder'' = Inr (True, 2) \<and>
      LatestSession d ''login page?'' ''coder'' = Inr (Some (example_branch [3, 4])) \<and>
      FindRetries d ''login page?'' ''writer'' = Inr []"
proof -
  let ?bs = "[example_branch [1, 2], example_branch [3, 4]]"
  note ids = example_names
  have "New ''login page?'' ''coder'' (EncodeToString b) = Inr (example_branch b)" if "b \<noteq> []" for b
    using that EncodeToString_empty [of b] by (simp add: New_def ids Sanitize_hex example_branch_def del: EncodeToString.simps)
  then have "\<forall>b\<in>set ?bs. worker_branch b" by (auto simp: worker_branch_def)
  note FindRetries_correct [OF this, of "''login page?''" "''coder''"]
    FindRetries_correct [OF this, of "''login page?''" "''writer''"]
  then show ?thesis by (simp add: ids example_branch_def)
qed

text \<open>C38: A worker session checks out one new branch, named after the session's feature and agent and the
  random bytes, and it is that branch that completing pushes and aborting deletes; what retry
  detection answers changes nothing but the log. A session whose start failed has no branch:
  completing it fails and aborting it does nothing, and neither runs git.\<close>

theorem Worker_lifecycle:
  assumes "w_branch w = None" "Worker_Start (Inr bs) git w = (evs, w', res)"
  shows "(case res of
      Inr b \<Rightarrow>
        w' = w\<lparr>w_branch := Some b\<rparr> \<and> commands evs = [(w_RepoDir w, [''checkout'', ''-b'', branch_String b])] \<and>
        Parse (branch_String b) = Inr b \<and>
        b = \<lparr>b_Feature = Sanitize (w_Feature w), b_AgentName = Sanitize (w_AgentName w), b_SessionID = EncodeToString bs\<rparr> \<and>
        commands (fst (Worker_Complete git w')) = [(w_RepoDir w, [''push'', remote w, branch_String b])] \<and>
        commands (fst (Worker_Abort git reason w')) =
          [(w_RepoDir w, [''checkout'', ''-'']), (w_RepoDir w, [''branch'', ''-D'', branch_String b])]
    | Inl err \<Rightarrow>
        w' = w \<and> Worker_Complete git w' = ([], Some NotStarted) \<and>
        Worker_Abort git reason w' = ([AbortBeforeStart reason], None)) \<and>
    (\<exists>evs2. Worker_Start (Inr bs) git (SetDetector d w) = (evs2, SetDetector d w', res) \<and> commands evs2 = commands evs)"
proof -
  note defs = Worker_Start_def newSessionID_def gitCheckoutBranch_def SetDetector_def Worker_Abort_def
    commands_append commands_retry_log
  show ?thesis
  proof (cases "New (w_Feature w) (w_AgentName w) (EncodeToString bs)")
    case (Inl e)
    then have "res = Inl e" "w' = w" "evs = []" using assms(2) by (simp_all add: defs)
    then show ?thesis using assms(1) by (simp add: Inl defs Worker_Complete_def)
  next
    case (Inr b)
    note b = New_Inr [OF Inr, unfolded Sanitize_hex]
    show ?thesis
    proof (cases "git (w_RepoDir w) [''checkout'', ''-b'', branch_String b]")
      case None
      then have "res = Inr b" "w' = w\<lparr>w_branch := Some b\<rparr>" "commands evs = [(w_RepoDir w, [''checkout'', ''-b'', branch_String b])]"
        using assms Inr by (auto simp: defs)
      moreover have "Parse (branch_String b) = Inr b" using b Parse_plain by blast
      ultimately show ?thesis
        using b None Inr Worker_Complete_commands by (simp add: defs Let_def)
    next
      case (Some e)
      then have "res = Inl (GitFailed (branch_String b) e)" "w' = w" "commands evs = [(w_RepoDir w, [''checkout'', ''-b'', branch_String b])]"
        using assms(2) Inr by (auto simp: defs)
      then show ?thesis using assms(1) by (simp add: Inr Some defs Worker_Complete_def)
    qed
  qed
qed

definition example_session :: WorkerSession where
  "example_session = \<lparr>w_Feature = ''login page?'', w_AgentName = ''coder'', w_RepoDir = ''/repo'', w_RemoteURL = [],
     w_branch = None, w_detector = None\<rparr>"

theorem Worker_lifecycle_witness:
  "commands (fst (Worker_Complete (\<lambda>_ _. None) (example_session\<lparr>w_branch := Some (example_branch [1, 255])\<rparr>))) =
     [(''/repo'', [''push'', ''origin'', ''agent/login-page/coder/01ff''])]"
proof -
  have s: "branch_String (example_branch [1, 255]) = ''agent/login-page/coder/01ff''" by code_simp
  have start: "Worker_Start (Inr [1, 255]) (\<lambda>_ _. None) example_session =
      ([Git ''/repo'' [''checkout'', ''-b'', branch_String (example_branch [1, 255])], SessionStarted (example_branch [1, 255])],
       example_session\<lparr>w_branch := Some (example_branch [1, 255])\<rparr>, Inr (example_branch [1, 255]))"
    by (simp add: Worker_Start_def newSessionID_def New_def example_names Sanitize_hex gitCheckoutBranch_def retry_log_def
        example_session_def example_branch_def EncodeToString_empty del: EncodeToString.simps)
  have "w_branch example_session = None" by (simp add: example_session_def)
  from Worker_lifecycle [OF this start, of "''stopped''" None]
  have "commands (fst (Worker_Complete (\<lambda>_ _. None) (example_session\<lparr>w_branch := Some (example_branch [1, 255])\<rparr>))) =
      [(w_RepoDir example_session, [''push'', remote example_session, branch_String (example_branch [1, 255])])]"
    unfolding sum.case by blast
  then show ?thesis unfolding s by (simp add: remote_def example_session_def)
qed

end
