(* ===== verification/ContextMgmt.thy ===== *)
theory ContextMgmt
  imports Prelude Float64 "HOL-Library.Word"
begin

text \<open>
  Context window tracking (\<open>src/internal/contextmgmt/tracker.go\<close>): per-session token metrics, the
  usage percentage in \<open>float64\<close> arithmetic, and the choice of a resurrection strategy. Times are
  integers, 0 being Go's zero time; the clock is an argument. Counters keep their 32 bits.
\<close>

section \<open>Types\<close>

datatype ResurrectionStrategy = StrategyFull | StrategyCheckpoint | StrategyFresh

record Config =
  cfg_CompactionInterval :: string
  cfg_TokenThreshold :: int
  cfg_EventRetentionSize :: int
  cfg_OverlapSize :: int
  cfg_ResurrectionFullThreshold :: int
  cfg_ResurrectionCheckpointThreshold :: int

definition DefaultConfig :: Config where
  "DefaultConfig = \<lparr>cfg_CompactionInterval = ''5m'', cfg_TokenThreshold = 100000, cfg_EventRetentionSize = 50,
     cfg_OverlapSize = 2, cfg_ResurrectionFullThreshold = 60, cfg_ResurrectionCheckpointThreshold = 90\<rparr>"

record SessionMetrics =
  sm_SessionID :: string
  sm_TaskID :: string
  sm_CurrentTokens :: int
  sm_TokenLimit :: int
  sm_TurnCount :: "32 word"
  sm_CompactionCount :: "32 word"
  sm_LastCompaction :: int
  sm_StartTime :: int

definition zero_SessionMetrics :: SessionMetrics where
  "zero_SessionMetrics = \<lparr>sm_SessionID = [], sm_TaskID = [], sm_CurrentTokens = 0, sm_TokenLimit = 0,
     sm_TurnCount = 0, sm_CompactionCount = 0, sm_LastCompaction = 0, sm_StartTime = 0\<rparr>"

text \<open>The conversion of a double to \<open>int32\<close> truncates; outside the range of \<open>int32\<close> Go leaves the
  result to the implementation, here the argument \<open>impl\<close>.\<close>

definition float_to_int32 :: "(rat \<Rightarrow> int) \<Rightarrow> rat \<Rightarrow> int" where
  "float_to_int32 impl x =
     (let t = (if 0 \<le> x then \<lfloor>x\<rfloor> else \<lceil>x\<rceil>) in if - (2 ^ 31) \<le> t \<and> t < 2 ^ 31 then t else impl x)"

definition UsagePercent :: "(rat \<Rightarrow> int) \<Rightarrow> SessionMetrics \<Rightarrow> int" where
  "UsagePercent impl m =
     (if sm_TokenLimit m \<le> 0 then 0
      else
        (let pct = fmul (fdiv (f64_of_int (sm_CurrentTokens m)) (f64_of_int (sm_TokenLimit m))) 100
         in if 100 < pct then 100 else float_to_int32 impl pct))"

definition NeedsCompaction :: "int \<Rightarrow> SessionMetrics \<Rightarrow> bool" where
  "NeedsCompaction threshold m \<longleftrightarrow> threshold \<le> sm_CurrentTokens m"

record Tracker =
  tr_config :: Config
  tr_sessions :: "(string, SessionMetrics) gomap"

datatype tracker_error = BadThresholds int int | NoMetrics string

section \<open>Operations\<close>

definition NewTracker :: "Config \<Rightarrow> tracker_error + Tracker" where
  "NewTracker config =
     (if cfg_ResurrectionCheckpointThreshold config \<le> cfg_ResurrectionFullThreshold config
      then Inl (BadThresholds (cfg_ResurrectionFullThreshold config) (cfg_ResurrectionCheckpointThreshold config))
      else Inr \<lparr>tr_config = config, tr_sessions = []\<rparr>)"

definition StartSession :: "int \<Rightarrow> string \<Rightarrow> string \<Rightarrow> int \<Rightarrow> Tracker \<Rightarrow> Tracker" where
  "StartSession now sessionID taskID tokenLimit t =
     t\<lparr>tr_sessions := mput sessionID
         (zero_SessionMetrics\<lparr>sm_SessionID := sessionID, sm_TaskID := taskID, sm_TokenLimit := tokenLimit,
            sm_StartTime := now\<rparr>) (tr_sessions t)\<rparr>"

definition UpdateTokens :: "string \<Rightarrow> int \<Rightarrow> Tracker \<Rightarrow> Tracker" where
  "UpdateTokens sessionID tokens t =
     (case mlookup (tr_sessions t) sessionID of
        None \<Rightarrow> t
      | Some m \<Rightarrow>
          t\<lparr>tr_sessions := mput sessionID (m\<lparr>sm_CurrentTokens := tokens, sm_TurnCount := sm_TurnCount m + 1\<rparr>)
              (tr_sessions t)\<rparr>)"

definition RecordCompaction :: "int \<Rightarrow> string \<Rightarrow> Tracker \<Rightarrow> Tracker" where
  "RecordCompaction now sessionID t =
     (case mlookup (tr_sessions t) sessionID of
        None \<Rightarrow> t
      | Some m \<Rightarrow>
          t\<lparr>tr_sessions := mput sessionID
              (m\<lparr>sm_CompactionCount := sm_CompactionCount m + 1, sm_LastCompaction := now\<rparr>) (tr_sessions t)\<rparr>)"

definition GetMetrics :: "Tracker \<Rightarrow> string \<Rightarrow> SessionMetrics \<times> bool" where
  "GetMetrics t sessionID =
     (case mlookup (tr_sessions t) sessionID of
        None \<Rightarrow> (zero_SessionMetrics, False)
      | Some m \<Rightarrow> (m, True))"

definition EndSession :: "string \<Rightarrow> Tracker \<Rightarrow> (SessionMetrics \<times> bool) \<times> Tracker" where
  "EndSession sessionID t =
     (case mlookup (tr_sessions t) sessionID of
        None \<Rightarrow> ((zero_SessionMetrics, False), t)
      | Some m \<Rightarrow> ((m, True), t\<lparr>tr_sessions := mdel sessionID (tr_sessions t)\<rparr>))"

definition SelectResurrectionStrategy :: "Tracker \<Rightarrow> int \<Rightarrow> ResurrectionStrategy" where
  "SelectResurrectionStrategy t usagePercent =
     (if usagePercent < cfg_ResurrectionFullThreshold (tr_config t) then StrategyFull
      else if usagePercent < cfg_ResurrectionCheckpointThreshold (tr_config t) then StrategyCheckpoint
      else StrategyFresh)"

definition SelectResurrectionStrategyForSession ::
  "(rat \<Rightarrow> int) \<Rightarrow> Tracker \<Rightarrow> string \<Rightarrow> ResurrectionStrategy \<times> tracker_error option" where
  "SelectResurrectionStrategyForSession impl t sessionID =
     (let (metrics, ok) = GetMetrics t sessionID in
      if \<not> ok then (StrategyFresh, Some (NoMetrics sessionID))
      else (SelectResurrectionStrategy t (UsagePercent impl metrics), None))"

fun needing :: "int \<Rightarrow> (string, SessionMetrics) gomap \<Rightarrow> string list" where
  "needing threshold [] = []"
| "needing threshold ((i, m) # ms) =
     (if NeedsCompaction threshold m then i # needing threshold ms else needing threshold ms)"

definition CheckCompaction :: "Tracker \<Rightarrow> string list" where
  "CheckCompaction t = needing (cfg_TokenThreshold (tr_config t)) (tr_sessions t)"

definition ActiveSessionCount :: "Tracker \<Rightarrow> nat" where
  "ActiveSessionCount t = mlen (tr_sessions t)"

section \<open>The usage percentage\<close>

lemma fl64_near: "0 \<le> x \<Longrightarrow> 999/1000 * x \<le> fl64 x \<and> fl64 x \<le> 1001/1000 * x"
proof -
  assume x: "0 \<le> x"
  have "x / 2 ^ 53 \<le> x / 1000" using x by (intro divide_left_mono) auto
  then have "\<bar>fl64 x - x\<bar> \<le> x / 1000" using fl64_error [of x] x by simp
  then show ?thesis unfolding abs_le_iff by linarith
qed

lemma fl64_one [simp]: "fl64 1 = 1"
  using fl64_int [of 1] by simp

lemma fl64_hundred [simp]: "fl64 100 = 100"
  using fl64_int [of 100] by simp

definition usage_ratio :: "int \<Rightarrow> int \<Rightarrow> rat" where
  "usage_ratio c l = fmul (fdiv (f64_of_int c) (f64_of_int l)) 100"

lemma f64_of_int_pos: "0 < l \<Longrightarrow> 0 < f64_of_int l"
  using fl64_mono [of 1 "of_int l"] unfolding f64_of_int_def fl64_one by (simp add: dual_order.strict_trans2)

lemma usage_ratio_mono: "0 < l \<Longrightarrow> c \<le> d \<Longrightarrow> usage_ratio c l \<le> usage_ratio d l"
  unfolding usage_ratio_def fmul_def fdiv_def using f64_of_int_pos [of l]
  by (intro fl64_mono mult_right_mono divide_right_mono) (auto simp: f64_of_int_def intro!: fl64_mono)

lemma usage_ratio_nonneg: "0 < l \<Longrightarrow> 0 \<le> c \<Longrightarrow> 0 \<le> usage_ratio c l"
  using usage_ratio_mono [of l 0 c] by (simp add: usage_ratio_def fmul_def fdiv_def f64_of_int_def)

lemma usage_ratio_full: "0 < l \<Longrightarrow> usage_ratio l l = 100"
  using f64_of_int_pos [of l] by (simp add: usage_ratio_def fmul_def fdiv_def)

lemma usage_ratio_near:
  assumes "0 < l" "0 \<le> c" "c \<le> l"
  shows "\<bar>usage_ratio c l - 100 * of_int c / of_int l\<bar> < 1"
proof -
  define C L where "C = (of_int c :: rat)" and "L = (of_int l :: rat)"
  have CL: "0 \<le> C" "C \<le> L" "0 < L" using assms by (simp_all add: C_def L_def)
  define C' L' where "C' = fl64 C" and "L' = fl64 L"
  define q where "q = fl64 (C' / L')"
  have C': "999/1000 * C \<le> C'" "C' \<le> 1001/1000 * C" using fl64_near [of C] CL by (simp_all add: C'_def)
  have L': "999/1000 * L \<le> L'" "L' \<le> 1001/1000 * L" using fl64_near [of L] CL by (simp_all add: L'_def)
  have pos: "0 < L'" "0 \<le> C'" using C' L' CL by linarith+
  have "C' / L' \<le> (1001/1000 * C) / (999/1000 * L)" using C' L' CL pos by (intro frac_le) auto
  also have "\<dots> = 1001/999 * (C / L)" using CL by simp
  finally have up: "C' / L' \<le> 1001/999 * (C / L)" .
  have "999/1001 * (C / L) = (999/1000 * C) / (1001/1000 * L)" using CL by simp
  also have "\<dots> \<le> C' / L'" using C' L' CL pos by (intro frac_le) auto
  finally have low: "999/1001 * (C / L) \<le> C' / L'" .
  have q: "999/1000 * (C' / L') \<le> q" "q \<le> 1001/1000 * (C' / L')"
    using fl64_near [of "C' / L'"] pos by (simp_all add: q_def)
  have "0 \<le> q" unfolding q_def using pos by (intro fl64_nonneg) simp
  then have p: "999/1000 * (q * 100) \<le> fl64 (q * 100)" "fl64 (q * 100) \<le> 1001/1000 * (q * 100)"
    using fl64_near [of "q * 100"] by simp_all
  have r: "0 \<le> C / L" "C / L \<le> 1" using CL by simp_all
  have "\<bar>fl64 (q * 100) - 100 * (C / L)\<bar> < 1" using p q up low r unfolding abs_less_iff by linarith
  then show ?thesis
    by (simp add: usage_ratio_def fmul_def fdiv_def f64_of_int_def q_def C'_def L'_def C_def L_def)
qed

lemma UsagePercent_ratio:
  assumes "0 < sm_TokenLimit m" "0 \<le> sm_CurrentTokens m"
  shows "UsagePercent impl m = min 100 \<lfloor>usage_ratio (sm_CurrentTokens m) (sm_TokenLimit m)\<rfloor>"
proof -
  let ?p = "usage_ratio (sm_CurrentTokens m) (sm_TokenLimit m)"
  have "UsagePercent impl m = (if 100 < ?p then 100 else float_to_int32 impl ?p)"
    using assms(1) by (simp add: UsagePercent_def usage_ratio_def)
  moreover have "float_to_int32 impl ?p = \<lfloor>?p\<rfloor>" "\<lfloor>?p\<rfloor> \<le> 100" if "?p \<le> 100"
  proof -
    have f: "0 \<le> \<lfloor>?p\<rfloor>" "\<lfloor>?p\<rfloor> \<le> 100"
      using usage_ratio_nonneg [OF assms] floor_mono [OF that] by simp_all
    then show "\<lfloor>?p\<rfloor> \<le> 100" "float_to_int32 impl ?p = \<lfloor>?p\<rfloor>"
      using usage_ratio_nonneg [OF assms] by (simp_all add: float_to_int32_def)
  qed
  moreover have "100 \<le> \<lfloor>?p\<rfloor>" if "100 < ?p" using that by linarith
  ultimately show ?thesis by (cases "100 < ?p") (auto simp: min_def)
qed

section \<open>Histories\<close>

text \<open>What clients do to a tracker, with the clock reading where the code reads the clock.\<close>

datatype tracker_op =
    OpStart string string int int
  | OpUpdate string int
  | OpCompact string int
  | OpEnd string

fun apply_op :: "tracker_op \<Rightarrow> Tracker \<Rightarrow> Tracker" where
  "apply_op (OpStart i task limit now) t = StartSession now i task limit t"
| "apply_op (OpUpdate i tokens) t = UpdateTokens i tokens t"
| "apply_op (OpCompact i now) t = RecordCompaction now i t"
| "apply_op (OpEnd i) t = snd (EndSession i t)"

fun op_session :: "tracker_op \<Rightarrow> string" where
  "op_session (OpStart i _ _ _) = i"
| "op_session (OpUpdate i _) = i"
| "op_session (OpCompact i _) = i"
| "op_session (OpEnd i) = i"

fun is_progress :: "tracker_op \<Rightarrow> bool" where
  "is_progress (OpUpdate _ _) = True"
| "is_progress (OpCompact _ _) = True"
| "is_progress _ = False"

fun updates_of :: "string \<Rightarrow> tracker_op list \<Rightarrow> int list" where
  "updates_of i [] = []"
| "updates_of i (OpUpdate j tokens # ops) = (if i = j then tokens # updates_of i ops else updates_of i ops)"
| "updates_of i (_ # ops) = updates_of i ops"

fun compactions_of :: "string \<Rightarrow> tracker_op list \<Rightarrow> int list" where
  "compactions_of i [] = []"
| "compactions_of i (OpCompact j now # ops) = (if i = j then now # compactions_of i ops else compactions_of i ops)"
| "compactions_of i (_ # ops) = compactions_of i ops"

lemma apply_op_other:
  "op_session p \<noteq> i \<Longrightarrow> mlookup (tr_sessions (apply_op p t)) i = mlookup (tr_sessions t) i"
  by (cases p) (auto simp: StartSession_def UpdateTokens_def RecordCompaction_def EndSession_def split: option.splits)

definition advance :: "string \<Rightarrow> tracker_op list \<Rightarrow> SessionMetrics \<Rightarrow> SessionMetrics" where
  "advance i ops m = m\<lparr>sm_CurrentTokens := last (sm_CurrentTokens m # updates_of i ops),
     sm_TurnCount := sm_TurnCount m + of_nat (length (updates_of i ops)),
     sm_CompactionCount := sm_CompactionCount m + of_nat (length (compactions_of i ops)),
     sm_LastCompaction := last (sm_LastCompaction m # compactions_of i ops)\<rparr>"

lemma history_lookup:
  assumes "\<forall>p\<in>set ops. op_session p = i \<longrightarrow> is_progress p" "mlookup (tr_sessions t) i = Some m"
  shows "mlookup (tr_sessions (fold apply_op ops t)) i = Some (advance i ops m)"
  using assms
proof (induction ops arbitrary: t m)
  case Nil
  then show ?case by (simp add: advance_def)
next
  case (Cons p ops)
  show ?case
  proof (cases "op_session p = i")
    case False
    then have "advance i (p # ops) m = advance i ops m" by (cases p) (auto simp: advance_def)
    then show ?thesis using Cons False by (simp add: apply_op_other)
  next
    case True
    then have "is_progress p" using Cons.prems(1) by simp
    then obtain m' where "mlookup (tr_sessions (apply_op p t)) i = Some m'" "advance i ops m' = advance i (p # ops) m"
      using True Cons.prems(2)
      by (cases p) (auto simp: UpdateTokens_def RecordCompaction_def advance_def)
    then show ?thesis using Cons by simp
  qed
qed

definition tracker_ok :: "Tracker \<Rightarrow> bool" where
  "tracker_ok t \<longleftrightarrow> mwf (tr_sessions t) \<and>
     cfg_ResurrectionFullThreshold (tr_config t) < cfg_ResurrectionCheckpointThreshold (tr_config t)"

lemma apply_op_ok: "tracker_ok t \<Longrightarrow> tracker_ok (apply_op p t)"
  by (cases p) (auto simp: tracker_ok_def StartSession_def UpdateTokens_def RecordCompaction_def EndSession_def split: option.splits)

lemma apply_op_config: "tr_config (apply_op p t) = tr_config t"
  by (cases p) (auto simp: StartSession_def UpdateTokens_def RecordCompaction_def EndSession_def split: option.splits)

lemma run_ok: "tracker_ok t \<Longrightarrow> tracker_ok (fold apply_op ops t)"
  by (induction ops arbitrary: t) (simp_all add: apply_op_ok)

lemma run_config: "tr_config (fold apply_op ops t) = tr_config t"
  by (induction ops arbitrary: t) (simp_all add: apply_op_config)

lemma NewTracker_ok: "NewTracker config = Inr t \<Longrightarrow> tracker_ok t \<and> tr_config t = config \<and> tr_sessions t = []"
  by (auto simp: NewTracker_def tracker_ok_def split: if_splits)

lemma set_needing: "mwf ms \<Longrightarrow> set (needing th ms) = {i. \<exists>m. mlookup ms i = Some m \<and> th \<le> sm_CurrentTokens m}"
proof (induction th ms rule: needing.induct)
  case (2 th i m ms)
  have "mlookup ms i = None" using 2(3) by (simp add: mwf_def mlookup_def map_of_eq_None_iff)
  moreover have "mwf ms" using 2(3) by (simp add: mwf_def)
  moreover have "mlookup ((i, m) # ms) j = (if j = i then Some m else mlookup ms j)" for j by (simp add: mlookup_def)
  ultimately show ?case using 2(1,2) by (cases "NeedsCompaction th m") (auto simp: NeedsCompaction_def)
qed simp

lemma distinct_needing: "mwf ms \<Longrightarrow> distinct (needing th ms)"
proof (induction th ms rule: needing.induct)
  case (2 th i m ms)
  have "set (needing th ms) \<subseteq> fst ` set ms" by (induction th ms rule: needing.induct) auto
  with 2 show ?case by (auto simp: mwf_def)
qed simp

section \<open>Properties\<close>

text \<open>C39: For non-negative token counts the usage percentage lies between 0 and 100, grows with the
  tokens, is 100 from the limit on, and below the limit is within one of the exact percentage
  rounded down; a non-positive limit gives 0. What the platform does with conversions out of range
  never matters.\<close>

theorem UsagePercent_bounds:
  assumes "0 \<le> sm_CurrentTokens m"
  shows "0 \<le> UsagePercent impl m \<and> UsagePercent impl m \<le> 100 \<and>
    (sm_TokenLimit m \<le> 0 \<longrightarrow> UsagePercent impl m = 0) \<and>
    (0 < sm_TokenLimit m \<longrightarrow> sm_TokenLimit m \<le> sm_CurrentTokens m \<longrightarrow> UsagePercent impl m = 100) \<and>
    (0 < sm_TokenLimit m \<longrightarrow> sm_CurrentTokens m \<le> sm_TokenLimit m \<longrightarrow>
      \<bar>UsagePercent impl m - 100 * sm_CurrentTokens m div sm_TokenLimit m\<bar> \<le> 1) \<and>
    (\<forall>more\<ge>sm_CurrentTokens m. UsagePercent impl m \<le> UsagePercent impl' (m\<lparr>sm_CurrentTokens := more\<rparr>))"
proof (cases "0 < sm_TokenLimit m")
  case False
  then show ?thesis by (simp add: UsagePercent_def)
next
  case True
  let ?c = "sm_CurrentTokens m" and ?l = "sm_TokenLimit m"
  let ?u = "usage_ratio ?c ?l"
  have u: "UsagePercent impl m = min 100 \<lfloor>?u\<rfloor>" using UsagePercent_ratio [OF True assms] .
  have nonneg: "0 \<le> \<lfloor>?u\<rfloor>" using usage_ratio_nonneg [OF True assms] by simp
  have full: "100 \<le> \<lfloor>?u\<rfloor>" if "?l \<le> ?c"
    using floor_mono [OF usage_ratio_mono [OF True that]] by (simp add: usage_ratio_full [OF True])
  have near: "\<bar>min 100 \<lfloor>?u\<rfloor> - 100 * ?c div ?l\<bar> \<le> 1" if "?c \<le> ?l"
  proof -
    have "100 * ?c div ?l = \<lfloor>100 * rat_of_int ?c / rat_of_int ?l\<rfloor>"
      using floor_divide_of_int_eq [of "100 * ?c" ?l, where 'a = rat] by simp
    then have "\<bar>\<lfloor>?u\<rfloor> - 100 * ?c div ?l\<bar> \<le> 1"
      using usage_ratio_near [OF True assms that] by (simp add: abs_le_iff) linarith
    moreover have "\<lfloor>?u\<rfloor> \<le> 100"
      using floor_mono [OF usage_ratio_mono [OF True that]] by (simp add: usage_ratio_full [OF True])
    ultimately show ?thesis by simp
  qed
  have mono: "min 100 \<lfloor>?u\<rfloor> \<le> UsagePercent impl' (m\<lparr>sm_CurrentTokens := more\<rparr>)" if "?c \<le> more" for more
    using UsagePercent_ratio [of "m\<lparr>sm_CurrentTokens := more\<rparr>"] floor_mono [OF usage_ratio_mono [OF True that]] True assms that
    by simp
  show ?thesis unfolding u using True nonneg full near mono by auto
qed

text \<open>The product is rounded, so a percentage can fall short of the exact one: 29 of 100 is 28.\<close>

lemma UsagePercent_short:
  "UsagePercent impl (zero_SessionMetrics\<lparr>sm_CurrentTokens := 29, sm_TokenLimit := 100\<rparr>) = 28"
  by (simp add: UsagePercent_def zero_SessionMetrics_def f64_of_int_def fl64_int [of 29, simplified]) code_simp

theorem UsagePercent_bounds_witness:
  "UsagePercent (\<lambda>_. 7) (zero_SessionMetrics\<lparr>sm_CurrentTokens := 130, sm_TokenLimit := 100\<rparr>) = 100"
  using UsagePercent_bounds [of "zero_SessionMetrics\<lparr>sm_CurrentTokens := 130, sm_TokenLimit := 100\<rparr>" "\<lambda>_. 7" "\<lambda>_. 7"]
  by (simp add: zero_SessionMetrics_def)

fun strategy_rank :: "ResurrectionStrategy \<Rightarrow> nat" where
  "strategy_rank StrategyFull = 0"
| "strategy_rank StrategyCheckpoint = 1"
| "strategy_rank StrategyFresh = 2"

lemma strategy_mono:
  "tracker_ok t \<Longrightarrow> u \<le> v \<Longrightarrow>
   strategy_rank (SelectResurrectionStrategy t u) \<le> strategy_rank (SelectResurrectionStrategy t v)"
  by (auto simp: SelectResurrectionStrategy_def tracker_ok_def)

lemma strategy_all: "tracker_ok t \<Longrightarrow> \<exists>u. SelectResurrectionStrategy t u = s"
proof -
  assume ok: "tracker_ok t"
  let ?f = "cfg_ResurrectionFullThreshold (tr_config t)" and ?c = "cfg_ResurrectionCheckpointThreshold (tr_config t)"
  have "SelectResurrectionStrategy t (?f - 1) = StrategyFull" "SelectResurrectionStrategy t ?f = StrategyCheckpoint"
    "SelectResurrectionStrategy t ?c = StrategyFresh"
    using ok by (auto simp: SelectResurrectionStrategy_def tracker_ok_def)
  then show ?thesis by (cases s) blast+
qed

text \<open>Whatever clients do to a tracker made with a configuration, it selects by the configured
  thresholds: below the first the full session is restored, from there to below the second a
  checkpoint, and from the second on the session starts fresh. All three are selectable, more
  usage never selects a fuller restoration, and a session without metrics starts fresh with an error.\<close>

lemma SelectStrategy_correct:
  fixes ops :: "tracker_op list"
  assumes "NewTracker config = Inr t0"
  defines "t \<equiv> fold apply_op ops t0"
  shows "cfg_ResurrectionFullThreshold config < cfg_ResurrectionCheckpointThreshold config \<and>
    (SelectResurrectionStrategy t u = StrategyFull) = (u < cfg_ResurrectionFullThreshold config) \<and>
    (SelectResurrectionStrategy t u = StrategyFresh) = (cfg_ResurrectionCheckpointThreshold config \<le> u) \<and>
    (\<forall>s. \<exists>u. SelectResurrectionStrategy t u = s) \<and>
    (u \<le> v \<longrightarrow> strategy_rank (SelectResurrectionStrategy t u) \<le> strategy_rank (SelectResurrectionStrategy t v)) \<and>
    SelectResurrectionStrategyForSession impl t i =
      (case mlookup (tr_sessions t) i of
         None \<Rightarrow> (StrategyFresh, Some (NoMetrics i))
       | Some m \<Rightarrow> (SelectResurrectionStrategy t (UsagePercent impl m), None))"
proof -
  have ok: "tracker_ok t" and c: "tr_config t = config"
    using NewTracker_ok [OF assms(1)] run_ok run_config by (auto simp: t_def)
  show ?thesis
    using strategy_mono [OF ok] strategy_all [OF ok] ok c
    by (auto simp: SelectResurrectionStrategy_def SelectResurrectionStrategyForSession_def GetMetrics_def tracker_ok_def
        split: option.splits)
qed

text \<open>C40: The metrics a session ends with account for exactly its own history since its start, however
  the operations of other sessions are interleaved: the tokens of its last update, its updates and
  compactions counted modulo $2^{32}$, and the time of the last compaction; after that the session
  is gone. At any time the sessions to compact are, each once, those whose tokens reach the
  threshold.\<close>

theorem session_history:
  fixes now limit :: int and i task :: string
  assumes "tracker_ok t" "\<forall>p\<in>set ops. op_session p = i \<longrightarrow> is_progress p"
  defines "t' \<equiv> fold apply_op ops (StartSession now i task limit t)"
  shows "fst (EndSession i t') =
      (\<lparr>sm_SessionID = i, sm_TaskID = task, sm_CurrentTokens = last (0 # updates_of i ops), sm_TokenLimit = limit,
        sm_TurnCount = of_nat (length (updates_of i ops)), sm_CompactionCount = of_nat (length (compactions_of i ops)),
        sm_LastCompaction = last (0 # compactions_of i ops), sm_StartTime = now\<rparr>, True) \<and>
    GetMetrics t' i = fst (EndSession i t') \<and>
    GetMetrics (snd (EndSession i t')) i = (zero_SessionMetrics, False) \<and>
    ActiveSessionCount t' = Suc (ActiveSessionCount (snd (EndSession i t'))) \<and>
    distinct (CheckCompaction t') \<and>
    set (CheckCompaction t') =
      {j. snd (GetMetrics t' j) \<and> cfg_TokenThreshold (tr_config t) \<le> sm_CurrentTokens (fst (GetMetrics t' j))}"
proof -
  let ?m = "zero_SessionMetrics\<lparr>sm_SessionID := i, sm_TaskID := task, sm_TokenLimit := limit, sm_StartTime := now\<rparr>"
  have l: "mlookup (tr_sessions t') i = Some (advance i ops ?m)"
    unfolding t'_def by (rule history_lookup [OF assms(2)]) (simp add: StartSession_def)
  have ok: "tracker_ok t'"
    unfolding t'_def using apply_op_ok [of t "OpStart i task limit now"] assms(1) by (intro run_ok) simp
  then have wf: "mwf (tr_sessions t')" by (simp add: tracker_ok_def)
  have c: "tr_config t' = tr_config t" by (simp add: t'_def run_config StartSession_def)
  have k: "i \<in> set (mkeys (tr_sessions t'))" using l by (rule mlookup_Some_keys)
  have "mlen (tr_sessions t') = Suc (mlen (mdel i (tr_sessions t')))"
    using wf k card_Suc_Diff1 [OF finite_set k] by (simp add: mlen_card)
  then show ?thesis
    using l wf distinct_needing [OF wf] set_needing [OF wf]
    by (auto simp: EndSession_def GetMetrics_def ActiveSessionCount_def CheckCompaction_def c advance_def
        zero_SessionMetrics_def split: option.splits)
qed

theorem session_history_witness:
  "fst (EndSession ''a'' (fold apply_op
      [OpUpdate ''a'' 10, OpStart ''b'' ''u'' 50 2, OpUpdate ''b'' 7, OpCompact ''a'' 3, OpEnd ''b'', OpUpdate ''a'' 4]
      (StartSession 1 ''a'' ''t'' 100 \<lparr>tr_config = DefaultConfig, tr_sessions = []\<rparr>))) =
    (\<lparr>sm_SessionID = ''a'', sm_TaskID = ''t'', sm_CurrentTokens = 4, sm_TokenLimit = 100, sm_TurnCount = 2,
      sm_CompactionCount = 1, sm_LastCompaction = 3, sm_StartTime = 1\<rparr>, True)"
  using session_history [of "\<lparr>tr_config = DefaultConfig, tr_sessions = []\<rparr>"
      "[OpUpdate ''a'' 10, OpStart ''b'' ''u'' 50 2, OpUpdate ''b'' 7, OpCompact ''a'' 3, OpEnd ''b'', OpUpdate ''a'' 4]"
      "''a''" 1 "''t''" 100]
  by (simp add: tracker_ok_def DefaultConfig_def)

end
