(* ===== verification/Queue.thy ===== *)
theory Queue
  imports Prelude
begin

text \<open>
  The JetStream queue (\<open>src/internal/queue/nats.go\<close>) and the header propagation it uses
  (\<open>src/internal/telemetry/nats.go\<close>). The NATS client, the OpenTelemetry propagator and tracer and
  the JSON encoder are parameters; operations return the calls they make on them. Contexts have an
  abstract type \<open>'c\<close>.
\<close>

section \<open>Configuration\<close>

definition defaultAckWait :: nat where "defaultAckWait = 30"
definition defaultMaxDeliver :: nat where "defaultMaxDeliver = 3"

record QueueConfig =
  qc_URL :: string
  qc_Stream :: string
  qc_Subject :: string

record ConsumerConfig =
  cc_Name :: string
  cc_Durable :: string
  cc_FilterSubject :: string
  cc_AckExplicit :: bool
  cc_AckWait :: nat
  cc_MaxDeliver :: nat

record Consumer =
  q_stream :: string
  q_subject :: string
  q_consumer :: ConsumerConfig

datatype queue_error =
    ConnectFailed string string
  | JetStreamFailed string
  | CreateStreamFailed string string
  | CreateConsumerFailed string
  | PublisherFailed string
  | MarshalFailed string
  | PublishToFailed string string

text \<open>The answers of the NATS library to the calls of the constructor; \<open>None\<close> is success.\<close>

record nats_env =
  n_Connect :: "string \<Rightarrow> string option"
  n_JetStream :: "string option"
  n_Stream :: "string \<Rightarrow> string option"
  n_CreateStream :: "string \<Rightarrow> string list \<Rightarrow> string option"
  n_CreateConsumer :: "string \<Rightarrow> ConsumerConfig \<Rightarrow> string option"

datatype nats_call =
    Connect string
  | StreamInfo string
  | CreateStream string "string list"
  | CreateOrUpdateConsumer string ConsumerConfig
  | Close
  | Drain

definition consumer_config :: "QueueConfig \<Rightarrow> ConsumerConfig" where
  "consumer_config cfg = \<lparr>cc_Name = ''proxy-consumer'', cc_Durable = ''proxy-consumer'',
     cc_FilterSubject = qc_Subject cfg, cc_AckExplicit = True, cc_AckWait = defaultAckWait,
     cc_MaxDeliver = defaultMaxDeliver\<rparr>"

definition ensure_stream :: "nats_env \<Rightarrow> QueueConfig \<Rightarrow> nats_call list \<times> string option" where
  "ensure_stream env cfg =
     (case n_Stream env (qc_Stream cfg) of
        None \<Rightarrow> ([StreamInfo (qc_Stream cfg)], None)
      | Some _ \<Rightarrow>
          ([StreamInfo (qc_Stream cfg), CreateStream (qc_Stream cfg) [qc_Subject cfg]],
           n_CreateStream env (qc_Stream cfg) [qc_Subject cfg]))"

definition NewConsumer :: "nats_env \<Rightarrow> QueueConfig \<Rightarrow> nats_call list \<times> (queue_error + Consumer)" where
  "NewConsumer env cfg =
     (case n_Connect env (qc_URL cfg) of
        Some err \<Rightarrow> ([], Inl (ConnectFailed (qc_URL cfg) err))
      | None \<Rightarrow>
          (case n_JetStream env of
             Some err \<Rightarrow> ([Connect (qc_URL cfg), Close], Inl (JetStreamFailed err))
           | None \<Rightarrow>
               (case ensure_stream env cfg of
                  (calls, Some err) \<Rightarrow>
                    (Connect (qc_URL cfg) # calls @ [Close], Inl (CreateStreamFailed (qc_Stream cfg) err))
                | (calls, None) \<Rightarrow>
                    (let calls' = Connect (qc_URL cfg) # calls @ [CreateOrUpdateConsumer (qc_Stream cfg) (consumer_config cfg)] in
                     case n_CreateConsumer env (qc_Stream cfg) (consumer_config cfg) of
                       Some err \<Rightarrow> (calls' @ [Close], Inl (CreateConsumerFailed err))
                     | None \<Rightarrow>
                         (calls', Inr \<lparr>q_stream = qc_Stream cfg, q_subject = qc_Subject cfg,
                                       q_consumer = consumer_config cfg\<rparr>)))))"

text \<open>The publisher shares the consumer's connection; \<open>js\<close> is the answer of the library. Closing the
  consumer drains that connection.\<close>

definition NewPublisher :: "string option \<Rightarrow> queue_error option" where
  "NewPublisher js = map_option PublisherFailed js"

definition Consumer_Close :: "nats_call list" where
  "Consumer_Close = [Drain]"

section \<open>Messages and trace context\<close>

type_synonym header = "(string, string list) gomap"

record 'c otel =
  o_Inject :: "'c \<Rightarrow> header \<Rightarrow> header"
  o_Extract :: "'c \<Rightarrow> header \<Rightarrow> 'c"
  o_Start :: "string \<Rightarrow> 'c \<Rightarrow> 'c"

definition InjectNATSHeaders :: "'c otel \<Rightarrow> 'c \<Rightarrow> header option \<Rightarrow> header" where
  "InjectNATSHeaders tel ctx headers = o_Inject tel ctx (case headers of None \<Rightarrow> [] | Some h \<Rightarrow> h)"

definition ExtractNATSHeaders :: "'c otel \<Rightarrow> 'c \<Rightarrow> header option \<Rightarrow> 'c" where
  "ExtractNATSHeaders tel ctx headers = (case headers of None \<Rightarrow> ctx | Some h \<Rightarrow> o_Extract tel ctx h)"

record nats_msg =
  n_Subject :: string
  n_Data :: string
  n_Header :: "header option"

definition PublishJSON ::
  "'c otel \<Rightarrow> ('v \<Rightarrow> string + string) \<Rightarrow> (nats_msg \<Rightarrow> string option) \<Rightarrow> 'c \<Rightarrow> string \<Rightarrow> 'v \<Rightarrow>
   nats_msg list \<times> queue_error option" where
  "PublishJSON tel marshal pub ctx subject v =
     (case marshal v of
        Inl err \<Rightarrow> ([], Some (MarshalFailed err))
      | Inr d \<Rightarrow>
          (let ctx' = o_Start tel ''nats.publish'' ctx;
               msg = \<lparr>n_Subject = subject, n_Data = d, n_Header = Some (InjectNATSHeaders tel ctx' (Some []))\<rparr>
           in case pub msg of
                Some err \<Rightarrow> ([], Some (PublishToFailed subject err))
              | None \<Rightarrow> ([msg], None)))"

section \<open>Consuming\<close>

text \<open>A delivery: the message, its delivery count (\<open>None\<close> where \<open>Metadata\<close> gives none) and what the
  server will answer to the acknowledgement calls.\<close>

record delivery =
  d_msg :: nats_msg
  d_NumDelivered :: "nat option"
  d_AckErr :: "string option"
  d_NakErr :: "string option"
  d_TermErr :: "string option"

datatype 'c consume_event =
    HandlerCalled 'c string
  | MsgAck
  | MsgNak
  | MsgTerm
  | SpanError string
  | LogError string string
  | NilMetadata

type_synonym 'c handler = "'c \<Rightarrow> string \<Rightarrow> string option"

definition log_failure :: "string \<Rightarrow> string option \<Rightarrow> 'c consume_event list" where
  "log_failure what err = (case err of None \<Rightarrow> [] | Some e \<Rightarrow> [LogError what e])"

definition processMessage :: "'c otel \<Rightarrow> 'c \<Rightarrow> delivery \<Rightarrow> 'c handler \<Rightarrow> 'c consume_event list" where
  "processMessage tel ctx d handler =
     (let consumeCtx = o_Start tel ''nats.consume'' (ExtractNATSHeaders tel ctx (n_Header (d_msg d))) in
      case d_NumDelivered d of
        None \<Rightarrow> [NilMetadata]
      | Some n \<Rightarrow>
          HandlerCalled consumeCtx (n_Data (d_msg d)) #
          (case handler consumeCtx (n_Data (d_msg d)) of
             Some err \<Rightarrow>
               SpanError err #
               (if defaultMaxDeliver \<le> n then MsgTerm # log_failure ''term failed'' (d_TermErr d)
                else MsgNak # log_failure ''nack failed'' (d_NakErr d))
           | None \<Rightarrow>
               MsgAck #
               (case d_AckErr d of None \<Rightarrow> [] | Some e \<Rightarrow> [SpanError e, LogError ''ack failed'' e])))"

text \<open>One turn of the fetch loop: whether the context has ended before the fetch, what the fetch gives,
  and whether the context has ended after it. \<open>True\<close> in the result of \<open>Run\<close> says that it returned.\<close>

datatype fetched = FetchFailed string | FetchedBatch "delivery list" "string option"

record run_turn =
  u_DoneBefore :: bool
  u_Fetch :: fetched
  u_DoneAfter :: bool

fun Run :: "'c otel \<Rightarrow> 'c \<Rightarrow> 'c handler \<Rightarrow> run_turn list \<Rightarrow> 'c consume_event list \<times> bool" where
  "Run tel ctx handler [] = ([], False)"
| "Run tel ctx handler (u # us) =
     (if u_DoneBefore u then ([], True)
      else case u_Fetch u of
             FetchFailed _ \<Rightarrow> if u_DoneAfter u then ([], True) else Run tel ctx handler us
           | FetchedBatch ds err \<Rightarrow>
               (let evs = concat (map (\<lambda>d. processMessage tel ctx d handler) ds) in
                if err \<noteq> None \<and> u_DoneAfter u then (evs, True)
                else (case Run tel ctx handler us of (evs', r) \<Rightarrow> (evs @ evs', r))))"

section \<open>Lemmas\<close>

definition handled :: "'c consume_event list \<Rightarrow> string list" where
  "handled evs = concat (map (\<lambda>e. case e of HandlerCalled _ d \<Rightarrow> [d] | _ \<Rightarrow> []) evs)"

definition settlements :: "'c consume_event list \<Rightarrow> 'c consume_event list" where
  "settlements evs = filter (\<lambda>e. e \<in> {MsgAck, MsgNak, MsgTerm}) evs"

lemma handled_simps [simp]:
  "handled [] = []"
  "handled (HandlerCalled c d # evs) = d # handled evs"
  "handled (MsgAck # evs) = handled evs" "handled (MsgNak # evs) = handled evs"
  "handled (MsgTerm # evs) = handled evs" "handled (SpanError e # evs) = handled evs"
  "handled (LogError w e # evs) = handled evs" "handled (NilMetadata # evs) = handled evs"
  "handled (xs @ ys) = handled xs @ handled ys"
  by (simp_all add: handled_def)

lemma log_failure_events [simp]: "handled (log_failure w e) = []" "settlements (log_failure w e) = []"
  by (simp_all add: log_failure_def settlements_def split: option.splits)

lemma settlements_simps [simp]:
  "settlements [] = []"
  "settlements (HandlerCalled c d # evs) = settlements evs"
  "settlements (MsgAck # evs) = MsgAck # settlements evs"
  "settlements (MsgNak # evs) = MsgNak # settlements evs"
  "settlements (MsgTerm # evs) = MsgTerm # settlements evs"
  "settlements (SpanError e # evs) = settlements evs"
  "settlements (LogError w e # evs) = settlements evs"
  "settlements (xs @ ys) = settlements xs @ settlements ys"
  by (simp_all add: settlements_def)

lemma processMessage_handled:
  "d_NumDelivered d = Some n \<Longrightarrow> handled (processMessage tel ctx d handler) = [n_Data (d_msg d)]"
  by (simp add: processMessage_def Let_def split: option.splits)

lemma processMessage_settles:
  "d_NumDelivered d = Some n \<Longrightarrow>
   settlements (processMessage tel ctx d handler) =
     [case handler (o_Start tel ''nats.consume'' (ExtractNATSHeaders tel ctx (n_Header (d_msg d)))) (n_Data (d_msg d)) of
        None \<Rightarrow> MsgAck | Some _ \<Rightarrow> if 3 \<le> n then MsgTerm else MsgNak]"
  by (simp add: processMessage_def Let_def defaultMaxDeliver_def split: option.splits)

definition batch_of :: "run_turn \<Rightarrow> delivery list" where
  "batch_of u = (case u_Fetch u of FetchFailed _ \<Rightarrow> [] | FetchedBatch ds _ \<Rightarrow> ds)"

definition stops :: "run_turn \<Rightarrow> bool" where
  "stops u \<longleftrightarrow> u_DoneBefore u \<or> u_DoneAfter u \<and> (case u_Fetch u of FetchFailed _ \<Rightarrow> True | FetchedBatch _ err \<Rightarrow> err \<noteq> None)"

text \<open>The deliveries the loop takes up: those of all turns before the first that stops it, and of
  that turn too unless the context had ended before its fetch.\<close>

fun taken :: "run_turn list \<Rightarrow> delivery list" where
  "taken [] = []"
| "taken (u # us) = (if u_DoneBefore u then [] else batch_of u @ (if stops u then [] else taken us))"

lemma Run_taken:
  "Run tel ctx handler us = (concat (map (\<lambda>d. processMessage tel ctx d handler) (taken us)), \<exists>u\<in>set us. stops u)"
proof (induction us)
  case (Cons u us)
  then show ?case by (cases "u_Fetch u") (auto simp: stops_def batch_of_def Let_def)
qed simp

lemma handled_concat:
  "\<forall>d\<in>set ds. d_NumDelivered d \<noteq> None \<Longrightarrow>
   handled (concat (map (\<lambda>d. processMessage tel ctx d handler) ds)) = map (\<lambda>d. n_Data (d_msg d)) ds"
  by (induction ds) (auto simp: processMessage_handled)

lemma settled_concat:
  "\<forall>d\<in>set ds. d_NumDelivered d \<noteq> None \<Longrightarrow>
   length (settlements (concat (map (\<lambda>d. processMessage tel ctx d handler) ds))) = length ds"
  by (induction ds) (auto simp: processMessage_settles)

text \<open>A failed constructor leaves no connection open, a successful one leaves it open, with a durable
  consumer that acknowledges explicitly and delivers a message at most three times.\<close>

lemma NewConsumer_closes:
  "case NewConsumer env cfg of
     (calls, Inl err) \<Rightarrow> calls = [] \<or> hd calls = Connect (qc_URL cfg) \<and> last calls = Close \<and> count_list calls Close = 1
   | (calls, Inr c) \<Rightarrow> Close \<notin> set calls \<and> last calls = CreateOrUpdateConsumer (qc_Stream cfg) (q_consumer c) \<and>
       cc_FilterSubject (q_consumer c) = qc_Subject cfg \<and> cc_AckExplicit (q_consumer c) \<and> cc_MaxDeliver (q_consumer c) = 3"
  by (auto simp: NewConsumer_def ensure_stream_def consumer_config_def defaultMaxDeliver_def Let_def split: option.splits)

lemma NewConsumer_succeeds:
  "(\<exists>c. snd (NewConsumer env cfg) = Inr c) \<longleftrightarrow>
   n_Connect env (qc_URL cfg) = None \<and> n_JetStream env = None \<and>
   (n_Stream env (qc_Stream cfg) = None \<or> n_CreateStream env (qc_Stream cfg) [qc_Subject cfg] = None) \<and>
   n_CreateConsumer env (qc_Stream cfg) (consumer_config cfg) = None"
  by (auto simp: NewConsumer_def ensure_stream_def Let_def split: option.splits)

text \<open>A published value reaches the handler as it was encoded, in the trace of its publisher, if the
  propagator restores from headers the trace it put there and spans stay in their trace.\<close>

lemma publish_consume:
  assumes "PublishJSON tel marshal pub ctx subject v = ([msg], None)"
    and "d_msg d = msg" "d_NumDelivered d = Some n"
    and "\<And>c c'. trace (o_Extract tel c (o_Inject tel c' [])) = trace c'"
    and "\<And>name c. trace (o_Start tel name c) = trace c"
  shows "\<exists>c body evs. marshal v = Inr body \<and> n_Subject msg = subject \<and>
    processMessage tel ctx' d handler = HandlerCalled c body # evs \<and> trace c = trace ctx"
proof -
  obtain body where body: "marshal v = Inr body" and msg: "msg = \<lparr>n_Subject = subject, n_Data = body,
      n_Header = Some (o_Inject tel (o_Start tel ''nats.publish'' ctx) [])\<rparr>"
    using assms(1) by (auto simp: PublishJSON_def Let_def InjectNATSHeaders_def split: sum.splits option.splits)
  then show ?thesis using assms(2-)
    by (simp add: processMessage_def Let_def ExtractNATSHeaders_def)
qed

section \<open>Properties\<close>

text \<open>The server took the settlement of a delivery as final.\<close>

definition settled :: "'c otel \<Rightarrow> 'c \<Rightarrow> 'c handler \<Rightarrow> delivery \<Rightarrow> bool" where
  "settled tel ctx handler d \<longleftrightarrow>
     MsgAck \<in> set (processMessage tel ctx d handler) \<and> d_AckErr d = None \<or>
     MsgTerm \<in> set (processMessage tel ctx d handler) \<and> d_TermErr d = None"

lemma settled_iff:
  "d_NumDelivered d = Some n \<Longrightarrow>
   settled tel ctx handler d \<longleftrightarrow>
     (case handler (o_Start tel ''nats.consume'' (ExtractNATSHeaders tel ctx (n_Header (d_msg d)))) (n_Data (d_msg d)) of
        None \<Rightarrow> d_AckErr d = None | Some _ \<Rightarrow> 3 \<le> n \<and> d_TermErr d = None)"
  by (auto simp: settled_def processMessage_def Let_def defaultMaxDeliver_def log_failure_def split: option.splits)

text \<open>C19: Every delivery is handed to the handler once and settled once: acknowledged if the handler
  succeeded, otherwise returned to the server or, from the third delivery on, terminated. So when
  the server numbers deliveries from one, takes acknowledgements and terminations, and delivers a
  message no more after them, a message is handled at most three times, and a message the handler fails on every
  time is terminated at the third.\<close>

theorem redelivery_bounded:
  assumes "\<forall>i<length ds. d_NumDelivered (ds ! i) = Some (Suc i) \<and> d_TermErr (ds ! i) = None"
    and "\<forall>i. Suc i < length ds \<longrightarrow> \<not> settled tel ctx (handlers i) (ds ! i)"
    and "\<forall>d\<in>set ds. d_AckErr d = None"
  shows "length ds \<le> 3 \<and>
    (\<forall>i<length ds. handled (processMessage tel ctx (ds ! i) (handlers i)) = [n_Data (d_msg (ds ! i))] \<and>
      settlements (processMessage tel ctx (ds ! i) (handlers i)) =
        [if Suc i = length ds \<and> settled tel ctx (handlers i) (ds ! i)
         then (if handlers i (o_Start tel ''nats.consume'' (ExtractNATSHeaders tel ctx (n_Header (d_msg (ds ! i))))) (n_Data (d_msg (ds ! i))) = None
               then MsgAck else MsgTerm)
         else MsgNak]) \<and>
    (length ds = 3 \<longrightarrow> settled tel ctx (handlers 2) (ds ! 2))"
proof -
  have num: "d_NumDelivered (ds ! i) = Some (Suc i)" "d_TermErr (ds ! i) = None" "d_AckErr (ds ! i) = None"
    if "i < length ds" for i using assms(1,3) that by simp_all
  have third: "settled tel ctx (handlers 2) (ds ! 2)" if "2 < length ds"
    unfolding settled_iff [OF num(1) [OF that]] using num [OF that] by (simp split: option.splits)
  have len: "length ds \<le> 3"
  proof (rule ccontr)
    assume "\<not> length ds \<le> 3"
    then have "Suc 2 < length ds" by simp
    then show False using assms(2) third by simp
  qed
  have step: "settlements (processMessage tel ctx (ds ! i) (handlers i)) =
      [if Suc i = length ds \<and> settled tel ctx (handlers i) (ds ! i)
       then (if handlers i (o_Start tel ''nats.consume'' (ExtractNATSHeaders tel ctx (n_Header (d_msg (ds ! i))))) (n_Data (d_msg (ds ! i))) = None
             then MsgAck else MsgTerm)
       else MsgNak]" if "i < length ds" for i
    using processMessage_settles [OF num(1) [OF that], of tel ctx "handlers i"] settled_iff [OF num(1) [OF that], of tel ctx "handlers i"]
      num [OF that] assms(2) that
    by (cases "Suc i = length ds") (auto split: option.splits)
  show ?thesis using len third step processMessage_handled [OF num(1)] by auto
qed

text \<open>C20: Until its context ends the consumer takes up every fetched delivery, in the order fetched,
  gives each to the handler exactly once and settles each; it returns exactly when a turn finds the
  context ended, before a fetch or at a failing one, and takes nothing up after that.\<close>

theorem Run_correct:
  assumes "\<forall>d\<in>set (taken us). d_NumDelivered d \<noteq> None"
  shows "handled (fst (Run tel ctx handler us)) = map (\<lambda>d. n_Data (d_msg d)) (taken us) \<and>
    length (settlements (fst (Run tel ctx handler us))) = length (taken us) \<and>
    snd (Run tel ctx handler us) = (\<exists>u\<in>set us. stops u) \<and>
    taken us = (case find stops us of
       None \<Rightarrow> concat (map batch_of us)
     | Some u \<Rightarrow> concat (map batch_of (takeWhile (\<lambda>u. \<not> stops u) us)) @ (if u_DoneBefore u then [] else batch_of u))"
proof -
  have "taken us = (case find stops us of
       None \<Rightarrow> concat (map batch_of us)
     | Some u \<Rightarrow> concat (map batch_of (takeWhile (\<lambda>u. \<not> stops u) us)) @ (if u_DoneBefore u then [] else batch_of u))"
  proof (induction us)
    case (Cons u us)
    have "u_DoneBefore u \<Longrightarrow> stops u" by (simp add: stops_def)
    with Cons show ?case by (cases "find stops us") auto
  qed simp
  then show ?thesis
    unfolding Run_taken fst_conv snd_conv
    by (intro conjI handled_concat [OF assms] settled_concat [OF assms] refl)
qed

definition example_delivery :: "nat \<Rightarrow> delivery" where
  "example_delivery n = \<lparr>d_msg = \<lparr>n_Subject = ''agent.tasks.a'', n_Data = ''work'', n_Header = None\<rparr>,
     d_NumDelivered = Some n, d_AckErr = None, d_NakErr = None, d_TermErr = None\<rparr>"

definition example_otel :: "unit otel" where
  "example_otel = \<lparr>o_Inject = (\<lambda>_ h. h), o_Extract = (\<lambda>c _. c), o_Start = (\<lambda>_ c. c)\<rparr>"

theorem redelivery_bounded_witness:
  "settlements (processMessage example_otel () (example_delivery 3) (\<lambda>_ _. Some ''boom'')) = [MsgTerm]"
proof -
  let ?ds = "[example_delivery 1, example_delivery 2, example_delivery 3]"
  have 1: "\<forall>i<length ?ds. d_NumDelivered (?ds ! i) = Some (Suc i) \<and> d_TermErr (?ds ! i) = None"
    by (auto simp: example_delivery_def less_Suc_eq nth_Cons split: nat.splits)
  have 2: "\<forall>i. Suc i < length ?ds \<longrightarrow> \<not> settled example_otel () (\<lambda>_ _. Some ''boom'') (?ds ! i)"
    by (auto simp: settled_def processMessage_def example_delivery_def defaultMaxDeliver_def log_failure_def less_Suc_eq)
  have 3: "\<forall>d\<in>set ?ds. d_AckErr d = None" by (simp add: example_delivery_def)
  show ?thesis using redelivery_bounded [OF 1 2 3] by (auto simp: less_Suc_eq)
qed

theorem Run_correct_witness:
  "handled (fst (Run example_otel () (\<lambda>_ _. None)
     [\<lparr>u_DoneBefore = False, u_Fetch = FetchedBatch [example_delivery 1] None, u_DoneAfter = False\<rparr>,
      \<lparr>u_DoneBefore = False, u_Fetch = FetchFailed ''timeout'', u_DoneAfter = True\<rparr>])) = [''work'']"
  using Run_correct [of "[\<lparr>u_DoneBefore = False, u_Fetch = FetchedBatch [example_delivery 1] None, u_DoneAfter = False\<rparr>,
      \<lparr>u_DoneBefore = False, u_Fetch = FetchFailed ''timeout'', u_DoneAfter = True\<rparr>]" example_otel "()" "\<lambda>_ _. None"]
  by (simp add: stops_def batch_of_def example_delivery_def)

end
