(* ===== verification/AcpClient.thy ===== *)
theory AcpClient
  imports Prelude "HOL-Library.Sublist"
begin

text \<open>
  The ACP client (\<open>src/internal/acp\<close>): JSON-RPC requests and prompts of several goroutines over one
  connection, and the reader that routes what the agent sends. A call owns one reply channel, and a
  prompt also a delta channel; channels are named by the identifier of the call that made them, and
  the client's \<open>pending\<close> map holds the names. Every function below is what one goroutine does
  between two points where others can interleave, and \<open>acp_do\<close> puts them together as a labelled
  transition system. JSON decoding of parameters and results is the parameter \<open>codec\<close>.
\<close>

section \<open>Messages\<close>

record RPCError =
  err_Code :: int
  err_Message :: string

record Response =
  resp_ID :: "int option"
  resp_Result :: string
  resp_Error :: "RPCError option"
  resp_Method :: string
  resp_Params :: string

definition IsNotification :: "Response \<Rightarrow> bool" where
  "IsNotification r \<longleftrightarrow> resp_ID r = None \<and> resp_Method r \<noteq> []"

definition IsServerRequest :: "Response \<Rightarrow> bool" where
  "IsServerRequest r \<longleftrightarrow> resp_Method r \<noteq> [] \<and> resp_ID r \<noteq> None"

record ClientInfo =
  ci_Name :: string
  ci_Version :: string

record InitializeParams =
  ip_ProtocolVersion :: int
  ip_Streaming :: bool
  ip_ClientInfo :: ClientInfo

record SessionNewParams =
  sn_WorkDir :: string
  sn_MCPServers :: "string list"

record PromptPart =
  pp_Type :: string
  pp_Text :: string

record SessionPromptParams =
  sp_SessionID :: string
  sp_Prompt :: "PromptPart list"

record SessionPromptResult =
  sr_SessionID :: string
  sr_Content :: string

record PermissionOutcome =
  po_OptionID :: string

record SessionUpdateContent =
  uc_Type :: string
  uc_Text :: string

record SessionUpdateBody =
  ub_SessionUpdate :: string
  ub_Content :: SessionUpdateContent

record SessionUpdateParams =
  up_SessionID :: string
  up_Update :: SessionUpdateBody

record SessionCancelParams =
  sc_SessionID :: string

datatype acp_params =
    InitParams InitializeParams
  | NewParams SessionNewParams
  | PromptParams SessionPromptParams
  | CancelParams SessionCancelParams

text \<open>What the client writes: requests, results of permission requests, and errors.\<close>

datatype acp_out =
    OutRequest int string acp_params
  | OutApproval int PermissionOutcome
  | OutError int int string

record codec =
  k_Permission :: "string \<Rightarrow> string option"
  k_Update :: "string \<Rightarrow> SessionUpdateParams option"
  k_PromptResult :: "string \<Rightarrow> SessionPromptResult option"
  k_InitResult :: "string \<Rightarrow> int option"
  k_NewResult :: "string \<Rightarrow> string option"

section \<open>State\<close>

datatype pkey = ReplyKey int | DeltaKey string
datatype chan = ReplyChan int | DeltaChan int

datatype acp_error =
    SendError string
  | CtxError string
  | RpcError RPCError
  | ResultError

datatype job = CallJob string acp_params | PromptJob string string

datatype outcome = CallOutcome "acp_error + Response" | PromptOutcome "acp_error + string"

datatype phase = Registered | Waiting | Draining Response | Finished outcome

record thread =
  th_job :: job
  th_phase :: phase
  th_deltas :: "string list"

record Client =
  c_nextID :: int
  c_pending :: "(pkey, chan) gomap"
  c_replies :: "(int, Response list) gomap"
  c_deltas :: "(int, string list) gomap"
  c_threads :: "int \<Rightarrow> thread option"
  c_reading :: bool
  c_sent :: "acp_out list"

definition NewClient :: Client where
  "NewClient = \<lparr>c_nextID = 0, c_pending = [], c_replies = [], c_deltas = [], c_threads = (\<lambda>_. None),
     c_reading = True, c_sent = []\<rparr>"

definition set_phase :: "int \<Rightarrow> phase \<Rightarrow> Client \<Rightarrow> Client" where
  "set_phase i ph c = (case c_threads c i of
     None \<Rightarrow> c
   | Some th \<Rightarrow> c\<lparr>c_threads := (c_threads c)(i \<mapsto> th\<lparr>th_phase := ph\<rparr>)\<rparr>)"

section \<open>Calls and prompts\<close>

definition register_call :: "string \<Rightarrow> acp_params \<Rightarrow> Client \<Rightarrow> Client" where
  "register_call method params c =
     (let i = c_nextID c + 1 in
      c\<lparr>c_nextID := i, c_replies := mput i [] (c_replies c),
        c_pending := mput (ReplyKey i) (ReplyChan i) (c_pending c),
        c_threads := (c_threads c)(i \<mapsto> \<lparr>th_job = CallJob method params, th_phase = Registered, th_deltas = []\<rparr>)\<rparr>)"

definition register_prompt :: "string \<Rightarrow> string \<Rightarrow> Client \<Rightarrow> Client" where
  "register_prompt sessionID prompt c =
     (let i = c_nextID c + 1 in
      c\<lparr>c_nextID := i, c_replies := mput i [] (c_replies c), c_deltas := mput i [] (c_deltas c),
        c_pending := mput (DeltaKey sessionID) (DeltaChan i) (mput (ReplyKey i) (ReplyChan i) (c_pending c)),
        c_threads := (c_threads c)(i \<mapsto> \<lparr>th_job = PromptJob sessionID prompt, th_phase = Registered, th_deltas = []\<rparr>)\<rparr>)"

fun request_of :: "job \<Rightarrow> string \<times> acp_params" where
  "request_of (CallJob method params) = (method, params)"
| "request_of (PromptJob sessionID prompt) =
     (''session/prompt'', PromptParams \<lparr>sp_SessionID = sessionID, sp_Prompt = [\<lparr>pp_Type = ''text'', pp_Text = prompt\<rparr>]\<rparr>)"

definition sendRequest :: "int \<Rightarrow> job \<Rightarrow> Client \<Rightarrow> Client" where
  "sendRequest i j c = c\<lparr>c_sent := c_sent c @ [OutRequest i (fst (request_of j)) (snd (request_of j))]\<rparr>"

text \<open>A call deletes its entry on every return; a prompt deletes its delta entry on every return, and
  its reply entry only when it returns without a reply.\<close>

definition return_call :: "int \<Rightarrow> acp_error + Response \<Rightarrow> Client \<Rightarrow> Client" where
  "return_call i out c = set_phase i (Finished (CallOutcome out)) (c\<lparr>c_pending := mdel (ReplyKey i) (c_pending c)\<rparr>)"

definition abandon_prompt :: "int \<Rightarrow> string \<Rightarrow> acp_error \<Rightarrow> Client \<Rightarrow> Client" where
  "abandon_prompt i sessionID err c =
     set_phase i (Finished (PromptOutcome (Inl err)))
       (c\<lparr>c_pending := mdel (DeltaKey sessionID) (mdel (ReplyKey i) (c_pending c))\<rparr>)"

definition return_prompt :: "int \<Rightarrow> string \<Rightarrow> acp_error + string \<Rightarrow> Client \<Rightarrow> Client" where
  "return_prompt i sessionID out c =
     set_phase i (Finished (PromptOutcome out)) (c\<lparr>c_pending := mdel (DeltaKey sessionID) (c_pending c)\<rparr>)"

definition give_up :: "int \<Rightarrow> job \<Rightarrow> acp_error \<Rightarrow> Client \<Rightarrow> Client" where
  "give_up i j err c = (case j of
     CallJob _ _ \<Rightarrow> return_call i (Inl err) c
   | PromptJob sessionID _ \<Rightarrow> abandon_prompt i sessionID err c)"

definition call_outcome :: "Response \<Rightarrow> acp_error + Response" where
  "call_outcome resp = (case resp_Error resp of Some e \<Rightarrow> Inl (RpcError e) | None \<Rightarrow> Inr resp)"

definition prompt_outcome :: "codec \<Rightarrow> Response \<Rightarrow> string list \<Rightarrow> acp_error + string" where
  "prompt_outcome k resp deltas =
     (case resp_Error resp of
        Some e \<Rightarrow> Inl (RpcError e)
      | None \<Rightarrow>
          (case k_PromptResult k (resp_Result resp) of
             None \<Rightarrow> if 0 < length deltas then Inr (concat deltas) else Inl ResultError
           | Some result \<Rightarrow> if sr_Content result \<noteq> [] then Inr (sr_Content result) else Inr (concat deltas)))"

text \<open>The wrappers over a finished call.\<close>

definition Initialize :: "codec \<Rightarrow> (string \<Rightarrow> acp_params \<Rightarrow> acp_error + Response) \<Rightarrow> acp_error + int" where
  "Initialize k call =
     (case call ''initialize'' (InitParams \<lparr>ip_ProtocolVersion = 1, ip_Streaming = True,
                                  ip_ClientInfo = \<lparr>ci_Name = ''daedalus-proxy'', ci_Version = ''0.1.0''\<rparr>\<rparr>) of
        Inl err \<Rightarrow> Inl err
      | Inr resp \<Rightarrow> (case k_InitResult k (resp_Result resp) of None \<Rightarrow> Inl ResultError | Some r \<Rightarrow> Inr r))"

definition NewSession :: "codec \<Rightarrow> (string \<Rightarrow> acp_params \<Rightarrow> acp_error + Response) \<Rightarrow> string \<Rightarrow> acp_error + string" where
  "NewSession k call workDir =
     (case call ''session/new'' (NewParams \<lparr>sn_WorkDir = workDir, sn_MCPServers = []\<rparr>) of
        Inl err \<Rightarrow> Inl err
      | Inr resp \<Rightarrow> (case k_NewResult k (resp_Result resp) of None \<Rightarrow> Inl ResultError | Some r \<Rightarrow> Inr r))"

definition CancelSession :: "(string \<Rightarrow> acp_params \<Rightarrow> acp_error + Response) \<Rightarrow> string \<Rightarrow> acp_error option" where
  "CancelSession call sessionID =
     (case call ''session/cancel'' (CancelParams \<lparr>sc_SessionID = sessionID\<rparr>) of Inl err \<Rightarrow> Some err | Inr _ \<Rightarrow> None)"

section \<open>The reader\<close>

definition sendResponse :: "bool \<Rightarrow> int \<Rightarrow> PermissionOutcome \<Rightarrow> Client \<Rightarrow> Client" where
  "sendResponse wrote i result c = (if wrote then c\<lparr>c_sent := c_sent c @ [OutApproval i result]\<rparr> else c)"

definition sendRPCError :: "bool \<Rightarrow> int \<Rightarrow> int \<Rightarrow> string \<Rightarrow> Client \<Rightarrow> Client" where
  "sendRPCError wrote i code message c = (if wrote then c\<lparr>c_sent := c_sent c @ [OutError i code message]\<rparr> else c)"

text \<open>\<open>wrote\<close> tells whether writing an answer succeeds; a failure is only logged.\<close>

definition handleServerRequest :: "codec \<Rightarrow> bool \<Rightarrow> int \<Rightarrow> Response \<Rightarrow> Client \<Rightarrow> Client" where
  "handleServerRequest k wrote i msg c =
     (if resp_Method msg = ''session/request_permission''
      then (case k_Permission k (resp_Params msg) of
              None \<Rightarrow> c
            | Some _ \<Rightarrow> sendResponse wrote i \<lparr>po_OptionID = ''allow_once''\<rparr> c)
      else sendRPCError wrote i (-32601) (''method not found: '' @ resp_Method msg) c)"

definition handleNotification :: "codec \<Rightarrow> Response \<Rightarrow> Client \<Rightarrow> Client" where
  "handleNotification k msg c =
     (if resp_Method msg = ''session/update''
      then (case k_Update k (resp_Params msg) of
              None \<Rightarrow> c
            | Some params \<Rightarrow>
                (let txt = uc_Text (ub_Content (up_Update params)) in
                 if ub_SessionUpdate (up_Update params) = ''agent_message_chunk'' \<and> txt \<noteq> []
                 then (case mlookup (c_pending c) (DeltaKey (up_SessionID params)) of
                         Some (DeltaChan i) \<Rightarrow>
                           (if length (mget [] (c_deltas c) i) < 256
                            then c\<lparr>c_deltas := mput i (mget [] (c_deltas c) i @ [txt]) (c_deltas c)\<rparr>
                            else c)
                       | _ \<Rightarrow> c)
                 else c))
      else c)"

definition deliver :: "int \<Rightarrow> Response \<Rightarrow> Client \<Rightarrow> Client" where
  "deliver i msg c = c\<lparr>c_replies := mput i (mget [] (c_replies c) i @ [msg]) (c_replies c)\<rparr>"

definition dispatch :: "codec \<Rightarrow> bool \<Rightarrow> Response \<Rightarrow> Client \<Rightarrow> Client" where
  "dispatch k wrote msg c =
     (case resp_ID msg of
        Some i \<Rightarrow>
          (if IsServerRequest msg then handleServerRequest k wrote i msg c
           else case mlookup (c_pending c) (ReplyKey i) of
                  None \<Rightarrow> c
                | Some ch \<Rightarrow>
                    (let c' = c\<lparr>c_pending := mdel (ReplyKey i) (c_pending c)\<rparr> in
                     case ch of ReplyChan j \<Rightarrow> deliver j msg c' | DeltaChan _ \<Rightarrow> c'))
      | None \<Rightarrow> if IsNotification msg then handleNotification k msg c else c)"

definition closed_response :: Response where
  "closed_response = \<lparr>resp_ID = None, resp_Result = [],
     resp_Error = Some \<lparr>err_Code = -32000, err_Message = ''connection closed''\<rparr>, resp_Method = [], resp_Params = []\<rparr>"

fun fail_pending :: "(pkey \<times> chan) list \<Rightarrow> Client \<Rightarrow> Client" where
  "fail_pending [] c = c"
| "fail_pending ((key, ch) # ps) c =
     fail_pending ps (case ch of ReplyChan i \<Rightarrow> deliver i closed_response c | DeltaChan _ \<Rightarrow> c)"

definition read_eof :: "Client \<Rightarrow> Client" where
  "read_eof c = fail_pending (c_pending c) (c\<lparr>c_reading := False\<rparr>)"

section \<open>Connecting\<close>

text \<open>
  The connection around the calls. \<open>k_cancel\<close> is \<open>None\<close> for a nil function, and otherwise says whether
  the reader's context was cancelled. The reader runs from a successful \<open>Connect\<close> on, and its steps
  \<open>ReadCancelled\<close> and \<open>ReadEof\<close> below are what \<open>Close\<close> makes possible.
\<close>

datatype link = NoLink | OpenLink | ClosedLink

record connection =
  k_addr :: string
  k_link :: link
  k_cancel :: "bool option"

definition new_connection :: "string \<Rightarrow> connection" where
  "new_connection addr = \<lparr>k_addr = addr, k_link = NoLink, k_cancel = None\<rparr>"

definition Connect :: "(string \<Rightarrow> string option) \<Rightarrow> connection \<Rightarrow> string option \<times> connection" where
  "Connect dial c = (case dial (k_addr c) of
     Some err \<Rightarrow> (Some (''acp: dial '' @ k_addr c @ '': '' @ err), c)
   | None \<Rightarrow> (None, c\<lparr>k_link := OpenLink, k_cancel := Some False\<rparr>))"

text \<open>Closing a connection that is closed already is an error of the library, \<open>again\<close>.\<close>

definition Close :: "string \<Rightarrow> connection \<Rightarrow> string option \<times> connection" where
  "Close again c =
     (let c = c\<lparr>k_cancel := map_option (\<lambda>_. True) (k_cancel c)\<rparr>
      in case k_link c of
           NoLink \<Rightarrow> (None, c)
         | OpenLink \<Rightarrow> (None, c\<lparr>k_link := ClosedLink\<rparr>)
         | ClosedLink \<Rightarrow> (Some again, c))"

section \<open>The transition system\<close>

text \<open>
  A line the reader scans decodes to a message or not (empty and malformed lines are skipped).
  \<open>ReadEof\<close> is the end of scanning: the connection closed, or a line longer than the buffer of
  $2^{20}$ bytes. \<open>ReadCancelled\<close> is the reader finding its context ended.
\<close>

datatype acp_label =
    StartCall string acp_params
  | StartPrompt string string
  | Sent int
  | SendFailed int string
  | CtxDone int string
  | RecvDelta int
  | RecvReply int
  | DrainDelta int
  | Return int
  | ReadLine "Response option" bool
  | ReadEof
  | ReadCancelled

definition take_delta :: "int \<Rightarrow> thread \<Rightarrow> Client \<Rightarrow> Client option" where
  "take_delta i th c = (case mget [] (c_deltas c) i of
     [] \<Rightarrow> None
   | d # ds \<Rightarrow> Some (c\<lparr>c_deltas := mput i ds (c_deltas c),
       c_threads := (c_threads c)(i \<mapsto> th\<lparr>th_deltas := th_deltas th @ [d]\<rparr>)\<rparr>))"

definition take_reply :: "int \<Rightarrow> job \<Rightarrow> Client \<Rightarrow> Client option" where
  "take_reply i j c = (case mget [] (c_replies c) i of
     [] \<Rightarrow> None
   | r # rs \<Rightarrow>
       (let c' = c\<lparr>c_replies := mput i rs (c_replies c)\<rparr> in
        Some (case j of CallJob _ _ \<Rightarrow> return_call i (call_outcome r) c' | PromptJob _ _ \<Rightarrow> set_phase i (Draining r) c')))"

definition finish_prompt :: "codec \<Rightarrow> int \<Rightarrow> thread \<Rightarrow> Client \<Rightarrow> Client option" where
  "finish_prompt k i th c = (case (th_job th, th_phase th) of
     (PromptJob sessionID _, Draining r) \<Rightarrow>
       if mget [] (c_deltas c) i = [] then Some (return_prompt i sessionID (prompt_outcome k r (th_deltas th)) c) else None
   | _ \<Rightarrow> None)"

definition on_thread :: "int \<Rightarrow> (thread \<Rightarrow> bool) \<Rightarrow> (thread \<Rightarrow> Client option) \<Rightarrow> Client \<Rightarrow> Client option" where
  "on_thread i enabled f c = (case c_threads c i of Some th \<Rightarrow> if enabled th then f th else None | None \<Rightarrow> None)"

fun draining :: "phase \<Rightarrow> bool" where
  "draining (Draining _) = True"
| "draining _ = False"

fun is_prompt :: "job \<Rightarrow> bool" where
  "is_prompt (PromptJob _ _) = True"
| "is_prompt _ = False"

fun acp_do :: "codec \<Rightarrow> acp_label \<Rightarrow> Client \<Rightarrow> Client option" where
  "acp_do k (StartCall method params) c = Some (register_call method params c)"
| "acp_do k (StartPrompt sessionID prompt) c = Some (register_prompt sessionID prompt c)"
| "acp_do k (Sent i) c =
     on_thread i (\<lambda>th. th_phase th = Registered) (\<lambda>th. Some (set_phase i Waiting (sendRequest i (th_job th) c))) c"
| "acp_do k (SendFailed i err) c =
     on_thread i (\<lambda>th. th_phase th = Registered) (\<lambda>th. Some (give_up i (th_job th) (SendError err) c)) c"
| "acp_do k (CtxDone i err) c =
     on_thread i (\<lambda>th. th_phase th = Waiting) (\<lambda>th. Some (give_up i (th_job th) (CtxError err) c)) c"
| "acp_do k (RecvDelta i) c =
     on_thread i (\<lambda>th. th_phase th = Waiting \<and> is_prompt (th_job th)) (\<lambda>th. take_delta i th c) c"
| "acp_do k (RecvReply i) c =
     on_thread i (\<lambda>th. th_phase th = Waiting) (\<lambda>th. take_reply i (th_job th) c) c"
| "acp_do k (DrainDelta i) c = on_thread i (\<lambda>th. draining (th_phase th)) (\<lambda>th. take_delta i th c) c"
| "acp_do k (Return i) c = on_thread i (\<lambda>th. True) (\<lambda>th. finish_prompt k i th c) c"
| "acp_do k (ReadLine m wrote) c =
     (if c_reading c then Some (case m of None \<Rightarrow> c | Some msg \<Rightarrow> dispatch k wrote msg c) else None)"
| "acp_do k ReadEof c = (if c_reading c then Some (read_eof c) else None)"
| "acp_do k ReadCancelled c = (if c_reading c then Some (c\<lparr>c_reading := False\<rparr>) else None)"

fun acp_run :: "codec \<Rightarrow> acp_label list \<Rightarrow> Client \<Rightarrow> Client option" where
  "acp_run k [] c = Some c"
| "acp_run k (l # ls) c = (case acp_do k l c of None \<Rightarrow> None | Some c' \<Rightarrow> acp_run k ls c')"

section \<open>Invariant\<close>

abbreviation reply_buf :: "Client \<Rightarrow> int \<Rightarrow> Response list" where
  "reply_buf c i \<equiv> mget [] (c_replies c) i"

abbreviation delta_buf :: "Client \<Rightarrow> int \<Rightarrow> string list" where
  "delta_buf c i \<equiv> mget [] (c_deltas c) i"

abbreviation awaiting :: "Client \<Rightarrow> int \<Rightarrow> bool" where
  "awaiting c i \<equiv> mlookup (c_pending c) (ReplyKey i) \<noteq> None"

definition own_keys :: "(pkey, chan) gomap \<Rightarrow> int \<Rightarrow> bool" where
  "own_keys m n \<longleftrightarrow> mwf m \<and>
     (\<forall>i ch. mlookup m (ReplyKey i) = Some ch \<longrightarrow> ch = ReplyChan i \<and> i \<le> n) \<and>
     (\<forall>sid ch. mlookup m (DeltaKey sid) = Some ch \<longrightarrow> (\<exists>i\<le>n. ch = DeltaChan i))"

definition known :: "(int \<Rightarrow> thread option) \<Rightarrow> int \<Rightarrow> bool" where
  "known ts n \<longleftrightarrow> (\<forall>i. ts i \<noteq> None \<longrightarrow> i \<le> n)"

definition keys_inv :: "Client \<Rightarrow> bool" where
  "keys_inv c \<longleftrightarrow> own_keys (c_pending c) (c_nextID c) \<and> known (c_threads c) (c_nextID c)"

lemma own_keys_del: "own_keys m n \<Longrightarrow> own_keys (mdel key m) n"
  unfolding own_keys_def by (metis gm.inv_del gm.lookup_del option.distinct(1))

lemma own_keys_reply: "own_keys m n \<Longrightarrow> own_keys (mput (ReplyKey (n + 1)) (ReplyChan (n + 1)) m) (n + 1)"
  unfolding own_keys_def by (simp add: gm.lookup_put) force

lemma own_keys_delta: "own_keys m n \<Longrightarrow> own_keys (mput (DeltaKey sid) (DeltaChan n) m) n"
  unfolding own_keys_def by (auto simp: gm.lookup_put)

lemma known_new: "known ts n \<Longrightarrow> known (ts(n + 1 \<mapsto> th)) (n + 1)"
  by (auto simp: known_def)

lemma known_upd: "known ts n \<Longrightarrow> ts i = Some th \<Longrightarrow> known (ts(i \<mapsto> th')) n"
  by (auto simp: known_def)

lemmas keys_rules = own_keys_del own_keys_reply own_keys_delta known_new known_upd

definition short :: "nat \<Rightarrow> (int, 'a list) gomap \<Rightarrow> bool" where
  "short n m \<longleftrightarrow> (\<forall>i. length (mget [] m i) \<le> n)"

definition empties :: "(pkey, chan) gomap \<Rightarrow> (int, Response list) gomap \<Rightarrow> bool" where
  "empties p r \<longleftrightarrow> (\<forall>i. mlookup p (ReplyKey i) \<noteq> None \<longrightarrow> mget [] r i = [])"

definition buf_inv :: "Client \<Rightarrow> bool" where
  "buf_inv c \<longleftrightarrow> short 1 (c_replies c) \<and> short 256 (c_deltas c) \<and>
     (c_reading c \<longrightarrow> empties (c_pending c) (c_replies c))"

lemma short_put: "short n m \<Longrightarrow> length x \<le> n \<Longrightarrow> short n (mput i x m)"
  by (simp add: short_def)

lemma short_nil: "short n m \<Longrightarrow> short n (mput i [] m)"
  by (simp add: short_put)

lemma short_tail: "short n m \<Longrightarrow> mget [] m i = x # xs \<Longrightarrow> short n (mput i xs m)"
  unfolding short_def by (metis Suc_leD length_Cons mget_put)

lemma short_one: "short 1 m \<Longrightarrow> mget [] m i = x # xs \<Longrightarrow> xs = []"
  unfolding short_def by (metis One_nat_def Suc_le_mono le_zero_eq length_0_conv length_Cons)

definition unanswered :: "Client \<Rightarrow> int \<Rightarrow> bool" where
  "unanswered c i \<longleftrightarrow> (\<exists>th. c_threads c i = Some th \<and> th_phase th \<in> {Registered, Waiting}) \<and> reply_buf c i = []"

definition wait_inv :: "Client \<Rightarrow> bool" where
  "wait_inv c \<longleftrightarrow> (c_reading c \<longrightarrow> (\<forall>i. unanswered c i \<longrightarrow> awaiting c i))"

lemmas acp_defs = register_call_def register_prompt_def sendRequest_def return_call_def abandon_prompt_def
  return_prompt_def give_up_def set_phase_def take_delta_def take_reply_def finish_prompt_def on_thread_def Let_def

lemma acp_init: "keys_inv NewClient \<and> buf_inv NewClient \<and> wait_inv NewClient"
  by (simp add: NewClient_def keys_inv_def own_keys_def known_def buf_inv_def short_def empties_def wait_inv_def unanswered_def)

text \<open>A failed dial changes nothing, and a connection that was opened is closed, its reader cancelled,
  after one call of \<open>Close\<close> and stays so.\<close>

lemma Connect_failed: "Connect dial c = (Some err, c') \<Longrightarrow> c' = c"
  by (auto simp: Connect_def split: option.splits)

lemma Close_closes:
  assumes "Connect dial c = (None, c1)"
  shows "\<exists>c2. Close again c1 = (None, c2) \<and> k_link c2 = ClosedLink \<and> k_cancel c2 = Some True \<and>
    Close again c2 = (Some again, c2)"
  using assms by (auto simp: Connect_def Close_def Let_def split: option.splits)

lemma fail_pending_frame [simp]:
  "c_pending (fail_pending ps c) = c_pending c" "c_threads (fail_pending ps c) = c_threads c"
  "c_reading (fail_pending ps c) = c_reading c" "c_nextID (fail_pending ps c) = c_nextID c"
  "c_deltas (fail_pending ps c) = c_deltas c" "c_sent (fail_pending ps c) = c_sent c"
  by (induction ps c rule: fail_pending.induct) (simp_all add: deliver_def split: chan.splits)

lemma fail_pending_replies:
  "reply_buf (fail_pending ps c) i = reply_buf c i @ replicate (count_list (map snd ps) (ReplyChan i)) closed_response"
  by (induction ps c rule: fail_pending.induct) (auto simp: deliver_def replicate_append_same split: chan.splits)

lemma count_own_entry:
  assumes "mwf ps" "\<forall>i ch. mlookup ps (ReplyKey i) = Some ch \<longrightarrow> ch = ReplyChan i"
    and "\<forall>sid ch. mlookup ps (DeltaKey sid) = Some ch \<longrightarrow> (\<exists>i. ch = DeltaChan i)"
  shows "count_list (map snd ps) (ReplyChan i) = (if mlookup ps (ReplyKey i) = None then 0 else 1)"
  using assms
proof (induction ps)
  case Nil
  then show ?case by simp
next
  case (Cons p ps)
  obtain key ch where p: "p = (key, ch)" by (cases p)
  have new: "mlookup ps key = None" and wf: "mwf ps"
    using Cons.prems(1) by (auto simp: p mwf_def mlookup_def map_of_eq_None_iff)
  have look: "mlookup (p # ps) x = (if x = key then Some ch else mlookup ps x)" for x by (simp add: p mlookup_def)
  have "\<forall>i ch. mlookup ps (ReplyKey i) = Some ch \<longrightarrow> ch = ReplyChan i"
    "\<forall>sid ch. mlookup ps (DeltaKey sid) = Some ch \<longrightarrow> (\<exists>i. ch = DeltaChan i)"
    using Cons.prems(2,3) new unfolding look by (metis option.distinct(1))+
  note IH = Cons.IH [OF wf this]
  show ?case
  proof (cases key)
    case (ReplyKey j)
    then have "ch = ReplyChan j" using Cons.prems(2) unfolding look by simp
    then show ?thesis using IH new ReplyKey by (auto simp: look) (auto simp: p)
  next
    case (DeltaKey sid)
    then obtain j where "ch = DeltaChan j" using Cons.prems(3) look [of key] by auto
    then show ?thesis using IH DeltaKey by (auto simp: look) (auto simp: p)
  qed
qed

lemma keys_invD:
  assumes "keys_inv c"
  shows "mwf (c_pending c)" "mlookup (c_pending c) (ReplyKey i) = Some ch \<Longrightarrow> ch = ReplyChan i \<and> i \<le> c_nextID c"
    "mlookup (c_pending c) (DeltaKey sid) = Some ch \<Longrightarrow> \<exists>i\<le>c_nextID c. ch = DeltaChan i"
    "c_threads c i \<noteq> None \<Longrightarrow> i \<le> c_nextID c"
  using assms by (auto simp: keys_inv_def own_keys_def known_def)

lemma read_eof_replies:
  assumes "keys_inv c"
  shows "reply_buf (read_eof c) i = (if awaiting c i then reply_buf c i @ [closed_response] else reply_buf c i)"
proof -
  have "count_list (map snd (c_pending c)) (ReplyChan i) = (if awaiting c i then 1 else 0)"
    using count_own_entry [of "c_pending c" i] keys_invD [OF assms] by fastforce
  then show ?thesis by (simp add: read_eof_def fail_pending_replies)
qed

lemma read_eof_frame [simp]:
  "c_pending (read_eof c) = c_pending c" "c_threads (read_eof c) = c_threads c" "c_reading (read_eof c) = False"
  "c_nextID (read_eof c) = c_nextID c" "c_deltas (read_eof c) = c_deltas c" "c_sent (read_eof c) = c_sent c"
  by (simp_all add: read_eof_def)

lemma handle_frame [simp]:
  "c_pending (handleServerRequest k wrote i msg c) = c_pending c" "c_threads (handleServerRequest k wrote i msg c) = c_threads c"
  "c_reading (handleServerRequest k wrote i msg c) = c_reading c" "c_nextID (handleServerRequest k wrote i msg c) = c_nextID c"
  "c_replies (handleServerRequest k wrote i msg c) = c_replies c" "c_deltas (handleServerRequest k wrote i msg c) = c_deltas c"
  "c_pending (handleNotification k msg c) = c_pending c" "c_threads (handleNotification k msg c) = c_threads c"
  "c_reading (handleNotification k msg c) = c_reading c" "c_nextID (handleNotification k msg c) = c_nextID c"
  "c_replies (handleNotification k msg c) = c_replies c"
  by (simp_all add: handleServerRequest_def sendResponse_def sendRPCError_def handleNotification_def Let_def
      split: option.splits chan.splits)

lemma dispatch_frame [simp]:
  "c_threads (dispatch k wrote msg c) = c_threads c" "c_reading (dispatch k wrote msg c) = c_reading c"
  "c_nextID (dispatch k wrote msg c) = c_nextID c"
  by (simp_all add: dispatch_def deliver_def Let_def split: option.splits chan.splits)

lemma keys_dispatch: "keys_inv c \<Longrightarrow> keys_inv (dispatch k wrote msg c)"
  by (auto simp: keys_inv_def dispatch_def deliver_def Let_def intro: keys_rules split: option.splits chan.splits)

lemma keys_step: "acp_do k l c = Some c' \<Longrightarrow> keys_inv c \<Longrightarrow> keys_inv c'"
proof (cases l)
  case (ReadLine m wrote)
  assume "acp_do k l c = Some c'" "keys_inv c"
  then show ?thesis by (auto simp: ReadLine keys_dispatch split: option.splits if_splits)
next
  case ReadEof
  assume "acp_do k l c = Some c'" "keys_inv c"
  then show ?thesis by (auto simp: ReadEof keys_inv_def split: if_splits)
qed (auto simp: keys_inv_def acp_defs intro!: keys_rules split: option.splits if_splits job.splits phase.splits list.splits)

text \<open>The session and text of a message chunk.\<close>

definition chunk_of :: "codec \<Rightarrow> Response \<Rightarrow> (string \<times> string) option" where
  "chunk_of k msg =
     (if IsNotification msg \<and> resp_Method msg = ''session/update''
      then (case k_Update k (resp_Params msg) of
              None \<Rightarrow> None
            | Some params \<Rightarrow>
                if ub_SessionUpdate (up_Update params) = ''agent_message_chunk'' \<and> uc_Text (ub_Content (up_Update params)) \<noteq> []
                then Some (up_SessionID params, uc_Text (ub_Content (up_Update params))) else None)
      else None)"

lemma notification_cases:
  assumes "IsNotification msg"
  shows "handleNotification k msg c =
    (case chunk_of k msg of
       None \<Rightarrow> c
     | Some (sid, txt) \<Rightarrow>
         (case mlookup (c_pending c) (DeltaKey sid) of
            Some (DeltaChan i) \<Rightarrow>
              if length (delta_buf c i) < 256 then c\<lparr>c_deltas := mput i (delta_buf c i @ [txt]) (c_deltas c)\<rparr> else c
          | _ \<Rightarrow> c))"
  using assms by (simp add: handleNotification_def chunk_of_def Let_def split: option.splits chan.splits)

lemma dispatch_cases:
  assumes "keys_inv c"
  obtains (request) i where "resp_ID msg = Some i" "IsServerRequest msg"
      "dispatch k wrote msg c = handleServerRequest k wrote i msg c" "chunk_of k msg = None"
  | (reply) i where "resp_ID msg = Some i" "resp_Method msg = []" "awaiting c i" "chunk_of k msg = None"
      "dispatch k wrote msg c = deliver i msg (c\<lparr>c_pending := mdel (ReplyKey i) (c_pending c)\<rparr>)"
  | (chunk) sid body i where "chunk_of k msg = Some (sid, body)" "mlookup (c_pending c) (DeltaKey sid) = Some (DeltaChan i)"
      "dispatch k wrote msg c =
        (if length (delta_buf c i) < 256 then c\<lparr>c_deltas := mput i (delta_buf c i @ [body]) (c_deltas c)\<rparr> else c)"
  | (other) "dispatch k wrote msg c = c"
      "\<forall>sid body. chunk_of k msg = Some (sid, body) \<longrightarrow> mlookup (c_pending c) (DeltaKey sid) = None"
      "\<forall>i. resp_ID msg = Some i \<longrightarrow> resp_Method msg = [] \<longrightarrow> \<not> awaiting c i"
proof (cases "resp_ID msg")
  case (Some i)
  then have nochunk: "chunk_of k msg = None" by (simp add: chunk_of_def IsNotification_def)
  show thesis
  proof (cases "IsServerRequest msg")
    case True
    then show thesis using request Some nochunk by (simp add: dispatch_def)
  next
    case False
    then have m: "resp_Method msg = []" using Some by (simp add: IsServerRequest_def)
    show thesis
    proof (cases "mlookup (c_pending c) (ReplyKey i)")
      case None
      then show thesis using other Some False nochunk by (simp add: dispatch_def)
    next
      case (Some ch)
      then have "ch = ReplyChan i" using keys_invD(2) [OF assms] by blast
      then show thesis using reply [of i] Some False m nochunk \<open>resp_ID msg = Some i\<close> by (simp add: dispatch_def)
    qed
  qed
next
  case None
  then have d: "dispatch k wrote msg c = (if IsNotification msg then handleNotification k msg c else c)"
    by (simp add: dispatch_def)
  show thesis
  proof (cases "chunk_of k msg")
    case None
    then show thesis using other d notification_cases \<open>resp_ID msg = None\<close> by simp
  next
    case (Some p)
    then have n: "IsNotification msg" by (auto simp: chunk_of_def split: if_splits)
    obtain sid body where p: "p = (sid, body)" by (cases p)
    show thesis
    proof (cases "mlookup (c_pending c) (DeltaKey sid)")
      case None
      then show thesis using other d n notification_cases [OF n] Some p \<open>resp_ID msg = None\<close> by simp
    next
      case (Some ch)
      then obtain i where "ch = DeltaChan i" using keys_invD(3) [OF assms] by blast
      then show thesis using chunk [of sid body i] d n notification_cases [OF n] Some \<open>chunk_of k msg = Some p\<close> p by simp
    qed
  qed
qed

lemma buf_dispatch:
  assumes "keys_inv c" "buf_inv c" "c_reading c"
  shows "buf_inv (dispatch k wrote msg c)"
  using assms(1)
proof (cases rule: dispatch_cases [of c msg k wrote])
  case (request i)
  then show ?thesis
    using assms(2) by (simp add: buf_inv_def)
next
  case (reply i)
  have "mget [] (c_replies c) i = []" using assms(2,3) reply(3) by (simp add: buf_inv_def empties_def)
  then show ?thesis using assms(2,3) unfolding reply(5)
    by (auto simp: buf_inv_def deliver_def empties_def intro!: short_put)
next
  case (chunk sid body i)
  then show ?thesis using assms(2) unfolding chunk(3) by (auto simp: buf_inv_def intro!: short_put)
qed (use assms in simp)

lemma buf_step:
  assumes "acp_do k l c = Some c'" "keys_inv c" "buf_inv c"
  shows "buf_inv c'"
proof (cases l)
  case (ReadLine m wrote)
  then show ?thesis using assms by (auto simp: buf_dispatch split: option.splits if_splits)
next
  case ReadEof
  then have c: "c_reading c" "c' = read_eof c" using assms(1) by (auto split: if_splits)
  then have "length (reply_buf c' i) \<le> 1" for i
    using assms(3) by (auto simp: buf_inv_def read_eof_replies [OF assms(2)] short_def empties_def)
  then show ?thesis using assms(3) c by (simp add: buf_inv_def short_def)
next
  case (RecvReply i)
  have "reply_buf c i = r # rs \<Longrightarrow> rs = []" for r rs using assms(3) short_one by (auto simp: buf_inv_def)
  then show ?thesis using assms RecvReply
    by (auto simp: buf_inv_def acp_defs empties_def intro!: short_put split: option.splits if_splits job.splits list.splits)
qed (use assms in \<open>auto simp: buf_inv_def acp_defs empties_def intro: short_nil short_tail split: option.splits if_splits job.splits phase.splits list.splits\<close>)

lemma wait_step:
  assumes "acp_do k l c = Some c'" "keys_inv c" "buf_inv c" "wait_inv c"
  shows "wait_inv c'"
proof (cases l)
  case (ReadLine m wrote)
  show ?thesis
  proof (cases m)
    case None
    then show ?thesis using assms ReadLine by (auto split: if_splits)
  next
    case (Some msg)
    then have r: "c_reading c" "c' = dispatch k wrote msg c" using assms(1) ReadLine by (auto split: if_splits)
    from assms(2) show ?thesis
      using assms(4) r
      by (cases rule: dispatch_cases [of c msg k wrote]) (auto simp: wait_inv_def unanswered_def deliver_def split: if_splits)
  qed
next
  case ReadEof
  then show ?thesis using assms(1) by (auto simp: wait_inv_def split: if_splits)
qed (use assms in \<open>auto simp: wait_inv_def unanswered_def acp_defs split: option.splits if_splits job.splits phase.splits list.splits\<close>)

lemma run_inv:
  "acp_run k ls c = Some c' \<Longrightarrow> keys_inv c \<Longrightarrow> buf_inv c \<Longrightarrow> wait_inv c \<Longrightarrow> keys_inv c' \<and> buf_inv c' \<and> wait_inv c'"
proof (induction ls arbitrary: c)
  case (Cons l ls)
  then obtain c1 where c1: "acp_do k l c = Some c1" "acp_run k ls c1 = Some c'" by (auto split: option.splits)
  show ?case
    by (rule Cons.IH [OF c1(2) keys_step [OF c1(1) Cons.prems(2)] buf_step [OF c1(1) Cons.prems(2,3)]
        wait_step [OF c1(1) Cons.prems(2-4)]])
qed simp

lemmas reach_inv = run_inv [where c = NewClient, OF _ acp_init [THEN conjunct1] acp_init [THEN conjunct2, THEN conjunct1]
  acp_init [THEN conjunct2, THEN conjunct2]]

section \<open>Routing\<close>

text \<open>A response call \<open>i\<close> may get: one the agent sent under its identifier, or the one the end of the
  connection gives to all.\<close>

definition legit :: "acp_label set \<Rightarrow> int \<Rightarrow> Response \<Rightarrow> bool" where
  "legit L i r \<longleftrightarrow> r = closed_response \<and> ReadEof \<in> L \<or>
     resp_ID r = Some i \<and> resp_Method r = [] \<and> (\<exists>wrote. ReadLine (Some r) wrote \<in> L)"

definition legit_out :: "codec \<Rightarrow> acp_label set \<Rightarrow> int \<Rightarrow> outcome \<Rightarrow> bool" where
  "legit_out k L i out \<longleftrightarrow>
     (\<exists>e. SendFailed i e \<in> L \<and> out \<in> {CallOutcome (Inl (SendError e)), PromptOutcome (Inl (SendError e))}) \<or>
     (\<exists>e. CtxDone i e \<in> L \<and> out \<in> {CallOutcome (Inl (CtxError e)), PromptOutcome (Inl (CtxError e))}) \<or>
     (\<exists>r. legit L i r \<and> (out = CallOutcome (call_outcome r) \<or> (\<exists>ds. out = PromptOutcome (prompt_outcome k r ds))))"

definition phase_ok :: "codec \<Rightarrow> acp_label set \<Rightarrow> int \<Rightarrow> phase \<Rightarrow> bool" where
  "phase_ok k L i ph \<longleftrightarrow> (case ph of Draining r \<Rightarrow> legit L i r | Finished out \<Rightarrow> legit_out k L i out | _ \<Rightarrow> True)"

definition threads_ok :: "codec \<Rightarrow> acp_label set \<Rightarrow> (int \<Rightarrow> thread option) \<Rightarrow> bool" where
  "threads_ok k L ts \<longleftrightarrow> (\<forall>i th. ts i = Some th \<longrightarrow> phase_ok k L i (th_phase th))"

definition bufs_ok :: "acp_label set \<Rightarrow> (int, Response list) gomap \<Rightarrow> bool" where
  "bufs_ok L m \<longleftrightarrow> (\<forall>i r. r \<in> set (mget [] m i) \<longrightarrow> legit L i r)"

definition routed :: "codec \<Rightarrow> acp_label set \<Rightarrow> Client \<Rightarrow> bool" where
  "routed k L c \<longleftrightarrow> threads_ok k L (c_threads c) \<and> bufs_ok L (c_replies c)"

lemma legit_mono: "legit L i r \<Longrightarrow> L \<subseteq> L' \<Longrightarrow> legit L' i r"
  by (auto simp: legit_def)

lemma phase_ok_mono: "phase_ok k L i ph \<Longrightarrow> L \<subseteq> L' \<Longrightarrow> phase_ok k L' i ph"
  unfolding phase_ok_def legit_out_def using legit_mono by (cases ph) (simp_all, blast+)

lemma routed_mono: "routed k L c \<Longrightarrow> L \<subseteq> L' \<Longrightarrow> routed k L' c"
  unfolding routed_def threads_ok_def bufs_ok_def using legit_mono phase_ok_mono by blast

lemma threads_ok_upd: "threads_ok k L ts \<Longrightarrow> phase_ok k L i (th_phase th) \<Longrightarrow> threads_ok k L (ts(i \<mapsto> th))"
  by (auto simp: threads_ok_def)

lemma threads_okD: "threads_ok k L ts \<Longrightarrow> ts i = Some th \<Longrightarrow> phase_ok k L i (th_phase th)"
  by (auto simp: threads_ok_def)

lemma bufs_ok_upd: "bufs_ok L m \<Longrightarrow> \<forall>r\<in>set x. legit L i r \<Longrightarrow> bufs_ok L (mput i x m)"
  by (auto simp: bufs_ok_def)

lemma bufs_okD: "bufs_ok L m \<Longrightarrow> r \<in> set (mget [] m i) \<Longrightarrow> legit L i r"
  by (auto simp: bufs_ok_def)

lemma routed_phase: "routed k L c \<Longrightarrow> phase_ok k L i ph \<Longrightarrow> routed k L (set_phase i ph c)"
  by (auto simp: routed_def set_phase_def intro: threads_ok_upd split: option.splits)

lemma routed_frame [simp]:
  "routed k L (c\<lparr>c_pending := p\<rparr>) = routed k L c" "routed k L (c\<lparr>c_deltas := d\<rparr>) = routed k L c"
  "routed k L (c\<lparr>c_sent := x\<rparr>) = routed k L c" "routed k L (c\<lparr>c_reading := b\<rparr>) = routed k L c"
  by (simp_all add: routed_def)

lemma routed_give_up:
  assumes "routed k L c" "\<exists>e. SendFailed i e \<in> L \<and> err = SendError e \<or> CtxDone i e \<in> L \<and> err = CtxError e"
  shows "routed k L (give_up i j err c)"
proof -
  have "phase_ok k L i (Finished (CallOutcome (Inl err)))" "phase_ok k L i (Finished (PromptOutcome (Inl err)))"
    using assms(2) by (auto simp: phase_ok_def legit_out_def)
  then show ?thesis using assms(1)
    by (auto simp: give_up_def return_call_def abandon_prompt_def intro!: routed_phase split: job.splits)
qed

lemma routed_deliver: "routed k L c \<Longrightarrow> legit L i r \<Longrightarrow> routed k L (deliver i r c)"
  by (auto simp: routed_def deliver_def intro!: bufs_ok_upd dest: bufs_okD)

lemma routed_fail: "routed k L c \<Longrightarrow> ReadEof \<in> L \<Longrightarrow> routed k L (fail_pending ps c)"
proof (induction ps c rule: fail_pending.induct)
  case (2 key ch ps c)
  have "legit L i closed_response" for i using 2(3) by (simp add: legit_def)
  then show ?case using 2 by (auto simp: routed_deliver split: chan.splits)
qed simp

lemma routed_take_reply:
  assumes "routed k L c" "take_reply i j c = Some c'"
  shows "routed k L c'"
proof -
  obtain r rs where b: "reply_buf c i = r # rs" using assms(2) by (auto simp: take_reply_def split: list.splits)
  have ok: "bufs_ok L (c_replies c)" using assms(1) by (simp add: routed_def)
  have r: "legit L i r" and rs: "\<forall>x\<in>set rs. legit L i x" using bufs_okD [OF ok, of _ i] b by auto
  have "routed k L (c\<lparr>c_replies := mput i rs (c_replies c)\<rparr>)"
    using assms(1) rs by (auto simp: routed_def intro: bufs_ok_upd)
  moreover have "phase_ok k L i (Finished (CallOutcome (call_outcome r)))" "phase_ok k L i (Draining r)"
    using r by (auto simp: phase_ok_def legit_out_def)
  ultimately show ?thesis using assms(2) b
    by (auto simp: take_reply_def return_call_def Let_def intro!: routed_phase split: job.splits)
qed

lemma routed_take_delta:
  assumes "routed k L c" "c_threads c i = Some th" "take_delta i th c = Some c'"
  shows "routed k L c'"
proof -
  have "phase_ok k L i (th_phase th)" using assms(1,2) threads_okD by (auto simp: routed_def)
  then show ?thesis using assms by (auto simp: routed_def take_delta_def intro!: threads_ok_upd split: list.splits)
qed

lemma routed_finish:
  assumes "routed k L c" "c_threads c i = Some th" "finish_prompt k i th c = Some c'"
  shows "routed k L c'"
proof -
  obtain sid p r where t: "th_job th = PromptJob sid p" "th_phase th = Draining r"
    and c': "c' = return_prompt i sid (prompt_outcome k r (th_deltas th)) c"
    using assms(3) by (auto simp: finish_prompt_def split: job.splits phase.splits if_splits)
  have "legit L i r" using assms(1,2) t(2) threads_okD by (fastforce simp: routed_def phase_ok_def)
  then have "phase_ok k L i (Finished (PromptOutcome (prompt_outcome k r (th_deltas th))))"
    by (auto simp: phase_ok_def legit_out_def)
  then show ?thesis using assms(1) by (auto simp: c' return_prompt_def intro!: routed_phase)
qed

lemma routed_step:
  assumes "acp_do k l c = Some c'" "keys_inv c" "routed k L c" "l \<in> L"
  shows "routed k L c'"
proof (cases l)
  case (ReadLine m wrote)
  show ?thesis
  proof (cases m)
    case None
    then show ?thesis using assms ReadLine by (auto split: if_splits)
  next
    case (Some msg)
    then have c': "c' = dispatch k wrote msg c" using assms(1) ReadLine by (auto split: if_splits)
    from assms(2) show ?thesis
    proof (cases rule: dispatch_cases [of c msg k wrote])
      case (request i)
      then show ?thesis using assms(3) by (simp add: c' routed_def)
    next
      case (reply i)
      have "legit L i msg" using reply(1,2) assms(4) ReadLine Some by (auto simp: legit_def)
      then show ?thesis unfolding c' reply(5) using assms(3) by (intro routed_deliver) simp
    next
      case (chunk sid body i)
      then show ?thesis using assms(3) by (simp add: c')
    qed (use assms(3) c' in simp)
  qed
next
  case ReadEof
  then show ?thesis using assms by (auto simp: read_eof_def routed_fail split: if_splits)
next
  case (RecvReply i)
  then show ?thesis using assms routed_take_reply by (auto simp: on_thread_def split: option.splits if_splits)
next
  case (RecvDelta i)
  then show ?thesis using assms routed_take_delta by (auto simp: on_thread_def split: option.splits if_splits)
next
  case (DrainDelta i)
  then show ?thesis using assms routed_take_delta by (auto simp: on_thread_def split: option.splits if_splits)
next
  case (Return i)
  then show ?thesis using assms routed_finish by (auto simp: on_thread_def split: option.splits)
next
  case (SendFailed i e)
  then show ?thesis using assms by (auto simp: on_thread_def intro!: routed_give_up split: option.splits if_splits)
next
  case (CtxDone i e)
  then show ?thesis using assms by (auto simp: on_thread_def intro!: routed_give_up split: option.splits if_splits)
next
  case (Sent i)
  then show ?thesis using assms
    by (auto simp: on_thread_def sendRequest_def phase_ok_def intro!: routed_phase split: option.splits if_splits)
qed (use assms in \<open>auto simp: routed_def register_call_def register_prompt_def Let_def phase_ok_def
    intro!: threads_ok_upd bufs_ok_upd split: if_splits\<close>)

lemma routed_run:
  "acp_run k ls c = Some c' \<Longrightarrow> keys_inv c \<Longrightarrow> routed k L c \<Longrightarrow> set ls \<subseteq> L \<Longrightarrow> routed k L c'"
proof (induction ls arbitrary: c)
  case (Cons l ls)
  then obtain c1 where c1: "acp_do k l c = Some c1" "acp_run k ls c1 = Some c'" by (auto split: option.splits)
  show ?case
    using Cons.prems(4) by (intro Cons.IH [OF c1(2) keys_step [OF c1(1) Cons.prems(2)] routed_step [OF c1(1) Cons.prems(2,3)]]) auto
qed simp

section \<open>Deltas of a prompt\<close>

fun chunks :: "codec \<Rightarrow> string \<Rightarrow> acp_label list \<Rightarrow> string list" where
  "chunks k sid [] = []"
| "chunks k sid (ReadLine (Some m) _ # ls) =
     (case chunk_of k m of Some (s, body) \<Rightarrow> if s = sid then body # chunks k sid ls else chunks k sid ls | None \<Rightarrow> chunks k sid ls)"
| "chunks k sid (_ # ls) = chunks k sid ls"

lemma chunks_append: "chunks k sid (xs @ ys) = chunks k sid xs @ chunks k sid ys"
  by (induction k sid xs rule: chunks.induct) (auto split: option.splits)

lemma chunks_Cons: "chunks k sid (l # ls) = chunks k sid [l] @ chunks k sid ls"
  using chunks_append [of k sid "[l]" ls] by simp

definition job_of :: "Client \<Rightarrow> int \<Rightarrow> job option" where
  "job_of c i = map_option th_job (c_threads c i)"

definition delta_inv :: "Client \<Rightarrow> bool" where
  "delta_inv c \<longleftrightarrow> (\<forall>sid i. mlookup (c_pending c) (DeltaKey sid) = Some (DeltaChan i) \<longrightarrow>
     (\<exists>p. job_of c i = Some (PromptJob sid p)))"

lemma delta_invD: "delta_inv c \<Longrightarrow> mlookup (c_pending c) (DeltaKey sid) = Some (DeltaChan i) \<Longrightarrow>
    \<exists>p. job_of c i = Some (PromptJob sid p)"
  by (simp add: delta_inv_def)

lemma step_pending_delta:
  assumes "acp_do k l c = Some c'" "keys_inv c" "mlookup (c_pending c') (DeltaKey sid) = Some (DeltaChan i)"
  shows "mlookup (c_pending c) (DeltaKey sid) = Some (DeltaChan i) \<or> (\<exists>p. l = StartPrompt sid p \<and> i = c_nextID c + 1)"
proof (cases l)
  case (ReadLine m wrote)
  show ?thesis
  proof (cases m)
    case None
    then show ?thesis using assms ReadLine by (auto split: if_splits)
  next
    case (Some msg)
    then have c': "c' = dispatch k wrote msg c" using assms(1) ReadLine by (auto split: if_splits)
    from assms(2) show ?thesis using assms(3) unfolding c'
      by (cases rule: dispatch_cases [of c msg k wrote]) (auto simp: deliver_def split: if_splits)
  qed
next
  case ReadEof
  then show ?thesis using assms(1,3) by (auto split: if_splits)
qed (use assms(1,3) in \<open>auto simp: acp_defs split: option.splits if_splits job.splits phase.splits list.splits\<close>)

lemma step_jobs:
  assumes "acp_do k l c = Some c'" "keys_inv c" "job_of c i = Some j"
  shows "job_of c' i = Some j"
proof (cases l)
  case (ReadLine m wrote)
  then show ?thesis using assms(1,3) by (auto simp: job_of_def split: option.splits if_splits)
next
  case ReadEof
  then show ?thesis using assms(1,3) by (auto simp: job_of_def split: if_splits)
next
  case (StartCall name ps)
  have "i \<le> c_nextID c" using assms(3) keys_invD(4) [OF assms(2)] by (auto simp: job_of_def)
  then show ?thesis using assms(1,3) StartCall by (auto simp: job_of_def acp_defs)
next
  case (StartPrompt sid p)
  have "i \<le> c_nextID c" using assms(3) keys_invD(4) [OF assms(2)] by (auto simp: job_of_def)
  then show ?thesis using assms(1,3) StartPrompt by (auto simp: job_of_def acp_defs)
qed (use assms(1,3) in \<open>auto simp: job_of_def acp_defs split: option.splits if_splits job.splits phase.splits list.splits\<close>)

lemma delta_step:
  assumes "acp_do k l c = Some c'" "keys_inv c" "delta_inv c"
  shows "delta_inv c'"
  unfolding delta_inv_def
proof (intro allI impI)
  fix sid i
  assume "mlookup (c_pending c') (DeltaKey sid) = Some (DeltaChan i)"
  from step_pending_delta [OF assms(1,2) this] show "\<exists>p. job_of c' i = Some (PromptJob sid p)"
  proof
    assume "mlookup (c_pending c) (DeltaKey sid) = Some (DeltaChan i)"
    from delta_invD [OF assms(3) this] step_jobs [OF assms(1,2)] show ?thesis by blast
  next
    assume "\<exists>p. l = StartPrompt sid p \<and> i = c_nextID c + 1"
    then show ?thesis using assms(1) by (auto simp: register_prompt_def Let_def job_of_def)
  qed
qed

definition live_prompt :: "Client \<Rightarrow> int \<Rightarrow> string \<Rightarrow> bool" where
  "live_prompt c i sid \<longleftrightarrow> (\<exists>th p. c_threads c i = Some th \<and> th_job th = PromptJob sid p \<and> (\<forall>out. th_phase th \<noteq> Finished out))"

definition collected :: "Client \<Rightarrow> int \<Rightarrow> string list" where
  "collected c i = (case c_threads c i of None \<Rightarrow> [] | Some th \<Rightarrow> th_deltas th) @ delta_buf c i"

definition sole_prompt :: "Client \<Rightarrow> int \<Rightarrow> string \<Rightarrow> bool" where
  "sole_prompt c i sid \<longleftrightarrow> (\<forall>j. live_prompt c j sid \<longrightarrow> j = i) \<and> mlookup (c_pending c) (DeltaKey sid) = Some (DeltaChan i)"

lemma live_back:
  assumes "acp_do k l c = Some c'" "live_prompt c' j sid" "\<And>p. l \<noteq> StartPrompt sid p"
  shows "live_prompt c j sid"
proof (cases l)
  case (ReadLine m wrote)
  then show ?thesis using assms(1,2) by (auto simp: live_prompt_def split: option.splits if_splits)
next
  case ReadEof
  then show ?thesis using assms(1,2) by (auto simp: live_prompt_def split: if_splits)
next
  case (StartPrompt s p)
  then have "s \<noteq> sid" using assms(3) by blast
  then show ?thesis using assms(1,2) StartPrompt by (auto simp: live_prompt_def acp_defs split: if_splits)
qed (use assms in \<open>auto simp: live_prompt_def acp_defs split: option.splits if_splits job.splits phase.splits list.splits\<close>)

lemma sole_step:
  assumes "acp_do k l c = Some c'" "keys_inv c" "sole_prompt c i sid" "live_prompt c' i sid" "\<And>p. l \<noteq> StartPrompt sid p"
  shows "sole_prompt c' i sid"
proof -
  have key: "mlookup (c_pending c) (DeltaKey sid) = Some (DeltaChan i)" and only: "live_prompt c j sid \<Longrightarrow> j = i" for j
    using assms(3) by (auto simp: sole_prompt_def)
  have "mlookup (c_pending c') (DeltaKey sid) = Some (DeltaChan i)"
  proof (cases l)
    case (ReadLine m wrote)
    show ?thesis
    proof (cases m)
      case None
      then show ?thesis using assms(1) key ReadLine by (auto split: if_splits)
    next
      case (Some msg)
      then have c': "c' = dispatch k wrote msg c" using assms(1) ReadLine by (auto split: if_splits)
      from assms(2) show ?thesis using key unfolding c'
        by (cases rule: dispatch_cases [of c msg k wrote]) (auto simp: deliver_def)
    qed
  next
    case ReadEof
    then show ?thesis using assms(1) key by (auto split: if_splits)
  next
    case (StartPrompt s p)
    then have "s \<noteq> sid" using assms(5) by blast
    then show ?thesis using assms(1) key StartPrompt by (auto simp: acp_defs)
  next
    case (SendFailed j e)
    then show ?thesis using assms(1,4,5) key only [of j]
      by (auto simp: acp_defs live_prompt_def split: option.splits if_splits job.splits)
  next
    case (CtxDone j e)
    then show ?thesis using assms(1,4,5) key only [of j]
      by (auto simp: acp_defs live_prompt_def split: option.splits if_splits job.splits)
  next
    case (Return j)
    then show ?thesis using assms(1,4,5) key only [of j]
      by (auto simp: acp_defs live_prompt_def split: option.splits if_splits job.splits phase.splits)
  qed (use assms(1,5) key in \<open>auto simp: acp_defs split: option.splits if_splits job.splits phase.splits list.splits\<close>)
  then show ?thesis using live_back [OF assms(1) _ assms(5)] only by (auto simp: sole_prompt_def)
qed

lemma collected_step:
  assumes "acp_do k l c = Some c'" "keys_inv c" "delta_inv c" "sole_prompt c i sid" "live_prompt c i sid"
    "\<And>p. l \<noteq> StartPrompt sid p"
  shows "collected c' i = collected c i @ chunks k sid [l] \<or> 256 \<le> length (delta_buf c i) \<and> collected c' i = collected c i"
proof -
  have key: "mlookup (c_pending c) (DeltaKey sid) = Some (DeltaChan i)" using assms(4) by (simp add: sole_prompt_def)
  have i: "i \<le> c_nextID c" using assms(5) keys_invD(4) [OF assms(2)] by (auto simp: live_prompt_def)
  show ?thesis
  proof (cases l)
    case (ReadLine m wrote)
    show ?thesis
    proof (cases m)
      case None
      then show ?thesis using assms(1) ReadLine by (auto split: if_splits)
    next
      case (Some msg)
      then have c': "c' = dispatch k wrote msg c" using assms(1) ReadLine by (auto split: if_splits)
      from assms(2) show ?thesis
      proof (cases rule: dispatch_cases [of c msg k wrote])
        case (request j)
        then show ?thesis by (simp add: c' collected_def ReadLine Some)
      next
        case (reply j)
        then show ?thesis by (simp add: c' collected_def ReadLine Some deliver_def)
      next
        case (chunk s body j)
        have "s = sid \<longleftrightarrow> j = i"
          using delta_invD [OF assms(3) chunk(2)] delta_invD [OF assms(3) key] chunk(2) key by auto
        then show ?thesis using chunk by (auto simp: c' collected_def ReadLine Some)
      next
        case other
        then have "chunks k sid [l] = []" using key by (auto simp: ReadLine Some split: option.splits)
        then show ?thesis using other by (simp add: c')
      qed
    qed
  next
    case ReadEof
    then show ?thesis using assms(1) by (auto simp: collected_def split: if_splits)
  next
    case (RecvDelta j)
    then show ?thesis using assms(1)
      by (auto simp: collected_def on_thread_def take_delta_def split: option.splits if_splits list.splits)
  next
    case (DrainDelta j)
    then show ?thesis using assms(1)
      by (auto simp: collected_def on_thread_def take_delta_def split: option.splits if_splits list.splits)
  qed (use assms(1) i in \<open>auto simp: collected_def acp_defs split: option.splits if_splits job.splits phase.splits list.splits\<close>)
qed

lemma live_run_back:
  "acp_run k ls c = Some c' \<Longrightarrow> live_prompt c' i sid \<Longrightarrow> \<forall>p. StartPrompt sid p \<notin> set ls \<Longrightarrow> live_prompt c i sid"
proof (induction ls arbitrary: c)
  case (Cons l ls)
  then obtain c1 where c1: "acp_do k l c = Some c1" "acp_run k ls c1 = Some c'" by (auto split: option.splits)
  have "live_prompt c1 i sid" using Cons c1 by simp
  then show ?case using live_back [OF c1(1)] Cons.prems(3) by (metis list.set_intros(1))
qed simp

lemma collected_run:
  assumes "acp_run k ls c = Some c'" "keys_inv c" "delta_inv c" "sole_prompt c i sid" "live_prompt c' i sid"
    "\<forall>p. StartPrompt sid p \<notin> set ls" "subseq (collected c i) xs" "length (xs @ chunks k sid ls) \<le> 256 \<Longrightarrow> collected c i = xs"
  shows "subseq (collected c' i) (xs @ chunks k sid ls) \<and>
    (length (xs @ chunks k sid ls) \<le> 256 \<longrightarrow> collected c' i = xs @ chunks k sid ls)"
  using assms
proof (induction ls arbitrary: c xs)
  case Nil
  then show ?case by simp
next
  case (Cons l ls)
  then obtain c1 where c1: "acp_do k l c = Some c1" "acp_run k ls c1 = Some c'" by (auto split: option.splits)
  have no: "\<And>p. l \<noteq> StartPrompt sid p" "\<forall>p. StartPrompt sid p \<notin> set ls" using Cons.prems(6) by auto
  have live1: "live_prompt c1 i sid" by (rule live_run_back [OF c1(2) Cons.prems(5) no(2)])
  have live: "live_prompt c i sid" by (rule live_back [OF c1(1) live1 no(1)])
  note step = collected_step [OF c1(1) Cons.prems(2-4) live no(1)]
  have app: "xs @ chunks k sid (l # ls) = (xs @ chunks k sid [l]) @ chunks k sid ls"
    using chunks_Cons [of k sid l ls] by (simp only: append.assoc)
  have sub: "subseq (collected c1 i) (xs @ chunks k sid [l])"
    using step
  proof
    assume "collected c1 i = collected c i @ chunks k sid [l]"
    then show ?thesis using Cons.prems(7) by (simp only: subseq_append)
  next
    assume "256 \<le> length (delta_buf c i) \<and> collected c1 i = collected c i"
    then show ?thesis using subseq_rev_drop_many [OF Cons.prems(7)] by simp
  qed
  have eq: "collected c1 i = xs @ chunks k sid [l]" if "length ((xs @ chunks k sid [l]) @ chunks k sid ls) \<le> 256"
  proof -
    have x: "collected c i = xs" using Cons.prems(8) that unfolding app by blast
    then have "length (delta_buf c i) \<le> length xs" unfolding collected_def by (metis length_append le_add2)
    then have "chunks k sid [l] = []" if "256 \<le> length (delta_buf c i)"
      using that \<open>length ((xs @ chunks k sid [l]) @ chunks k sid ls) \<le> 256\<close> by (cases "chunks k sid [l]") simp_all
    then show ?thesis using step x by auto
  qed
  show ?case
    unfolding app
    by (rule Cons.IH [OF c1(2) keys_step [OF c1(1) Cons.prems(2)] delta_step [OF c1(1) Cons.prems(2,3)]
        sole_step [OF c1(1) Cons.prems(2,4) live1 no(1)] Cons.prems(5) no(2) sub eq])
qed

lemma delta_run: "acp_run k ls c = Some c' \<Longrightarrow> keys_inv c \<Longrightarrow> delta_inv c \<Longrightarrow> delta_inv c'"
proof (induction ls arbitrary: c)
  case (Cons l ls)
  then obtain c1 where c1: "acp_do k l c = Some c1" "acp_run k ls c1 = Some c'" by (auto split: option.splits)
  show ?case by (rule Cons.IH [OF c1(2) keys_step [OF c1(1) Cons.prems(2)] delta_step [OF c1(1) Cons.prems(2,3)]])
qed simp

lemma run_jobs: "acp_run k ls c = Some c' \<Longrightarrow> keys_inv c \<Longrightarrow> job_of c i = Some j \<Longrightarrow> job_of c' i = Some j"
proof (induction ls arbitrary: c)
  case (Cons l ls)
  then obtain c1 where c1: "acp_do k l c = Some c1" "acp_run k ls c1 = Some c'" by (auto split: option.splits)
  show ?case by (rule Cons.IH [OF c1(2) keys_step [OF c1(1) Cons.prems(2)] step_jobs [OF c1(1) Cons.prems(2,3)]])
qed simp

lemma delta_init: "delta_inv NewClient"
  by (simp add: delta_inv_def NewClient_def)

lemma routed_init: "routed k L NewClient"
  by (simp add: routed_def NewClient_def threads_ok_def bufs_ok_def)

lemma run_append:
  "acp_run k (xs @ ys) c = (case acp_run k xs c of None \<Rightarrow> None | Some c1 \<Rightarrow> acp_run k ys c1)"
  by (induction xs arbitrary: c) (auto split: option.splits)

text \<open>Requests of the agent: an understood permission request is approved once, an unknown method is
  refused, and a permission request whose parameters do not decode gets no answer at all.\<close>

lemma server_request_answer:
  assumes "resp_ID msg = Some i" "resp_Method msg \<noteq> []"
  shows "c_sent (dispatch k True msg c) = c_sent c @
    (if resp_Method msg = ''session/request_permission''
     then (if k_Permission k (resp_Params msg) = None then [] else [OutApproval i \<lparr>po_OptionID = ''allow_once''\<rparr>])
     else [OutError i (-32601) (''method not found: '' @ resp_Method msg)])"
  using assms by (auto simp: dispatch_def IsServerRequest_def handleServerRequest_def sendResponse_def sendRPCError_def split: option.splits)

text \<open>Once the reader has stopped, nobody answers: a call that starts then can only end through a
  failing send or its own context.\<close>

lemma stopped_step:
  "acp_do k l c = Some c' \<Longrightarrow> \<not> c_reading c \<Longrightarrow> reply_buf c i = [] \<Longrightarrow> \<not> c_reading c' \<and> reply_buf c' i = []"
  by (cases l) (auto simp: acp_defs split: option.splits if_splits job.splits phase.splits list.splits)

lemma stopped_reader_silent:
  assumes "acp_run k ls c = Some c'" "\<not> c_reading c" "c_nextID c < i" "keys_inv c" "reply_buf c i = []"
  shows "acp_do k (RecvReply i) c' = None"
proof -
  have "\<not> c_reading c' \<and> reply_buf c' i = []"
    using assms(1,2,5)
  proof (induction ls arbitrary: c)
    case (Cons l ls)
    then obtain c1 where c1: "acp_do k l c = Some c1" "acp_run k ls c1 = Some c'" by (auto split: option.splits)
    show ?case using Cons c1 stopped_step [OF c1(1)] by blast
  qed simp
  then show ?thesis by (simp add: on_thread_def take_reply_def split: option.splits)
qed

section \<open>Properties\<close>

text \<open>C21: Responses go where they belong: in every interleaving of calls, prompts and the reader, a call
  ends with an error of its own send or context, with a response that arrived under its own
  identifier, or with the error the end of the connection gives. No reply channel ever holds more
  than one response and no delta channel more than 256 texts, so the reader never blocks on one.\<close>

theorem acp_routing:
  assumes "acp_run k ls NewClient = Some c"
  shows "(\<forall>i th out. c_threads c i = Some th \<longrightarrow> th_phase th = Finished out \<longrightarrow> legit_out k (set ls) i out) \<and>
    (\<forall>i. length (reply_buf c i) \<le> 1 \<and> length (delta_buf c i) \<le> 256) \<and>
    (c_reading c \<longrightarrow> (\<forall>i. awaiting c i \<longrightarrow> reply_buf c i = []))"
proof -
  have "routed k (set ls) c" by (rule routed_run [OF assms]) (use acp_init routed_init in auto)
  then have "threads_ok k (set ls) (c_threads c)" by (simp add: routed_def)
  then have "c_threads c i = Some th \<Longrightarrow> th_phase th = Finished out \<Longrightarrow> legit_out k (set ls) i out" for i th out
    using threads_okD by (fastforce simp: phase_ok_def)
  moreover have "buf_inv c" using reach_inv [OF assms] by blast
  ultimately show ?thesis by (auto simp: buf_inv_def short_def empties_def)
qed

text \<open>C23: No waiting call is forgotten: while the reader runs, the response to a waiting call, and
  likewise the end of the connection, puts a reply into the call's channel, so the call can go on.\<close>

theorem acp_progress:
  assumes "acp_run k ls NewClient = Some c" "c_reading c" "c_threads c i = Some th" "th_phase th = Waiting"
    and "resp_ID r = Some i" "resp_Method r = []"
  shows "(\<exists>c1 c2. acp_do k (ReadLine (Some r) wrote) c = Some c1 \<and> acp_do k (RecvReply i) c1 = Some c2) \<and>
    (\<exists>c1 c2. acp_do k ReadEof c = Some c1 \<and> acp_do k (RecvReply i) c1 = Some c2)"
proof -
  have inv: "keys_inv c" "wait_inv c" using reach_inv [OF assms(1)] by blast+
  have enabled: "\<exists>c2. acp_do k (RecvReply i) c1 = Some c2" if "c_threads c1 = c_threads c" "reply_buf c1 i \<noteq> []" for c1
    using that assms(3,4) by (auto simp: on_thread_def take_reply_def Let_def split: list.splits)
  have un: "unanswered c i \<Longrightarrow> awaiting c i" using inv(2) assms(2) by (simp add: wait_inv_def)
  have th: "unanswered c i" if "reply_buf c i = []" using that assms(3,4) by (simp add: unanswered_def)
  have "chunk_of k r = None" using assms(5) by (simp add: chunk_of_def IsNotification_def)
  with inv(1) have "reply_buf (dispatch k wrote r c) i \<noteq> []"
    using assms(5,6) un th
    by (cases rule: dispatch_cases [of c r k wrote]) (auto simp: deliver_def IsServerRequest_def split: if_splits)
  moreover have "reply_buf (read_eof c) i \<noteq> []"
    using un th by (auto simp: read_eof_replies [OF inv(1)])
  ultimately show ?thesis using assms(2) enabled [of "dispatch k wrote r c"] enabled [of "read_eof c"] by simp
qed


definition example_codec :: codec where
  "example_codec = \<lparr>k_Permission = (\<lambda>_. None),
     k_Update = (\<lambda>p. Some \<lparr>up_SessionID = ''s'', up_Update = \<lparr>ub_SessionUpdate = ''agent_message_chunk'',
       ub_Content = \<lparr>uc_Type = ''text'', uc_Text = p\<rparr>\<rparr>\<rparr>),
     k_PromptResult = (\<lambda>_. None), k_InitResult = (\<lambda>_. None), k_NewResult = (\<lambda>_. None)\<rparr>"

definition example_chunk :: "string \<Rightarrow> Response" where
  "example_chunk body = \<lparr>resp_ID = None, resp_Result = [], resp_Error = None, resp_Method = ''session/update'', resp_Params = body\<rparr>"

definition example_reply :: "int \<Rightarrow> Response" where
  "example_reply i = \<lparr>resp_ID = Some i, resp_Result = ''{}'', resp_Error = None, resp_Method = [], resp_Params = []\<rparr>"

definition example_labels :: "acp_label list" where
  "example_labels = [Sent 1, ReadLine (Some (example_chunk ''hello '')) True, RecvDelta 1,
     ReadLine (Some (example_chunk ''world'')) True, ReadLine (Some (example_reply 1)) True, RecvReply 1, DrainDelta 1]"

lemmas example_run_simps = example_codec_def example_chunk_def example_reply_def example_labels_def NewClient_def
  acp_defs dispatch_def IsServerRequest_def IsNotification_def handleNotification_def deliver_def


theorem acp_routing_witness:
  "\<exists>c. acp_run example_codec (StartPrompt ''s'' ''hi'' # example_labels) NewClient = Some c \<and> length (reply_buf c 1) \<le> 1"
proof -
  obtain c where c: "acp_run example_codec (StartPrompt ''s'' ''hi'' # example_labels) NewClient = Some c"
    by (simp add: example_run_simps)
  show ?thesis using acp_routing [OF c] c by blast
qed

theorem acp_progress_witness:
  "\<exists>c c1 c2. acp_run example_codec [StartPrompt ''s'' ''hi'', Sent 1] NewClient = Some c \<and>
     acp_do example_codec (ReadLine (Some (example_reply 1)) True) c = Some c1 \<and> acp_do example_codec (RecvReply 1) c1 = Some c2"
proof -
  obtain c where c: "acp_run example_codec [StartPrompt ''s'' ''hi'', Sent 1] NewClient = Some c"
    by (simp add: example_run_simps)
  then obtain th where "c_reading c" "c_threads c 1 = Some th" "th_phase th = Waiting"
    by (auto simp: example_run_simps)
  from acp_progress [OF c this, of "example_reply 1" True] c show ?thesis by (auto simp: example_reply_def)
qed

end
