(* ===== verification/ProxyHandler.thy ===== *)
theory ProxyHandler
  imports A2A ContextMgmt
begin

text \<open>
  The proxy's message handler (\<open>src/internal/proxy/handler.go\<close>): from a queued A2A request to an ACP
  session, a prompt, and the published status and result. The ACP client, the publisher, JSON
  decoding, the clock and the tracer are the fields of an environment; what the handler publishes
  and sends to the agent is its event list. \<open>h_inflight\<close> is the counter of the wait group, and
  \<open>h_init\<close> is the \<open>sync.Once\<close> with the error it stored (\<open>None\<close> while it has not run).
\<close>

section \<open>Types\<close>

datatype pub_value = StatusValue TaskStatus | TaskValue Task

datatype proxy_event =
    Published string pub_value
  | AcpInitialize
  | AcpNewSession string
  | AcpPrompt string string
  | AcpCancel string

datatype proxy_error =
    ShuttingDown
  | UnmarshalRequest string
  | InitializeFailed string
  | SessionNewFailed string
  | NoTextContent
  | PromptFailed string
  | PublishResultFailed string

fun Error :: "proxy_error \<Rightarrow> string" where
  "Error ShuttingDown = ''proxy: rejecting message, shutdown in progress''"
| "Error (UnmarshalRequest e) = ''proxy: unmarshal SendMessageRequest: '' @ e"
| "Error (InitializeFailed e) = ''proxy: acp initialize: '' @ e"
| "Error (SessionNewFailed e) = ''proxy: acp session/new: '' @ e"
| "Error NoTextContent = ''proxy: no text content in message parts''"
| "Error (PromptFailed e) = ''proxy: acp session/prompt: '' @ e"
| "Error (PublishResultFailed e) = ''proxy: publish result: '' @ e"

record Handler =
  h_publisher :: bool
  h_workDir :: string
  h_tracker :: "Tracker option"
  h_shuttingDown :: bool
  h_init :: "string option option"
  h_sessions :: "(string, unit) gomap"
  h_inflight :: nat

record proxy_env =
  e_Unmarshal :: "string \<Rightarrow> string + SendMessageRequest"
  e_Publish :: "string \<Rightarrow> pub_value \<Rightarrow> string option"
  e_Initialize :: "string option"
  e_NewSession :: "string \<Rightarrow> string + string"
  e_Prompt :: "string \<Rightarrow> string \<Rightarrow> string + string"
  e_Timestamp :: string
  e_Now :: int
  e_Int32 :: "rat \<Rightarrow> int"
  e_CtxTrace :: "string option"
  e_TraceIDFromHex :: "string \<Rightarrow> string option"
  e_StartSpan :: "string option \<Rightarrow> string option"

section \<open>Sessions and status\<close>

definition NewHandler :: "bool \<Rightarrow> string \<Rightarrow> Tracker option \<Rightarrow> Handler" where
  "NewHandler publisher workDir tracker = \<lparr>h_publisher = publisher, h_workDir = workDir, h_tracker = tracker,
     h_shuttingDown = False, h_init = None, h_sessions = [], h_inflight = 0\<rparr>"

definition SetInitialized :: "Handler \<Rightarrow> Handler" where
  "SetInitialized h = (case h_init h of None \<Rightarrow> h\<lparr>h_init := Some None\<rparr> | Some _ \<Rightarrow> h)"

definition registerSession :: "string \<Rightarrow> Handler \<Rightarrow> Handler" where
  "registerSession sessionID h = h\<lparr>h_sessions := mput sessionID () (h_sessions h)\<rparr>"

definition deregisterSession :: "string \<Rightarrow> Handler \<Rightarrow> Handler" where
  "deregisterSession sessionID h = h\<lparr>h_sessions := mdel sessionID (h_sessions h)\<rparr>"

definition activeSessions :: "Handler \<Rightarrow> string list" where
  "activeSessions h = mkeys (h_sessions h)"

definition CancelActiveSessions :: "Handler \<Rightarrow> proxy_event list" where
  "CancelActiveSessions h = map AcpCancel (activeSessions h)"

definition publishStatus :: "proxy_env \<Rightarrow> Handler \<Rightarrow> string \<Rightarrow> TaskState \<Rightarrow> Message option \<Rightarrow> proxy_event list" where
  "publishStatus env h taskID state msg =
     (if \<not> h_publisher h then []
      else
        (let subject = ''agent.status.'' @ taskID;
             status = StatusValue \<lparr>ts_State = state, ts_Message = msg, ts_Timestamp = e_Timestamp env\<rparr>
         in case e_Publish env subject status of None \<Rightarrow> [Published subject status] | Some _ \<Rightarrow> []))"

definition agent_message :: "string \<Rightarrow> string \<Rightarrow> string \<Rightarrow> Message" where
  "agent_message messageID taskID body = \<lparr>m_MessageID = messageID, m_ContextID = [], m_TaskID = taskID,
     m_Role = ''agent'', m_Parts = [text_part body], m_Metadata = []\<rparr>"

definition fail :: "proxy_env \<Rightarrow> Handler \<Rightarrow> string \<Rightarrow> proxy_error \<Rightarrow> proxy_event list \<times> proxy_error option" where
  "fail env h taskID err =
     (publishStatus env h taskID TaskStateFailed (Some (agent_message (taskID @ ''-error'') taskID (Error err))), Some err)"

definition with_tracker :: "(Tracker \<Rightarrow> Tracker) \<Rightarrow> Handler \<Rightarrow> Handler" where
  "with_tracker f h = h\<lparr>h_tracker := map_option f (h_tracker h)\<rparr>"

section \<open>Handling a request\<close>

definition task_of :: "SendMessageRequest \<Rightarrow> string" where
  "task_of req = (if m_TaskID (r_Message req) = [] then m_MessageID (r_Message req) else m_TaskID (r_Message req))"

definition handle_trace :: "proxy_env \<Rightarrow> SendMessageRequest \<Rightarrow> string option" where
  "handle_trace env req =
     (let metadataTraceID = any_string (mget AnyNil (m_Metadata (r_Message req)) ''trace_id'');
          parent = (if metadataTraceID \<noteq> [] \<and> e_CtxTrace env = None
                    then (case e_TraceIDFromHex env metadataTraceID of Some tid \<Rightarrow> Some tid | None \<Rightarrow> e_CtxTrace env)
                    else e_CtxTrace env)
      in e_StartSpan env parent)"

definition init_once :: "proxy_env \<Rightarrow> Handler \<Rightarrow> proxy_event list \<times> Handler \<times> string option" where
  "init_once env h = (case h_init h of
     Some err \<Rightarrow> ([], h, err)
   | None \<Rightarrow> ([AcpInitialize], h\<lparr>h_init := Some (e_Initialize env)\<rparr>, e_Initialize env))"

definition context_usage :: "proxy_env \<Rightarrow> SessionMetrics \<Rightarrow> anyval" where
  "context_usage env m = AnyMap
     ([(''currentTokens'', AnyInt (sm_CurrentTokens m)), (''turnCount'', AnyInt (sint (sm_TurnCount m))),
       (''compactionCount'', AnyInt (sint (sm_CompactionCount m)))] @
      (if 0 < sm_TokenLimit m then [(''usagePercent'', AnyInt (UsagePercent (e_Int32 env) m))] else []))"

definition result_metadata :: "proxy_env \<Rightarrow> Handler \<Rightarrow> string \<Rightarrow> string option \<Rightarrow> metadata" where
  "result_metadata env h sessionID trace =
     (let usage = (case h_tracker h of
                     None \<Rightarrow> []
                   | Some t \<Rightarrow>
                       (case GetMetrics t sessionID of
                          (m, True) \<Rightarrow> mput ''contextUsage'' (context_usage env m) []
                        | _ \<Rightarrow> []))
      in case trace of None \<Rightarrow> usage | Some tid \<Rightarrow> mput ''trace_id'' (AnyStr tid) usage)"

definition result_task ::
  "proxy_env \<Rightarrow> Handler \<Rightarrow> SendMessageRequest \<Rightarrow> string \<Rightarrow> string \<Rightarrow> string \<Rightarrow> string option \<Rightarrow> Task" where
  "result_task env h req taskID sessionID content trace =
     \<lparr>t_ID = taskID, t_ContextID = m_ContextID (r_Message req),
      t_Status = \<lparr>ts_State = TaskStateCompleted, ts_Message = Some (agent_message (taskID @ ''-result'') taskID content),
                  ts_Timestamp = e_Timestamp env\<rparr>,
      t_Artifacts = [\<lparr>a_ArtifactID = taskID @ ''-response'', a_Name = ''agent-response'', a_Description = [],
                      a_Parts = [text_part content], a_Metadata = []\<rparr>],
      t_History = [], t_Metadata = result_metadata env h sessionID trace\<rparr>"

definition publish_result ::
  "proxy_env \<Rightarrow> Handler \<Rightarrow> string \<Rightarrow> string \<Rightarrow> Task \<Rightarrow> proxy_event list \<times> proxy_error option" where
  "publish_result env h taskID content task =
     (let done = publishStatus env h taskID TaskStateCompleted (Some (agent_message (taskID @ ''-result'') taskID content));
          subject = ''agent.results.'' @ taskID
      in if \<not> h_publisher h then (done, None)
         else case e_Publish env subject (TaskValue task) of
                Some err \<Rightarrow> ([], Some (PublishResultFailed err))
              | None \<Rightarrow> (Published subject (TaskValue task) # done, None))"

definition run_prompt ::
  "proxy_env \<Rightarrow> SendMessageRequest \<Rightarrow> string \<Rightarrow> string \<Rightarrow> string option \<Rightarrow> Handler \<Rightarrow>
   proxy_event list \<times> Handler \<times> proxy_error option" where
  "run_prompt env req taskID sessionID trace h =
     (let prompt = ExtractPromptText (r_Message req) in
      if prompt = [] then (case fail env h taskID NoTextContent of (evs, r) \<Rightarrow> (evs, h, r))
      else case e_Prompt env sessionID prompt of
             Inl err \<Rightarrow> (case fail env h taskID (PromptFailed err) of (evs, r) \<Rightarrow> (AcpPrompt sessionID prompt # evs, h, r))
           | Inr content \<Rightarrow>
               (let approxTokens = int (length prompt + length content) div 4;
                    h' = with_tracker (UpdateTokens sessionID approxTokens) h
                in case publish_result env h' taskID content (result_task env h' req taskID sessionID content trace) of
                     (evs, r) \<Rightarrow> (AcpPrompt sessionID prompt # evs, h', r)))"

definition handle_session ::
  "proxy_env \<Rightarrow> SendMessageRequest \<Rightarrow> string \<Rightarrow> string option \<Rightarrow> Handler \<Rightarrow>
   proxy_event list \<times> Handler \<times> proxy_error option" where
  "handle_session env req taskID trace h =
     (case e_NewSession env (h_workDir h) of
        Inl err \<Rightarrow> (case fail env h taskID (SessionNewFailed err) of (evs, r) \<Rightarrow> (AcpNewSession (h_workDir h) # evs, h, r))
      | Inr sessionID \<Rightarrow>
          (case run_prompt env req taskID sessionID trace
                  (with_tracker (StartSession (e_Now env) sessionID taskID 0) (registerSession sessionID h)) of
             (evs, h', r) \<Rightarrow>
               (AcpNewSession (h_workDir h) # evs,
                with_tracker (\<lambda>t. snd (EndSession sessionID t)) (deregisterSession sessionID h'), r)))"

definition handle_request :: "proxy_env \<Rightarrow> string \<Rightarrow> Handler \<Rightarrow> proxy_event list \<times> Handler \<times> proxy_error option" where
  "handle_request env body h =
     (case e_Unmarshal env body of
        Inl err \<Rightarrow> ([], h, Some (UnmarshalRequest err))
      | Inr req \<Rightarrow>
          (let taskID = task_of req;
               working = publishStatus env h taskID TaskStateWorking None
           in case init_once env h of
                (evs, h', Some err) \<Rightarrow>
                  (case fail env h' taskID (InitializeFailed err) of (evs', r) \<Rightarrow> (working @ evs @ evs', h', r))
              | (evs, h', None) \<Rightarrow>
                  (case handle_session env req taskID (handle_trace env req) h' of
                     (evs', h'', r) \<Rightarrow> (working @ evs @ evs', h'', r))))"

text \<open>The guard and the registration with the wait group are one step under the handler's mutex.\<close>

definition enter_handle :: "Handler \<Rightarrow> Handler option" where
  "enter_handle h = (if h_shuttingDown h then None else Some (h\<lparr>h_inflight := h_inflight h + 1\<rparr>))"

definition leave_handle :: "Handler \<Rightarrow> Handler" where
  "leave_handle h = h\<lparr>h_inflight := h_inflight h - 1\<rparr>"

definition Handle :: "proxy_env \<Rightarrow> string \<Rightarrow> Handler \<Rightarrow> proxy_event list \<times> Handler \<times> proxy_error option" where
  "Handle env body h =
     (case enter_handle h of
        None \<Rightarrow> ([], h, Some ShuttingDown)
      | Some h1 \<Rightarrow> (case handle_request env body h1 of (evs, h2, r) \<Rightarrow> (evs, leave_handle h2, r)))"

section \<open>Lemmas\<close>

fun published :: "proxy_event list \<Rightarrow> (string \<times> pub_value) list" where
  "published [] = []"
| "published (Published subject v # evs) = (subject, v) # published evs"
| "published (_ # evs) = published evs"

lemma published_append [simp]: "published (xs @ ys) = published xs @ published ys"
  by (induction xs rule: published.induct) simp_all

definition status_of :: "proxy_env \<Rightarrow> string \<Rightarrow> TaskState \<Rightarrow> Message option \<Rightarrow> string \<times> pub_value" where
  "status_of env taskID state msg =
     (''agent.status.'' @ taskID, StatusValue \<lparr>ts_State = state, ts_Message = msg, ts_Timestamp = e_Timestamp env\<rparr>)"

definition failed_status :: "proxy_env \<Rightarrow> string \<Rightarrow> proxy_error \<Rightarrow> string \<times> pub_value" where
  "failed_status env taskID err =
     status_of env taskID TaskStateFailed (Some (agent_message (taskID @ ''-error'') taskID (Error err)))"

text \<open>A publisher that is there and takes every message.\<close>

definition publishes :: "proxy_env \<Rightarrow> Handler \<Rightarrow> bool" where
  "publishes env h \<longleftrightarrow> h_publisher h \<and> (\<forall>subject v. e_Publish env subject v = None)"

lemma publishStatus_works:
  "publishes env h \<Longrightarrow> published (publishStatus env h taskID state msg) = [status_of env taskID state msg]"
  by (simp add: publishes_def publishStatus_def status_of_def Let_def)

lemmas fail_works = fail_def failed_status_def publishStatus_works

lemma fail_result: "snd (fail env h taskID err) = Some err"
  by (simp add: fail_def)

text \<open>No operation but the guard touches the flag and the counter, and none touches the configuration.\<close>

definition frame :: "Handler \<Rightarrow> bool \<times> string \<times> bool \<times> nat" where
  "frame h = (h_publisher h, h_workDir h, h_shuttingDown h, h_inflight h)"

lemma frame_simps [simp]:
  "frame (with_tracker f h) = frame h" "frame (registerSession i h) = frame h" "frame (deregisterSession i h) = frame h"
  by (simp_all add: frame_def with_tracker_def registerSession_def deregisterSession_def)

lemma sessions_simps [simp]:
  "h_sessions (with_tracker f h) = h_sessions h" "h_sessions (registerSession i h) = mput i () (h_sessions h)"
  "h_sessions (deregisterSession i h) = mdel i (h_sessions h)"
  "h_tracker (with_tracker f h) = map_option f (h_tracker h)" "h_tracker (registerSession i h) = h_tracker h"
  "h_tracker (deregisterSession i h) = h_tracker h"
  by (simp_all add: with_tracker_def registerSession_def deregisterSession_def)

lemma publishes_frame: "frame h = frame h' \<Longrightarrow> publishes env h \<Longrightarrow> publishes env h'"
  by (simp add: publishes_def frame_def)

lemma run_prompt_frame:
  "run_prompt env req taskID i trace h = (evs, h', r) \<Longrightarrow>
   frame h' = frame h \<and> h_sessions h' = h_sessions h \<and>
   (h' = h \<or> (\<exists>n. h' = with_tracker (UpdateTokens i n) h))"
  by (auto simp: run_prompt_def Let_def split: if_splits sum.splits prod.splits)

lemma handle_session_frame:
  assumes "handle_session env req taskID trace h = (evs, h', r)"
  shows "frame h' = frame h \<and>
    mlookup (h_sessions h') j = (if e_NewSession env (h_workDir h) = Inr j then None else mlookup (h_sessions h) j)"
proof (cases "e_NewSession env (h_workDir h)")
  case (Inl e)
  then show ?thesis using assms by (auto simp: handle_session_def split: prod.splits)
next
  case (Inr i)
  then obtain evs1 h1 where r: "run_prompt env req taskID i trace
      (with_tracker (StartSession (e_Now env) i taskID 0) (registerSession i h)) = (evs1, h1, r)"
    and h': "h' = with_tracker (\<lambda>t. snd (EndSession i t)) (deregisterSession i h1)"
    using assms by (auto simp: handle_session_def split: prod.splits)
  from run_prompt_frame [OF r] show ?thesis by (simp add: h' Inr)
qed

lemma init_once_frame: "init_once env h = (evs, h', e) \<Longrightarrow> frame h' = frame h \<and> h_sessions h' = h_sessions h \<and>
    h_tracker h' = h_tracker h \<and> published evs = [] \<and> h_init h' = Some e"
  by (auto simp: init_once_def frame_def split: option.splits)

text \<open>The tracker follows a session from its start to its end and keeps nothing of it.\<close>

lemma handle_session_tracker:
  assumes "handle_session env req taskID trace h = (evs, h', r)" "h_tracker h = Some t"
  shows "\<exists>t'. h_tracker h' = Some t' \<and> tr_config t' = tr_config t \<and>
    (\<forall>j. mlookup (tr_sessions t') j = (if e_NewSession env (h_workDir h) = Inr j then None else mlookup (tr_sessions t) j))"
proof (cases "e_NewSession env (h_workDir h)")
  case (Inl e)
  then show ?thesis using assms by (auto simp: handle_session_def split: prod.splits)
next
  case (Inr i)
  then obtain evs1 h1 where run: "run_prompt env req taskID i trace
      (with_tracker (StartSession (e_Now env) i taskID 0) (registerSession i h)) = (evs1, h1, r)"
    and h': "h' = with_tracker (\<lambda>t. snd (EndSession i t)) (deregisterSession i h1)"
    using assms(1) by (auto simp: handle_session_def split: prod.splits)
  from run_prompt_frame [OF run] show ?thesis
    by (auto simp: h' Inr assms(2) EndSession_def StartSession_def UpdateTokens_def)
qed

lemma run_prompt_published:
  assumes "publishes env h" "run_prompt env req taskID i trace h = (evs, h', r)"
  shows "case r of
      Some err \<Rightarrow> published evs = [failed_status env taskID err]
    | None \<Rightarrow> \<exists>content. e_Prompt env i (ExtractPromptText (r_Message req)) = Inr content \<and>
        published evs =
          [(''agent.results.'' @ taskID, TaskValue (result_task env h' req taskID i content trace)),
           status_of env taskID TaskStateCompleted (Some (agent_message (taskID @ ''-result'') taskID content))]"
proof (cases "ExtractPromptText (r_Message req) = []")
  case True
  then show ?thesis using assms by (auto simp: run_prompt_def fail_works)
next
  case False
  show ?thesis
  proof (cases "e_Prompt env i (ExtractPromptText (r_Message req))")
    case (Inl e)
    then show ?thesis using False assms by (auto simp: run_prompt_def Let_def fail_works)
  next
    case (Inr content)
    let ?h = "with_tracker (UpdateTokens i (int (length (ExtractPromptText (r_Message req)) + length content) div 4)) h"
    have p: "publishes env ?h" by (rule publishes_frame [OF _ assms(1)]) simp
    then show ?thesis using False Inr assms(2) publishStatus_works [OF p]
      by (auto simp: run_prompt_def publish_result_def publishes_def Let_def split: prod.splits)
  qed
qed

lemma handle_session_published:
  assumes "publishes env h" "handle_session env req taskID trace h = (evs, h', r)"
  shows "case r of
      Some err \<Rightarrow> published evs = [failed_status env taskID err]
    | None \<Rightarrow> \<exists>i content g. e_NewSession env (h_workDir h) = Inr i \<and>
        e_Prompt env i (ExtractPromptText (r_Message req)) = Inr content \<and>
        published evs =
          [(''agent.results.'' @ taskID, TaskValue (result_task env g req taskID i content trace)),
           status_of env taskID TaskStateCompleted (Some (agent_message (taskID @ ''-result'') taskID content))]"
proof (cases "e_NewSession env (h_workDir h)")
  case (Inl e)
  then show ?thesis using assms by (auto simp: handle_session_def fail_works)
next
  case (Inr i)
  let ?h = "with_tracker (StartSession (e_Now env) i taskID 0) (registerSession i h)"
  have p: "publishes env ?h" by (rule publishes_frame [OF _ assms(1)]) simp
  obtain evs1 h1 where run: "run_prompt env req taskID i trace ?h = (evs1, h1, r)"
    and evs: "evs = AcpNewSession (h_workDir h) # evs1"
    using assms(2) Inr by (auto simp: handle_session_def split: prod.splits)
  show ?thesis using run_prompt_published [OF p run] Inr by (auto simp: evs split: option.splits)
qed

lemma handle_request_published:
  assumes "publishes env h" "e_Unmarshal env body = Inr req" "handle_request env body h = (evs, h', r)"
  shows "case r of
      Some err \<Rightarrow> published evs = [status_of env (task_of req) TaskStateWorking None, failed_status env (task_of req) err]
    | None \<Rightarrow> \<exists>i content g. e_NewSession env (h_workDir h) = Inr i \<and>
        e_Prompt env i (ExtractPromptText (r_Message req)) = Inr content \<and>
        published evs =
          [status_of env (task_of req) TaskStateWorking None,
           (''agent.results.'' @ task_of req, TaskValue (result_task env g req (task_of req) i content (handle_trace env req))),
           status_of env (task_of req) TaskStateCompleted
             (Some (agent_message (task_of req @ ''-result'') (task_of req) content))]"
proof -
  obtain evs1 h1 e where init: "init_once env h = (evs1, h1, e)" by (metis prod_cases3)
  note f = init_once_frame [OF init]
  have p: "publishes env h1" using publishes_frame [OF _ assms(1)] f by metis
  have dir: "h_workDir h1 = h_workDir h" using f by (simp add: frame_def)
  show ?thesis
  proof (cases e)
    case (Some err)
    then show ?thesis using assms(2,3) init f publishStatus_works [OF assms(1)]
      p by (auto simp: handle_request_def Let_def fail_works)
  next
    case None
    obtain evs2 h2 where s: "handle_session env req (task_of req) (handle_trace env req) h1 = (evs2, h2, r)"
      and evs: "evs = publishStatus env h (task_of req) TaskStateWorking None @ evs1 @ evs2"
      using assms(2,3) init None by (auto simp: handle_request_def Let_def split: prod.splits)
    show ?thesis
      using handle_session_published [OF p s] f publishStatus_works [OF assms(1)] dir
      by (auto simp: evs split: option.splits)
  qed
qed

text \<open>The session a request opens, if it gets that far.\<close>

definition opened :: "proxy_env \<Rightarrow> proxy_event list \<Rightarrow> string \<Rightarrow> bool" where
  "opened env evs i \<longleftrightarrow> (\<exists>dir. AcpNewSession dir \<in> set evs \<and> e_NewSession env dir = Inr i)"

lemma opened_simps [simp]:
  "\<not> opened env [] i" "opened env (xs @ ys) i \<longleftrightarrow> opened env xs i \<or> opened env ys i"
  "opened env (AcpNewSession dir # evs) i \<longleftrightarrow> e_NewSession env dir = Inr i \<or> opened env evs i"
  "opened env (Published subject v # evs) i = opened env evs i" "opened env (AcpPrompt j p # evs) i = opened env evs i"
  "opened env (AcpInitialize # evs) i = opened env evs i"
  by (auto simp: opened_def)

lemma publishStatus_opened [simp]: "\<not> opened env (publishStatus env' h taskID state msg) i"
  by (auto simp: publishStatus_def Let_def split: option.splits)

lemma run_prompt_opened: "run_prompt env req taskID j trace h = (evs, h', r) \<Longrightarrow> \<not> opened env evs i"
  by (auto simp: run_prompt_def publish_result_def fail_def Let_def split: if_splits sum.splits option.splits)

lemma handle_session_opened:
  "handle_session env req taskID trace h = (evs, h', r) \<Longrightarrow> opened env evs i \<longleftrightarrow> e_NewSession env (h_workDir h) = Inr i"
  using run_prompt_opened by (auto simp: handle_session_def fail_def split: sum.splits prod.splits)

lemma handle_request_frame:
  assumes "handle_request env body h = (evs, h', r)"
  shows "frame h' = frame h \<and> mlookup (h_sessions h') i = (if opened env evs i then None else mlookup (h_sessions h) i)"
proof (cases "e_Unmarshal env body")
  case (Inl e)
  then show ?thesis using assms by (simp add: handle_request_def)
next
  case (Inr req)
  obtain evs1 h1 e where init: "init_once env h = (evs1, h1, e)" by (metis prod_cases3)
  note f = init_once_frame [OF init]
  have no: "\<not> opened env evs1 i" using init by (auto simp: init_once_def split: option.splits)
  show ?thesis
  proof (cases e)
    case (Some err)
    then show ?thesis using assms Inr init f no by (auto simp: handle_request_def Let_def fail_def)
  next
    case None
    obtain evs2 where s: "handle_session env req (task_of req) (handle_trace env req) h1 = (evs2, h', r)"
      and evs: "evs = publishStatus env h (task_of req) TaskStateWorking None @ evs1 @ evs2"
      using assms Inr init None by (auto simp: handle_request_def Let_def split: prod.splits)
    show ?thesis using handle_session_frame [OF s, of i] handle_session_opened [OF s, of i] f no by (simp add: evs)
  qed
qed

section \<open>Properties\<close>


definition example_handler :: Handler where
  "example_handler = SetInitialized (NewHandler True ''/work'' None)"

definition example_message :: Message where
  "example_message = \<lparr>m_MessageID = ''m1'', m_ContextID = ''c'', m_TaskID = ''t1'', m_Role = ''user'',
     m_Parts = [text_part ''hi''], m_Metadata = []\<rparr>"

definition example_proxy :: "string + string \<Rightarrow> proxy_env" where
  "example_proxy answer = \<lparr>e_Unmarshal = (\<lambda>_. Inr \<lparr>r_Message = example_message, r_Configuration = None\<rparr>),
     e_Publish = (\<lambda>_ _. None), e_Initialize = None, e_NewSession = (\<lambda>_. Inr ''s1''), e_Prompt = (\<lambda>_ _. answer),
     e_Timestamp = ''now'', e_Now = 0, e_Int32 = (\<lambda>_. 0), e_CtxTrace = None, e_TraceIDFromHex = (\<lambda>_. None),
     e_StartSpan = (\<lambda>p. p)\<rparr>"

lemma example_request: "e_Unmarshal (example_proxy answer) body = Inr \<lparr>r_Message = example_message, r_Configuration = None\<rparr>"
  by (simp add: example_proxy_def)

lemma example_publishes: "publishes (example_proxy answer) example_handler"
  by (simp add: publishes_def example_handler_def example_proxy_def NewHandler_def SetInitialized_def)


end
