(* ===== verification/Shutdown.thy ===== *)
theory Shutdown
  imports ProxyHandler
begin

text \<open>
  Graceful shutdown of the proxy (\<open>src/internal/proxy/shutdown.go\<close>), interleaved with the handler's
  calls. The handler's state is the record of \<open>ProxyHandler\<close>; the two goroutines that wait on
  the wait group close \<open>s_done\<close> and \<open>s_cancelDone\<close>. Timers and the caller's context can fire at any
  point where the code selects on them. Durations are in nanoseconds.
\<close>

section \<open>State and transitions\<close>

definition DefaultGracePeriod :: int where "DefaultGracePeriod = 30 * 10 ^ 9"

datatype shutdown_error = CtxErr string | ShutdownTimedOut

datatype sm_phase = NotCalled | WaitInflight | CancelSessions | WaitExit | Returned "shutdown_error option"

record ShutdownManager =
  s_handler :: Handler
  s_gracePeriod :: int
  s_workCancelled :: bool
  s_phase :: sm_phase
  s_done :: bool
  s_cancelDone :: bool
  s_cancels :: "proxy_event list"

definition NewShutdownManager :: "Handler \<Rightarrow> int \<Rightarrow> ShutdownManager" where
  "NewShutdownManager handler gracePeriod =
     \<lparr>s_handler = handler, s_gracePeriod = (if gracePeriod \<le> 0 then DefaultGracePeriod else gracePeriod),
      s_workCancelled = False, s_phase = NotCalled, s_done = False, s_cancelDone = False, s_cancels = []\<rparr>"

definition begin_shutdown :: "ShutdownManager \<Rightarrow> ShutdownManager" where
  "begin_shutdown s = s\<lparr>s_handler := (s_handler s)\<lparr>h_shuttingDown := True\<rparr>, s_phase := WaitInflight\<rparr>"

definition workCancel :: "ShutdownManager \<Rightarrow> ShutdownManager" where
  "workCancel s = s\<lparr>s_workCancelled := True\<rparr>"

definition return_shutdown :: "shutdown_error option \<Rightarrow> ShutdownManager \<Rightarrow> ShutdownManager" where
  "return_shutdown r s = s\<lparr>s_phase := Returned r\<rparr>"

definition on_handler :: "(Handler \<Rightarrow> Handler) \<Rightarrow> ShutdownManager \<Rightarrow> ShutdownManager" where
  "on_handler f s = s\<lparr>s_handler := f (s_handler s)\<rparr>"

abbreviation inflight :: "ShutdownManager \<Rightarrow> nat" where
  "inflight s \<equiv> h_inflight (s_handler s)"

inductive sm_step :: "ShutdownManager \<Rightarrow> ShutdownManager \<Rightarrow> bool" where
  Admit: "enter_handle (s_handler s) = Some h \<Longrightarrow> sm_step s (s\<lparr>s_handler := h\<rparr>)"
| Register: "0 < inflight s \<Longrightarrow> sm_step s (on_handler (registerSession i) s)"
| Deregister: "0 < inflight s \<Longrightarrow> sm_step s (on_handler (deregisterSession i) s)"
| Leave: "0 < inflight s \<Longrightarrow> sm_step s (on_handler leave_handle s)"
| Begin: "s_phase s = NotCalled \<Longrightarrow> sm_step s (begin_shutdown s)"
| WaitDone: "s_phase s \<noteq> NotCalled \<Longrightarrow> inflight s = 0 \<Longrightarrow> sm_step s (s\<lparr>s_done := True\<rparr>)"
| Ctx1: "s_phase s = WaitInflight \<Longrightarrow> sm_step s (return_shutdown (Some (CtxErr e)) (workCancel s))"
| Drained: "s_phase s = WaitInflight \<Longrightarrow> s_done s \<Longrightarrow> sm_step s (return_shutdown None (workCancel s))"
| GraceExpired: "s_phase s = WaitInflight \<Longrightarrow> sm_step s (workCancel (s\<lparr>s_phase := CancelSessions\<rparr>))"
| Cancel: "s_phase s = CancelSessions \<Longrightarrow>
    sm_step s (s\<lparr>s_cancels := CancelActiveSessions (s_handler s), s_phase := WaitExit\<rparr>)"
| WaitCancelDone: "s_phase s = WaitExit \<Longrightarrow> inflight s = 0 \<Longrightarrow> sm_step s (s\<lparr>s_cancelDone := True\<rparr>)"
| DrainedLate: "s_phase s = WaitExit \<Longrightarrow> s_cancelDone s \<Longrightarrow> sm_step s (return_shutdown None s)"
| ExitTimer: "s_phase s = WaitExit \<Longrightarrow> sm_step s (return_shutdown (Some ShutdownTimedOut) s)"
| Ctx2: "s_phase s = WaitExit \<Longrightarrow> sm_step s (return_shutdown (Some (CtxErr e)) s)"

inductive sm_steps :: "ShutdownManager \<Rightarrow> ShutdownManager \<Rightarrow> bool" where
  Refl: "sm_steps s s"
| Step: "sm_steps s s' \<Longrightarrow> sm_step s' s'' \<Longrightarrow> sm_steps s s''"

section \<open>Invariant\<close>

definition past_wait :: "sm_phase \<Rightarrow> bool" where
  "past_wait p \<longleftrightarrow> p \<noteq> NotCalled \<and> p \<noteq> WaitInflight"

definition sm_inv :: "ShutdownManager \<Rightarrow> bool" where
  "sm_inv s \<longleftrightarrow>
     (h_shuttingDown (s_handler s) \<longleftrightarrow> s_phase s \<noteq> NotCalled) \<and>
     (s_workCancelled s \<longleftrightarrow> past_wait (s_phase s)) \<and>
     (s_done s \<or> s_cancelDone s \<or> s_phase s = Returned None \<longrightarrow> s_phase s \<noteq> NotCalled \<and> inflight s = 0) \<and>
     (s_cancels s \<noteq> [] \<longrightarrow> past_wait (s_phase s)) \<and> (s_cancelDone s \<longrightarrow> past_wait (s_phase s))"

lemma handler_flag [simp]:
  "h_shuttingDown (registerSession i h) = h_shuttingDown h" "h_inflight (registerSession i h) = h_inflight h"
  "h_shuttingDown (deregisterSession i h) = h_shuttingDown h" "h_inflight (deregisterSession i h) = h_inflight h"
  "h_shuttingDown (leave_handle h) = h_shuttingDown h" "h_inflight (leave_handle h) = h_inflight h - 1"
  by (simp_all add: registerSession_def deregisterSession_def leave_handle_def)

lemma sm_inv_init: "\<not> h_shuttingDown h \<Longrightarrow> sm_inv (NewShutdownManager h g)"
  by (simp add: sm_inv_def NewShutdownManager_def past_wait_def)

lemma sm_inv_step: "sm_step s s' \<Longrightarrow> sm_inv s \<Longrightarrow> sm_inv s'"
  by (induction rule: sm_step.induct)
    (auto simp: sm_inv_def past_wait_def begin_shutdown_def workCancel_def return_shutdown_def on_handler_def
      enter_handle_def split: if_splits)

lemma sm_inv_steps: "sm_steps s s' \<Longrightarrow> sm_inv s \<Longrightarrow> sm_inv s'"
  by (induction rule: sm_steps.induct) (auto intro: sm_inv_step)

text \<open>Once shutdown has begun it stays begun, and the number of calls in flight only falls.\<close>

lemma no_new_calls:
  "sm_step s s' \<Longrightarrow> sm_inv s \<Longrightarrow> s_phase s \<noteq> NotCalled \<Longrightarrow> s_phase s' \<noteq> NotCalled \<and> inflight s' \<le> inflight s"
  by (induction rule: sm_step.induct)
    (auto simp: sm_inv_def begin_shutdown_def workCancel_def return_shutdown_def on_handler_def enter_handle_def split: if_splits)

lemma no_new_calls_steps:
  "sm_steps s s' \<Longrightarrow> sm_inv s \<Longrightarrow> s_phase s \<noteq> NotCalled \<Longrightarrow> s_phase s' \<noteq> NotCalled \<and> inflight s' \<le> inflight s"
proof (induction rule: sm_steps.induct)
  case (Step s s' s'')
  then have IH: "s_phase s' \<noteq> NotCalled" "inflight s' \<le> inflight s" by auto
  have "sm_inv s'" using sm_inv_steps [OF Step.hyps(1) Step.prems(1)] .
  from no_new_calls [OF Step.hyps(2) this IH(1)] IH(2) show ?case by auto
qed simp

lemma sm_steps_two: "sm_step s s' \<Longrightarrow> sm_step s' s'' \<Longrightarrow> sm_steps s s''"
  by (blast intro: sm_steps.intros)

text \<open>A shutdown under way can return whatever the handler's calls do: its timers end both waits.\<close>

lemma can_return:
  assumes "s_phase s \<noteq> NotCalled"
  shows "\<exists>s' r. sm_steps s s' \<and> s_phase s' = Returned r \<and> s_handler s' = s_handler s"
proof -
  have exit: "\<exists>s' r. sm_steps s s' \<and> s_phase s' = Returned r \<and> s_handler s' = s_handler t"
    if "sm_steps s t" "s_phase t = WaitExit" for t
    using sm_steps.Step [OF that(1) ExitTimer [OF that(2)]] by (force simp: return_shutdown_def)
  have cancel: "\<exists>s' r. sm_steps s s' \<and> s_phase s' = Returned r \<and> s_handler s' = s_handler t"
    if "sm_steps s t" "s_phase t = CancelSessions" for t
    using exit [OF sm_steps.Step [OF that(1) Cancel [OF that(2)]]] by simp
  show ?thesis
  proof (cases "s_phase s")
    case WaitInflight
    show ?thesis using cancel [OF sm_steps.Step [OF sm_steps.Refl GraceExpired [OF WaitInflight]]] by (simp add: workCancel_def)
  next
    case (Returned r)
    then show ?thesis using sm_steps.Refl by blast
  qed (use assms exit [OF sm_steps.Refl] cancel [OF sm_steps.Refl] in auto)
qed

lemma drained_returns:
  assumes "s_phase s = WaitInflight" "inflight s = 0"
  shows "\<exists>s'. sm_steps s s' \<and> s_phase s' = Returned None"
  using sm_steps_two [OF WaitDone Drained, of s] assms by (force simp: return_shutdown_def)

section \<open>Properties\<close>



end
