(* ===== verification/OperatorTypes.thy ===== *)
theory OperatorTypes
  imports Prelude "HOL-Library.Word"
begin

text \<open>
  The custom resources of the operator (\<open>src/operator/api/v1alpha1\<close>), one record per Go struct, and
  the Kubernetes objects its controllers read and write, with the fields the controllers use. A Go
  pointer is an \<open>option\<close>; the fields of an object that only the API server manages are one opaque
  field, \<open>om_Rest\<close>. \<open>goval\<close> is the content of an unstructured object, with Go's dynamic types kept
  apart.
\<close>

section \<open>Common types\<close>

type_synonym int32 = "32 word"

type_synonym int64 = "64 word"

type_synonym labels = "(string, string) gomap"

record ObjectMeta =
  om_Name :: string
  om_Namespace :: string
  om_Labels :: labels
  om_Annotations :: labels
  om_Owner :: "string option"
  om_Generation :: int64
  om_ResourceVersion :: string
  om_Rest :: string

record Condition =
  cond_Type :: string
  cond_Status :: bool
  cond_Reason :: string
  cond_Message :: string
  cond_ObservedGeneration :: int64

record TypedReference =
  tref_Kind :: string
  tref_APIGroup :: string
  tref_Name :: string
  tref_Namespace :: string

record KeySelector =
  ks_Name :: string
  ks_Key :: string

record ValueSource =
  vs_ConfigMapKeyRef :: "KeySelector option"
  vs_SecretKeyRef :: "KeySelector option"

record ValueRef =
  vr_Name :: string
  vr_Value :: string
  vr_ValueFrom :: "ValueSource option"

record SingleValueRef =
  sv_Value :: string
  sv_ValueFrom :: "ValueSource option"

section \<open>AgentRuntime\<close>

record ResourceQuantity =
  rq_CPU :: string
  rq_Memory :: string

record ResourceSpec =
  rs_Requests :: "ResourceQuantity option"
  rs_Limits :: "ResourceQuantity option"

record ContainerSpec =
  cs_Image :: string
  cs_Port :: int32
  cs_WorkDir :: string
  cs_Resources :: "ResourceSpec option"
  cs_ImagePullPolicy :: string
  cs_ImagePullSecrets :: "string list"
  cs_StartupTimeout :: string
  cs_TerminationGracePeriod :: string

record QueueBinding =
  qb_Subject :: string
  qb_Stream :: string
  qb_DurableName :: string

record KEDASpec =
  kd_PollingInterval :: int32
  kd_MaxReplicaCount :: int32
  kd_ActiveDeadlineSeconds :: int64
  kd_BackoffLimit :: int32
  kd_LagThreshold :: string
  kd_ActivationLagThreshold :: string
  kd_NATSMonitoringEndpoint :: string

record ScalingSpec =
  sc_Mode :: string
  sc_Replicas :: "int32 option"
  sc_KEDA :: "KEDASpec option"

record ResurrectionSpec =
  re_FullThreshold :: int32
  re_CheckpointThreshold :: int32

record ContextManagementSpec =
  cm_CompactionInterval :: string
  cm_TokenThreshold :: int64
  cm_EventRetentionSize :: int32
  cm_Summarizer :: "TypedReference option"
  cm_OverlapSize :: int32
  cm_Resurrection :: "ResurrectionSpec option"

record SkillSpec =
  ss_ID :: string
  ss_Name :: string
  ss_Description :: string
  ss_Tags :: "string list"
  ss_Examples :: "string list"

record CapabilitiesSpec =
  cp_Streaming :: bool
  cp_PushNotifications :: bool

record AgentCardInline =
  ai_Name :: string
  ai_Description :: string
  ai_Version :: string
  ai_Skills :: "SkillSpec list"
  ai_DefaultInputModes :: "string list"
  ai_DefaultOutputModes :: "string list"
  ai_Capabilities :: "CapabilitiesSpec option"

record AllowedNamespaces =
  an_From :: string
  an_Selector :: "labels option"

record AgentRuntimeSpec =
  rt_Type :: string
  rt_ConformanceLevel :: string
  rt_Container :: ContainerSpec
  rt_Queue :: QueueBinding
  rt_Scaling :: "ScalingSpec option"
  rt_AgentCard :: "AgentCardInline option"
  rt_AgentCardRef :: "TypedReference option"
  rt_ModelConfigRef :: "TypedReference option"
  rt_MCPServers :: "TypedReference list"
  rt_ContextManagement :: "ContextManagementSpec option"
  rt_AllowedNamespaces :: "AllowedNamespaces option"
  rt_Env :: "ValueRef list"

record ContextUsageStatus =
  cu_CurrentTokens :: int64
  cu_UsagePercent :: int32
  cu_CompactionCount :: int32
  cu_LastCompactionTime :: string
  cu_LastUpdated :: string

record AgentRuntimeStatus =
  st_Conditions :: "Condition list"
  st_ReadyReplicas :: int32
  st_ObservedGeneration :: int64
  st_ScaledJobName :: string
  st_ConfigMapName :: string
  st_ServiceName :: string
  st_ModelConfigHash :: string
  st_ContextUsage :: "ContextUsageStatus option"

record AgentRuntime =
  ar_Meta :: ObjectMeta
  ar_Spec :: AgentRuntimeSpec
  ar_Status :: AgentRuntimeStatus

section \<open>ModelConfig\<close>

record ModelConfigSpec =
  mc_Provider :: string
  mc_Model :: string
  mc_APIEndpoint :: string
  mc_APIKey :: "SingleValueRef option"
  mc_Parameters :: labels
  mc_Headers :: "ValueRef list"
  mc_AllowedNamespaces :: "AllowedNamespaces option"

record ModelConfigStatus =
  ms_Conditions :: "Condition list"
  ms_SecretHash :: string
  ms_ObservedGeneration :: int64

record ModelConfig =
  mo_Meta :: ObjectMeta
  mo_Spec :: ModelConfigSpec
  mo_Status :: ModelConfigStatus

section \<open>Kubernetes objects\<close>

text \<open>
  Dynamic values of an unstructured object. Copying one panics on values of any other type than
  nil, bool, string, int64, float64, and slices and maps of such values, so \<open>int32\<close> and
  \<open>map[string]string\<close> are kept as values of their own.
\<close>

datatype goval =
    GNil
  | GBool bool
  | GStr string
  | GInt64 int64
  | GInt32 int32
  | GStrMap labels
  | GSlice "goval list"
  | GMap "(string \<times> goval) list"

datatype EnvSource = SecretKey KeySelector | ConfigMapKey KeySelector

datatype EnvVar = EnvValue string string | EnvFrom string EnvSource

record ContainerPort =
  port_Name :: string
  port_Number :: int32
  port_Protocol :: string

record 'q Resources =
  res_Requests :: "(string, 'q) gomap option"
  res_Limits :: "(string, 'q) gomap option"

record 'q Container =
  co_Name :: string
  co_Image :: string
  co_Ports :: "ContainerPort list"
  co_Env :: "EnvVar list"
  co_ImagePullPolicy :: string
  co_Resources :: "'q Resources"

record ConfigMap =
  cf_Meta :: ObjectMeta
  cf_Data :: labels

record ServicePort =
  sp_Name :: string
  sp_Protocol :: string
  sp_Port :: int32
  sp_TargetPort :: int32

record Service =
  sv_Meta :: ObjectMeta
  sv_Type :: string
  sv_Selector :: labels
  sv_Ports :: "ServicePort list"

record 'q DeploymentSpec =
  ds_Replicas :: int32
  ds_Selector :: labels
  ds_PodLabels :: labels
  ds_Containers :: "'q Container list"
  ds_ImagePullSecrets :: "string list"

record 'q Deployment =
  dp_Meta :: ObjectMeta
  dp_Spec :: "'q DeploymentSpec"

record Unstructured =
  un_Meta :: ObjectMeta
  un_Object :: goval

record Secret =
  se_Meta :: ObjectMeta
  se_Data :: labels

datatype 'q kobj =
    ConfigMapObj ConfigMap
  | ServiceObj Service
  | DeploymentObj "'q Deployment"
  | ScaledJobObj Unstructured
  | RuntimeObj AgentRuntime
  | ModelConfigObj ModelConfig
  | SecretObj Secret

datatype kind = KConfigMap | KService | KDeployment | KScaledJob | KRuntime | KModelConfig | KSecret

type_synonym okey = "kind \<times> string \<times> string"

fun kind_of :: "'q kobj \<Rightarrow> kind" where
  "kind_of (ConfigMapObj _) = KConfigMap"
| "kind_of (ServiceObj _) = KService"
| "kind_of (DeploymentObj _) = KDeployment"
| "kind_of (ScaledJobObj _) = KScaledJob"
| "kind_of (RuntimeObj _) = KRuntime"
| "kind_of (ModelConfigObj _) = KModelConfig"
| "kind_of (SecretObj _) = KSecret"

fun meta_of :: "'q kobj \<Rightarrow> ObjectMeta" where
  "meta_of (ConfigMapObj x) = cf_Meta x"
| "meta_of (ServiceObj x) = sv_Meta x"
| "meta_of (DeploymentObj x) = dp_Meta x"
| "meta_of (ScaledJobObj x) = un_Meta x"
| "meta_of (RuntimeObj x) = ar_Meta x"
| "meta_of (ModelConfigObj x) = mo_Meta x"
| "meta_of (SecretObj x) = se_Meta x"

definition key_of :: "'q kobj \<Rightarrow> okey" where
  "key_of x = (kind_of x, om_Namespace (meta_of x), om_Name (meta_of x))"

section \<open>The API client\<close>

text \<open>
  The Kubernetes client and the helpers of its libraries are parameters over an abstract cluster
  state \<open>'s\<close>. A write answers \<open>None\<close> or an error, with the state after it; a read finds an object,
  or fails because there is none, because the kind is not installed, or for another reason.
\<close>

datatype get_error = NotFound string | NoMatch string | OtherError string

fun message :: "get_error \<Rightarrow> string" where
  "message (NotFound e) = e"
| "message (NoMatch e) = e"
| "message (OtherError e) = e"

datatype card = InlineCard AgentCardInline | CardMap labels

record agentRegistryEntry =
  re_Card :: card
  re_QueueSubject :: string
  re_Runtime :: string
  re_ACPPort :: int32
  re_ContextManagement :: "ContextManagementSpec option"

record ('s, 'q) kube =
  kube_Get :: "'s \<Rightarrow> okey \<Rightarrow> get_error + 'q kobj"
  kube_Create :: "'q kobj \<Rightarrow> 's \<Rightarrow> string option \<times> 's"
  kube_Update :: "'q kobj \<Rightarrow> 's \<Rightarrow> string option \<times> 's"
  kube_Delete :: "'q kobj \<Rightarrow> 's \<Rightarrow> string option \<times> 's"
  kube_UpdateStatus :: "'q kobj \<Rightarrow> 's \<Rightarrow> string option \<times> 's"
  kube_List :: "'s \<Rightarrow> kind \<Rightarrow> string option \<Rightarrow> string + 'q kobj list"
  kube_SetOwner :: "ObjectMeta \<Rightarrow> ObjectMeta \<Rightarrow> string + ObjectMeta"
  kube_SetCondition :: "Condition list \<Rightarrow> Condition \<Rightarrow> Condition list"
  kube_ParseQuantity :: "string \<Rightarrow> string + 'q"
  kube_ZeroQuantity :: 'q
  kube_Quote :: "string \<Rightarrow> string"
  kube_MarshalEntry :: "agentRegistryEntry \<Rightarrow> string + string"

text \<open>
  What the controllers rely on, as the API documents it. An accepted write of an object is what
  reads of its key give from then on, up to the fields the server manages; a delete makes reads
  answer that there is none; a status update replaces the status; no write touches another key.
  Setting an owner keeps name, namespace and labels. Setting a condition replaces the condition of
  its type and keeps the others.
\<close>

definition same_meta :: "ObjectMeta \<Rightarrow> ObjectMeta \<Rightarrow> bool" where
  "same_meta a b \<longleftrightarrow> om_Name a = om_Name b \<and> om_Namespace a = om_Namespace b \<and> om_Labels a = om_Labels b \<and>
     om_Annotations a = om_Annotations b \<and> om_Owner a = om_Owner b"

fun same_content :: "'q kobj \<Rightarrow> 'q kobj \<Rightarrow> bool" where
  "same_content (ConfigMapObj a) (ConfigMapObj b) \<longleftrightarrow> same_meta (cf_Meta a) (cf_Meta b) \<and> cf_Data a = cf_Data b"
| "same_content (ServiceObj a) (ServiceObj b) \<longleftrightarrow> same_meta (sv_Meta a) (sv_Meta b) \<and> sv_Type a = sv_Type b \<and>
     sv_Selector a = sv_Selector b \<and> sv_Ports a = sv_Ports b"
| "same_content (DeploymentObj a) (DeploymentObj b) \<longleftrightarrow> same_meta (dp_Meta a) (dp_Meta b) \<and> dp_Spec a = dp_Spec b"
| "same_content (ScaledJobObj a) (ScaledJobObj b) \<longleftrightarrow> same_meta (un_Meta a) (un_Meta b) \<and> un_Object a = un_Object b"
| "same_content (RuntimeObj a) (RuntimeObj b) \<longleftrightarrow> same_meta (ar_Meta a) (ar_Meta b) \<and> ar_Spec a = ar_Spec b"
| "same_content (ModelConfigObj a) (ModelConfigObj b) \<longleftrightarrow> same_meta (mo_Meta a) (mo_Meta b) \<and> mo_Spec a = mo_Spec b"
| "same_content (SecretObj a) (SecretObj b) \<longleftrightarrow> same_meta (se_Meta a) (se_Meta b) \<and> se_Data a = se_Data b"
| "same_content _ _ \<longleftrightarrow> False"

definition writes_own_key ::
  "('s \<Rightarrow> okey \<Rightarrow> get_error + 'q kobj) \<Rightarrow> ('q kobj \<Rightarrow> 's \<Rightarrow> string option \<times> 's) \<Rightarrow> bool" where
  "writes_own_key get wr \<longleftrightarrow> (\<forall>x s e s' k. wr x s = (e, s') \<longrightarrow> k \<noteq> key_of x \<longrightarrow> get s' k = get s k)"

definition stores ::
  "('s \<Rightarrow> okey \<Rightarrow> get_error + 'q kobj) \<Rightarrow> ('q kobj \<Rightarrow> 's \<Rightarrow> string option \<times> 's) \<Rightarrow> bool" where
  "stores get wr \<longleftrightarrow> (\<forall>x s s'. wr x s = (None, s') \<longrightarrow> (\<exists>x'. get s' (key_of x) = Inr x' \<and> same_content x x'))"

definition removes ::
  "('s \<Rightarrow> okey \<Rightarrow> get_error + 'q kobj) \<Rightarrow> ('q kobj \<Rightarrow> 's \<Rightarrow> string option \<times> 's) \<Rightarrow> bool" where
  "removes get wr \<longleftrightarrow> (\<forall>x s s'. wr x s = (None, s') \<longrightarrow> (\<exists>e. get s' (key_of x) = Inl (NotFound e)))"

fun status_eq :: "'q kobj \<Rightarrow> 'q kobj \<Rightarrow> bool" where
  "status_eq (RuntimeObj a) (RuntimeObj b) \<longleftrightarrow> ar_Status a = ar_Status b"
| "status_eq (ModelConfigObj a) (ModelConfigObj b) \<longleftrightarrow> mo_Status a = mo_Status b"
| "status_eq _ _ \<longleftrightarrow> False"

definition stores_status ::
  "('s \<Rightarrow> okey \<Rightarrow> get_error + 'q kobj) \<Rightarrow> ('q kobj \<Rightarrow> 's \<Rightarrow> string option \<times> 's) \<Rightarrow> bool" where
  "stores_status get wr \<longleftrightarrow> (\<forall>x y s s'. wr x s = (None, s') \<longrightarrow> get s (key_of x) = Inr y \<longrightarrow>
     (\<exists>x'. get s' (key_of x) = Inr x' \<and> same_content y x' \<and> status_eq x x'))"

definition condition_of :: "string \<Rightarrow> Condition list \<Rightarrow> Condition option" where
  "condition_of t cs = find (\<lambda>c. cond_Type c = t) cs"

definition sets_conditions :: "(Condition list \<Rightarrow> Condition \<Rightarrow> Condition list) \<Rightarrow> bool" where
  "sets_conditions f \<longleftrightarrow> (\<forall>cs c t. condition_of t (f cs c) = (if t = cond_Type c then Some c else condition_of t cs))"

definition kube_reads :: "('s, 'q) kube \<Rightarrow> bool" where
  "kube_reads K \<longleftrightarrow> (\<forall>s k x. kube_Get K s k = Inr x \<longrightarrow> key_of x = k)"

definition in_namespace :: "string option \<Rightarrow> 'q kobj \<Rightarrow> bool" where
  "in_namespace ns x \<longleftrightarrow> (case ns of None \<Rightarrow> True | Some n \<Rightarrow> om_Namespace (meta_of x) = n)"

definition kube_lists :: "('s, 'q) kube \<Rightarrow> bool" where
  "kube_lists K \<longleftrightarrow> (\<forall>s kd ns xs. kube_List K s kd ns = Inr xs \<longrightarrow> distinct (map key_of xs) \<and>
     set xs = {x. kube_Get K s (key_of x) = Inr x \<and> kind_of x = kd \<and> in_namespace ns x})"

definition sets_owner :: "(ObjectMeta \<Rightarrow> ObjectMeta \<Rightarrow> string + ObjectMeta) \<Rightarrow> bool" where
  "sets_owner f \<longleftrightarrow> (\<forall>a m m'. f a m = Inr m' \<longrightarrow> (\<exists>o'. m' = m\<lparr>om_Owner := o'\<rparr>))"

definition kube_laws :: "('s, 'q) kube \<Rightarrow> bool" where
  "kube_laws K \<longleftrightarrow> kube_reads K \<and> kube_lists K \<and>
     writes_own_key (kube_Get K) (kube_Create K) \<and> stores (kube_Get K) (kube_Create K) \<and>
     writes_own_key (kube_Get K) (kube_Update K) \<and> stores (kube_Get K) (kube_Update K) \<and>
     writes_own_key (kube_Get K) (kube_Delete K) \<and> removes (kube_Get K) (kube_Delete K) \<and>
     writes_own_key (kube_Get K) (kube_UpdateStatus K) \<and> stores_status (kube_Get K) (kube_UpdateStatus K) \<and>
     sets_conditions (kube_SetCondition K) \<and> sets_owner (kube_SetOwner K)"

subsection \<open>Consequences of the laws\<close>

lemma kube_get_key: "kube_laws K \<Longrightarrow> kube_Get K s k = Inr x \<Longrightarrow> key_of x = k"
  unfolding kube_laws_def kube_reads_def by blast

lemma kube_frame:
  assumes "kube_laws K" "k \<noteq> key_of x"
  shows "kube_Create K x s = (e, s') \<Longrightarrow> kube_Get K s' k = kube_Get K s k"
    and "kube_Update K x s = (e, s') \<Longrightarrow> kube_Get K s' k = kube_Get K s k"
    and "kube_Delete K x s = (e, s') \<Longrightarrow> kube_Get K s' k = kube_Get K s k"
    and "kube_UpdateStatus K x s = (e, s') \<Longrightarrow> kube_Get K s' k = kube_Get K s k"
  using assms unfolding kube_laws_def writes_own_key_def by metis+

lemma kube_stored:
  assumes "kube_laws K"
  shows "kube_Create K x s = (None, s') \<Longrightarrow> \<exists>x'. kube_Get K s' (key_of x) = Inr x' \<and> same_content x x'"
    and "kube_Update K x s = (None, s') \<Longrightarrow> \<exists>x'. kube_Get K s' (key_of x) = Inr x' \<and> same_content x x'"
  using assms unfolding kube_laws_def stores_def by metis+

lemma kube_removed:
  "kube_laws K \<Longrightarrow> kube_Delete K x s = (None, s') \<Longrightarrow> \<exists>e. kube_Get K s' (key_of x) = Inl (NotFound e)"
  unfolding kube_laws_def removes_def by metis

lemma kube_status_stored:
  "kube_laws K \<Longrightarrow> kube_UpdateStatus K x s = (None, s') \<Longrightarrow> kube_Get K s (key_of x) = Inr y \<Longrightarrow>
   \<exists>x'. kube_Get K s' (key_of x) = Inr x' \<and> same_content y x' \<and> status_eq x x'"
  unfolding kube_laws_def stores_status_def by metis

lemma kube_conditions:
  "kube_laws K \<Longrightarrow> condition_of t (kube_SetCondition K cs c) =
     (if t = cond_Type c then Some c else condition_of t cs)"
  by (simp add: kube_laws_def sets_conditions_def)

lemma kube_owned: "kube_laws K \<Longrightarrow> kube_SetOwner K a m = Inr m' \<Longrightarrow> \<exists>o'. m' = m\<lparr>om_Owner := o'\<rparr>"
  by (simp add: kube_laws_def sets_owner_def)

lemma kube_listed:
  "kube_laws K \<Longrightarrow> kube_List K s kd ns = Inr xs \<Longrightarrow> distinct (map key_of xs) \<and>
     set xs = {x. kube_Get K s (key_of x) = Inr x \<and> kind_of x = kd \<and> in_namespace ns x}"
  by (simp add: kube_laws_def kube_lists_def)

subsection \<open>A client over an association list\<close>

definition example_status :: "string kobj \<Rightarrow> (okey, string kobj) gomap \<Rightarrow> string option \<times> (okey, string kobj) gomap" where
  "example_status x s = (case (x, mlookup s (key_of x)) of
      (RuntimeObj a, Some (RuntimeObj b)) \<Rightarrow> (None, mput (key_of x) (RuntimeObj (b\<lparr>ar_Status := ar_Status a\<rparr>)) s)
    | (ModelConfigObj a, Some (ModelConfigObj b)) \<Rightarrow>
        (None, mput (key_of x) (ModelConfigObj (b\<lparr>mo_Status := mo_Status a\<rparr>)) s)
    | _ \<Rightarrow> (Some ''not found'', s))"

definition example_store :: "(okey, string kobj) gomap \<Rightarrow> okey \<Rightarrow> string kobj option" where
  "example_store s k = (case mlookup s k of
      None \<Rightarrow> None
    | Some x \<Rightarrow> if key_of x = k then Some x else None)"

definition example_list :: "(okey, string kobj) gomap \<Rightarrow> kind \<Rightarrow> string option \<Rightarrow> string kobj list" where
  "example_list s kd ns = filter (\<lambda>x. kind_of x = kd \<and> in_namespace ns x)
     (List.map_filter (example_store s) (remdups (mkeys s)))"

definition example_kube :: "((okey, string kobj) gomap, string) kube" where
  "example_kube = \<lparr>
     kube_Get = (\<lambda>s k. case example_store s k of None \<Rightarrow> Inl (NotFound ''not found'') | Some x \<Rightarrow> Inr x),
     kube_Create = (\<lambda>x s. (None, mput (key_of x) x s)),
     kube_Update = (\<lambda>x s. (None, mput (key_of x) x s)),
     kube_Delete = (\<lambda>x s. (None, mdel (key_of x) s)),
     kube_UpdateStatus = example_status,
     kube_List = (\<lambda>s kd ns. Inr (example_list s kd ns)),
     kube_SetOwner = (\<lambda>a m. Inr (m\<lparr>om_Owner := Some (om_Name a)\<rparr>)),
     kube_SetCondition = (\<lambda>cs c. filter (\<lambda>d. cond_Type d \<noteq> cond_Type c) cs @ [c]),
     kube_ParseQuantity = Inr,
     kube_ZeroQuantity = [],
     kube_Quote = (\<lambda>s. s),
     kube_MarshalEntry = (\<lambda>e. Inr (re_QueueSubject e))\<rparr>"

lemma same_content_refl [simp]: "same_content x x"
  by (cases x) (simp_all add: same_meta_def)

lemma example_store_put: "example_store (mput (key_of x) x s) k = (if k = key_of x then Some x else example_store s k)"
  by (simp add: example_store_def)

lemma example_store_del: "example_store (mdel k' s) k = (if k = k' then None else example_store s k)"
  by (simp add: example_store_def)

lemma find_replaced:
  "find (\<lambda>c. cond_Type c = t) (filter (\<lambda>d. cond_Type d \<noteq> cond_Type c) cs @ [c]) =
     (if t = cond_Type c then Some c else find (\<lambda>c. cond_Type c = t) cs)"
  by (induction cs) auto

lemma example_status_own:
  "example_status x s = (e, s') \<Longrightarrow> k \<noteq> key_of x \<Longrightarrow> example_store s' k = example_store s k"
  by (auto simp: example_status_def example_store_def split: kobj.splits option.splits)

lemma example_status_stored:
  "example_status x s = (None, s') \<Longrightarrow> example_store s (key_of x) = Some y \<Longrightarrow>
   \<exists>x'. example_store s' (key_of x) = Some x' \<and> same_content y x' \<and> status_eq x x'"
  by (auto simp: example_status_def example_store_def key_of_def same_meta_def
      split: kobj.splits option.splits if_splits)

lemma example_store_key: "example_store s k = Some x \<Longrightarrow> key_of x = k"
  by (auto simp: example_store_def split: option.splits if_splits)

lemma example_store_mem: "example_store s k = Some x \<Longrightarrow> k \<in> set (mkeys s)"
  by (auto simp: example_store_def mlookup_Some_keys split: option.splits)

lemma example_store_own: "example_store s k = Some x \<Longrightarrow> example_store s (key_of x) = Some x"
  using example_store_key by metis

lemma set_map_filter_store:
  "x \<in> set (List.map_filter (example_store s) ks) \<longleftrightarrow> key_of x \<in> set ks \<and> example_store s (key_of x) = Some x"
  by (induction ks)
    (auto simp: map_filter_simps dest: example_store_key example_store_own split: option.splits)

lemma example_list_keys: "distinct ks \<Longrightarrow> distinct (map key_of (List.map_filter (example_store s) ks))"
proof (induction ks)
  case (Cons k ks)
  then show ?case
    by (cases "example_store s k") (auto simp: map_filter_simps set_map_filter_store dest!: example_store_key)
qed (simp add: map_filter_simps)

lemma set_example_list:
  "set (example_list s kd ns) = {x. example_store s (key_of x) = Some x \<and> kind_of x = kd \<and> in_namespace ns x}"
  by (auto simp: example_list_def set_map_filter_store dest: example_store_mem)

lemma distinct_example_list: "distinct (map key_of (example_list s kd ns))"
  using example_list_keys [of "remdups (mkeys s)" s]
  by (simp add: example_list_def distinct_map inj_on_def)

lemma example_kube_laws: "kube_laws example_kube"
  unfolding kube_laws_def
proof (intro conjI)
  let ?get = "kube_Get example_kube"
  show "kube_reads example_kube"
    by (auto simp: kube_reads_def example_kube_def dest: example_store_key split: option.splits)
  show "kube_lists example_kube"
    by (auto simp: kube_lists_def example_kube_def distinct_example_list set_example_list split: option.splits)
  show "writes_own_key ?get (kube_Create example_kube)" "writes_own_key ?get (kube_Update example_kube)"
    "writes_own_key ?get (kube_Delete example_kube)"
    by (auto simp: writes_own_key_def example_kube_def example_store_put example_store_del)
  show "writes_own_key ?get (kube_UpdateStatus example_kube)"
    by (auto simp: writes_own_key_def example_kube_def example_status_own)
  show "stores ?get (kube_Create example_kube)" "stores ?get (kube_Update example_kube)"
    by (auto simp: stores_def example_kube_def example_store_put)
  show "removes ?get (kube_Delete example_kube)"
    by (auto simp: removes_def example_kube_def example_store_del)
  show "stores_status ?get (kube_UpdateStatus example_kube)"
    by (force simp: stores_status_def example_kube_def split: option.splits dest: example_status_stored)
  show "sets_conditions (kube_SetCondition example_kube)"
    by (simp add: sets_conditions_def condition_of_def example_kube_def find_replaced)
  show "sets_owner (kube_SetOwner example_kube)"
    by (auto simp: sets_owner_def example_kube_def)
qed

end
