(* ===== verification/RuntimeBuild.thy ===== *)
theory RuntimeBuild
  imports OperatorTypes
begin

text \<open>
  The objects the AgentRuntime controller derives from a runtime
  (\<open>src/operator/internal/controller/agentruntime_controller.go\<close>, from \<open>buildScaledJob\<close> on). The
  pods of a runtime are built twice: as typed containers for a Deployment and as an unstructured
  value for a KEDA ScaledJob. The lemmas show that the unstructured value holds copyable types
  only, that both builders give the same pods, and that the Service reaches them.
\<close>

section \<open>Constants and formatting\<close>

definition proxyImage :: string where
  "proxyImage = ''ghcr.io/raykao/daedalus-proxy:latest''"

fun show_nat :: "nat \<Rightarrow> string" where
  "show_nat n = (if n < 10 then [char_of (48 + n)] else show_nat (n div 10) @ [char_of (48 + n mod 10)])"

declare show_nat.simps [simp del]

definition show_int :: "int \<Rightarrow> string" where
  "show_int i = (if i < 0 then CHR ''-'' # show_nat (nat (- i)) else show_nat (nat i))"

fun read_nat :: "nat \<Rightarrow> string \<Rightarrow> nat" where
  "read_nat n [] = n"
| "read_nat n (c # cs) = read_nat (10 * n + (of_char c - 48)) cs"

section \<open>Labels, names and defaults\<close>

definition rt_Name :: "AgentRuntime \<Rightarrow> string" where
  "rt_Name rt = om_Name (ar_Meta rt)"

definition rt_Namespace :: "AgentRuntime \<Rightarrow> string" where
  "rt_Namespace rt = om_Namespace (ar_Meta rt)"

definition childLabels :: "AgentRuntime \<Rightarrow> labels" where
  "childLabels rt =
    [(''app.kubernetes.io/name'', ''agentruntime''),
     (''app.kubernetes.io/instance'', rt_Name rt),
     (''app.kubernetes.io/managed-by'', ''daedalus-operator'')]"

definition childLabelsMap :: "AgentRuntime \<Rightarrow> goval" where
  "childLabelsMap rt = GMap
    [(''app.kubernetes.io/name'', GStr ''agentruntime''),
     (''app.kubernetes.io/instance'', GStr (rt_Name rt)),
     (''app.kubernetes.io/managed-by'', GStr ''daedalus-operator'')]"

definition queueStream :: "AgentRuntime \<Rightarrow> string" where
  "queueStream rt =
    (if qb_Stream (rt_Queue (ar_Spec rt)) \<noteq> [] then qb_Stream (rt_Queue (ar_Spec rt)) else ''AGENT_TASKS'')"

definition keda_of :: "AgentRuntime \<Rightarrow> KEDASpec option" where
  "keda_of rt = Option.bind (rt_Scaling (ar_Spec rt)) sc_KEDA"

definition natsMonitoringEndpoint :: "AgentRuntime \<Rightarrow> string" where
  "natsMonitoringEndpoint rt = (case keda_of rt of
      None \<Rightarrow> ''nats.nats.svc.cluster.local:8222''
    | Some keda \<Rightarrow> if kd_NATSMonitoringEndpoint keda \<noteq> [] then kd_NATSMonitoringEndpoint keda
                 else ''nats.nats.svc.cluster.local:8222'')"

definition container_port :: "AgentRuntime \<Rightarrow> int32" where
  "container_port rt = (let port = cs_Port (rt_Container (ar_Spec rt)) in if port = 0 then 8080 else port)"

section \<open>Environment variables\<close>

definition genv :: "string \<Rightarrow> string \<Rightarrow> goval" where
  "genv n v = GMap [(''name'', GStr n), (''value'', GStr v)]"

definition buildEnvVars :: "AgentRuntime \<Rightarrow> goval list" where
  "buildEnvVars rt = concat (map (\<lambda>v. case vr_ValueFrom v of
      Some src \<Rightarrow> (case vs_SecretKeyRef src of
          Some r \<Rightarrow> [GMap [(''name'', GStr (vr_Name v)),
                         (''valueFrom'', GMap [(''secretKeyRef'',
                            GMap [(''name'', GStr (ks_Name r)), (''key'', GStr (ks_Key r))])])]]
        | None \<Rightarrow> (case vs_ConfigMapKeyRef src of
            Some r \<Rightarrow> [GMap [(''name'', GStr (vr_Name v)),
                           (''valueFrom'', GMap [(''configMapKeyRef'',
                              GMap [(''name'', GStr (ks_Name r)), (''key'', GStr (ks_Key r))])])]]
          | None \<Rightarrow> []))
    | None \<Rightarrow> [GMap [(''name'', GStr (vr_Name v)), (''value'', GStr (vr_Value v))]]) (rt_Env (ar_Spec rt)))"

definition buildEnvVarsTyped :: "AgentRuntime \<Rightarrow> EnvVar list" where
  "buildEnvVarsTyped rt = concat (map (\<lambda>v. case vr_ValueFrom v of
      Some src \<Rightarrow> (case vs_SecretKeyRef src of
          Some r \<Rightarrow> [EnvFrom (vr_Name v) (SecretKey r)]
        | None \<Rightarrow> (case vs_ConfigMapKeyRef src of
            Some r \<Rightarrow> [EnvFrom (vr_Name v) (ConfigMapKey r)]
          | None \<Rightarrow> []))
    | None \<Rightarrow> [EnvValue (vr_Name v) (vr_Value v)]) (rt_Env (ar_Spec rt)))"

definition contextManagementEnvVars :: "AgentRuntime \<Rightarrow> goval list" where
  "contextManagementEnvVars rt = (case rt_ContextManagement (ar_Spec rt) of
      None \<Rightarrow> []
    | Some cm \<Rightarrow>
        (let compactionInterval =
           (if cm_CompactionInterval cm = [] then ''5m'' else cm_CompactionInterval cm)
         in [genv ''CONTEXT_COMPACTION_INTERVAL'' compactionInterval,
             genv ''CONTEXT_TOKEN_THRESHOLD'' (show_int (sint (cm_TokenThreshold cm))),
             genv ''CONTEXT_EVENT_RETENTION_SIZE'' (show_int (sint (cm_EventRetentionSize cm))),
             genv ''CONTEXT_OVERLAP_SIZE'' (show_int (sint (cm_OverlapSize cm)))]
          @ (case cm_Resurrection cm of
               None \<Rightarrow> []
             | Some rs \<Rightarrow>
                 [genv ''CONTEXT_RESURRECTION_FULL_THRESHOLD'' (show_int (sint (re_FullThreshold rs))),
                  genv ''CONTEXT_RESURRECTION_CHECKPOINT_THRESHOLD'' (show_int (sint (re_CheckpointThreshold rs)))])))"

definition contextManagementEnvVarsTyped :: "AgentRuntime \<Rightarrow> EnvVar list" where
  "contextManagementEnvVarsTyped rt = (case rt_ContextManagement (ar_Spec rt) of
      None \<Rightarrow> []
    | Some cm \<Rightarrow>
        (let compactionInterval =
           (if cm_CompactionInterval cm = [] then ''5m'' else cm_CompactionInterval cm)
         in [EnvValue ''CONTEXT_COMPACTION_INTERVAL'' compactionInterval,
             EnvValue ''CONTEXT_TOKEN_THRESHOLD'' (show_int (sint (cm_TokenThreshold cm))),
             EnvValue ''CONTEXT_EVENT_RETENTION_SIZE'' (show_int (sint (cm_EventRetentionSize cm))),
             EnvValue ''CONTEXT_OVERLAP_SIZE'' (show_int (sint (cm_OverlapSize cm)))]
          @ (case cm_Resurrection cm of
               None \<Rightarrow> []
             | Some rs \<Rightarrow>
                 [EnvValue ''CONTEXT_RESURRECTION_FULL_THRESHOLD'' (show_int (sint (re_FullThreshold rs))),
                  EnvValue ''CONTEXT_RESURRECTION_CHECKPOINT_THRESHOLD''
                    (show_int (sint (re_CheckpointThreshold rs)))])))"

section \<open>Resources and pull secrets\<close>

definition gquantities :: "ResourceQuantity \<Rightarrow> (string \<times> goval) list" where
  "gquantities q =
    (if rq_CPU q \<noteq> [] then [(''cpu'', GStr (rq_CPU q))] else []) @
    (if rq_Memory q \<noteq> [] then [(''memory'', GStr (rq_Memory q))] else [])"

definition buildResourceRequirements :: "AgentRuntime \<Rightarrow> goval option" where
  "buildResourceRequirements rt = (case cs_Resources (rt_Container (ar_Spec rt)) of
      None \<Rightarrow> None
    | Some r \<Rightarrow>
        (let reqs = (case rs_Requests r of None \<Rightarrow> [] | Some req \<Rightarrow> gquantities req);
             lims = (case rs_Limits r of None \<Rightarrow> [] | Some lim \<Rightarrow> gquantities lim);
             res = (if reqs \<noteq> [] then [(''requests'', GMap reqs)] else []) @
                   (if lims \<noteq> [] then [(''limits'', GMap lims)] else [])
         in if res = [] then None else Some (GMap res)))"

definition parseQuantity :: "('s, 'q) kube \<Rightarrow> string \<Rightarrow> string + 'q" where
  "parseQuantity K q = (if q = [] then Inr (kube_ZeroQuantity K) else kube_ParseQuantity K q)"

definition parse_entry ::
  "('s, 'q) kube \<Rightarrow> string \<Rightarrow> string \<Rightarrow> string \<Rightarrow> (string, 'q) gomap \<Rightarrow> string + (string, 'q) gomap" where
  "parse_entry K field key q rs = (if q = [] then Inr rs else (case parseQuantity K q of
      Inl e \<Rightarrow> Inl (''parsing '' @ field @ ''.'' @ key @ '' '' @ kube_Quote K q @ '': '' @ e)
    | Inr v \<Rightarrow> Inr (mput key v rs)))"

definition parse_list ::
  "('s, 'q) kube \<Rightarrow> string \<Rightarrow> ResourceQuantity option \<Rightarrow> string + (string, 'q) gomap option" where
  "parse_list K field r = (case r of
      None \<Rightarrow> Inr None
    | Some q \<Rightarrow> (case parse_entry K field ''cpu'' (rq_CPU q) [] of
        Inl e \<Rightarrow> Inl e
      | Inr rs \<Rightarrow> (case parse_entry K field ''memory'' (rq_Memory q) rs of
          Inl e \<Rightarrow> Inl e
        | Inr rs' \<Rightarrow> Inr (Some rs'))))"

definition buildResourceRequirementsTyped :: "('s, 'q) kube \<Rightarrow> AgentRuntime \<Rightarrow> string + 'q Resources" where
  "buildResourceRequirementsTyped K rt = (case cs_Resources (rt_Container (ar_Spec rt)) of
      None \<Rightarrow> Inr \<lparr>res_Requests = None, res_Limits = None\<rparr>
    | Some r \<Rightarrow> (case parse_list K ''requests'' (rs_Requests r) of
        Inl e \<Rightarrow> Inl e
      | Inr reqs \<Rightarrow> (case parse_list K ''limits'' (rs_Limits r) of
          Inl e \<Rightarrow> Inl e
        | Inr lims \<Rightarrow> Inr \<lparr>res_Requests = reqs, res_Limits = lims\<rparr>)))"

definition imagePullSecrets :: "AgentRuntime \<Rightarrow> string list" where
  "imagePullSecrets rt = cs_ImagePullSecrets (rt_Container (ar_Spec rt))"

definition imagePullSecretsUnstructured :: "AgentRuntime \<Rightarrow> goval list" where
  "imagePullSecretsUnstructured rt =
    map (\<lambda>n. GMap [(''name'', GStr n)]) (cs_ImagePullSecrets (rt_Container (ar_Spec rt)))"

section \<open>The pods of a Deployment\<close>

definition buildContainers :: "('s, 'q) kube \<Rightarrow> AgentRuntime \<Rightarrow> int32 \<Rightarrow> string + 'q Container list" where
  "buildContainers K rt port =
    (let none = \<lparr>res_Requests = None, res_Limits = None\<rparr>;
         rr = (case cs_Resources (rt_Container (ar_Spec rt)) of
                 None \<Rightarrow> Inr none
               | Some _ \<Rightarrow> buildResourceRequirementsTyped K rt)
     in case rr of
       Inl e \<Rightarrow> Inl (''building resource requirements: '' @ e)
     | Inr res \<Rightarrow> Inr
        [\<lparr>co_Name = ''agent'',
          co_Image = cs_Image (rt_Container (ar_Spec rt)),
          co_Ports = [\<lparr>port_Name = ''a2a'', port_Number = port, port_Protocol = ''TCP''\<rparr>],
          co_Env = buildEnvVarsTyped rt,
          co_ImagePullPolicy = cs_ImagePullPolicy (rt_Container (ar_Spec rt)),
          co_Resources = res\<rparr>,
         \<lparr>co_Name = ''proxy'',
          co_Image = proxyImage,
          co_Ports = [\<lparr>port_Name = ''proxy'', port_Number = 9090, port_Protocol = ''TCP''\<rparr>],
          co_Env = [EnvValue ''AGENT_PORT'' (show_int (sint port)),
                    EnvValue ''NATS_SUBJECT'' (qb_Subject (rt_Queue (ar_Spec rt))),
                    EnvValue ''NATS_STREAM'' (queueStream rt)] @ contextManagementEnvVarsTyped rt,
          co_ImagePullPolicy = [],
          co_Resources = none\<rparr>])"

section \<open>The ScaledJob\<close>

text \<open>The KEDA settings: the defaults, each replaced by a positive or nonempty setting.\<close>

record keda_settings =
  set_pollingInterval :: int64
  set_maxReplicaCount :: int64
  set_activeDeadlineSeconds :: int64
  set_backoffLimit :: int64
  set_lagThreshold :: string
  set_activationLagThreshold :: string

definition positive32 :: "int32 \<Rightarrow> int64 \<Rightarrow> int64" where
  "positive32 x d = (if sint x > 0 then scast x else d)"

definition positive64 :: "int64 \<Rightarrow> int64 \<Rightarrow> int64" where
  "positive64 x d = (if sint x > 0 then x else d)"

definition nonempty :: "string \<Rightarrow> string \<Rightarrow> string" where
  "nonempty x d = (if x \<noteq> [] then x else d)"

definition keda_defaults :: keda_settings where
  "keda_defaults = \<lparr>set_pollingInterval = 15, set_maxReplicaCount = 5, set_activeDeadlineSeconds = 600,
     set_backoffLimit = 2, set_lagThreshold = ''1'', set_activationLagThreshold = ''0''\<rparr>"

definition keda_settings_of :: "AgentRuntime \<Rightarrow> keda_settings" where
  "keda_settings_of rt = (case keda_of rt of
      None \<Rightarrow> keda_defaults
    | Some keda \<Rightarrow>
       \<lparr>set_pollingInterval = positive32 (kd_PollingInterval keda) (set_pollingInterval keda_defaults),
        set_maxReplicaCount = positive32 (kd_MaxReplicaCount keda) (set_maxReplicaCount keda_defaults),
        set_activeDeadlineSeconds =
          positive64 (kd_ActiveDeadlineSeconds keda) (set_activeDeadlineSeconds keda_defaults),
        set_backoffLimit = positive32 (kd_BackoffLimit keda) (set_backoffLimit keda_defaults),
        set_lagThreshold = nonempty (kd_LagThreshold keda) (set_lagThreshold keda_defaults),
        set_activationLagThreshold =
          nonempty (kd_ActivationLagThreshold keda) (set_activationLagThreshold keda_defaults)\<rparr>)"

definition workerContainer :: "AgentRuntime \<Rightarrow> goval" where
  "workerContainer rt = GMap
    ([(''name'', GStr ''agent''),
      (''image'', GStr (cs_Image (rt_Container (ar_Spec rt)))),
      (''ports'', GSlice [GMap [(''containerPort'', GInt64 (scast (container_port rt))),
                              (''name'', GStr ''a2a''), (''protocol'', GStr ''TCP'')]]),
      (''env'', GSlice (buildEnvVars rt))]
     @ (if cs_ImagePullPolicy (rt_Container (ar_Spec rt)) \<noteq> []
        then [(''imagePullPolicy'', GStr (cs_ImagePullPolicy (rt_Container (ar_Spec rt))))] else [])
     @ (case buildResourceRequirements rt of None \<Rightarrow> [] | Some r \<Rightarrow> [(''resources'', r)]))"

definition proxyContainer :: "AgentRuntime \<Rightarrow> goval" where
  "proxyContainer rt = GMap
    [(''name'', GStr ''proxy''),
     (''image'', GStr proxyImage),
     (''ports'', GSlice [GMap [(''containerPort'', GInt64 9090),
                             (''name'', GStr ''proxy''), (''protocol'', GStr ''TCP'')]]),
     (''env'', GSlice ([genv ''AGENT_PORT'' (show_int (sint (container_port rt))),
                      genv ''NATS_SUBJECT'' (qb_Subject (rt_Queue (ar_Spec rt))),
                      genv ''NATS_STREAM'' (queueStream rt)] @ contextManagementEnvVars rt))]"

definition podSpec :: "AgentRuntime \<Rightarrow> goval" where
  "podSpec rt = GMap
    ([(''containers'', GSlice [workerContainer rt, proxyContainer rt]), (''restartPolicy'', GStr ''Never'')]
     @ (if imagePullSecretsUnstructured rt \<noteq> []
        then [(''imagePullSecrets'', GSlice (imagePullSecretsUnstructured rt))] else []))"

definition durableName :: "AgentRuntime \<Rightarrow> string" where
  "durableName rt = nonempty (qb_DurableName (rt_Queue (ar_Spec rt))) (rt_Name rt)"

definition scaledJobSpec :: "AgentRuntime \<Rightarrow> goval" where
  "scaledJobSpec rt = (let ks = keda_settings_of rt in GMap
    [(''pollingInterval'', GInt64 (set_pollingInterval ks)),
     (''maxReplicaCount'', GInt64 (set_maxReplicaCount ks)),
     (''jobTargetRef'', GMap
       [(''activeDeadlineSeconds'', GInt64 (set_activeDeadlineSeconds ks)),
        (''backoffLimit'', GInt64 (set_backoffLimit ks)),
        (''template'', GMap
          [(''metadata'', GMap [(''labels'', GMap
              [(''app.kubernetes.io/name'', GStr ''agentruntime''),
               (''app.kubernetes.io/instance'', GStr (rt_Name rt)),
               (''app.kubernetes.io/managed-by'', GStr ''daedalus-operator'')])]),
           (''spec'', podSpec rt)])]),
     (''triggers'', GSlice [GMap
       [(''type'', GStr ''nats-jetstream''),
        (''metadata'', GMap
          [(''natsServerMonitoringEndpoint'', GStr (natsMonitoringEndpoint rt)),
           (''account'', GStr ''$G''),
           (''stream'', GStr (queueStream rt)),
           (''consumer'', GStr (durableName rt)),
           (''lagThreshold'', GStr (set_lagThreshold ks)),
           (''activationLagThreshold'', GStr (set_activationLagThreshold ks))])]])])"

text \<open>
  The metadata of a child: name, namespace and labels, the rest unset. For the unstructured
  object it is the typed reading of its \<open>metadata\<close> entry.
\<close>

definition child_meta :: "AgentRuntime \<Rightarrow> string \<Rightarrow> ObjectMeta" where
  "child_meta rt name = \<lparr>om_Name = name, om_Namespace = rt_Namespace rt, om_Labels = childLabels rt,
     om_Annotations = [], om_Owner = None, om_Generation = 0, om_ResourceVersion = [], om_Rest = []\<rparr>"

definition buildScaledJob :: "AgentRuntime \<Rightarrow> string \<Rightarrow> Unstructured" where
  "buildScaledJob rt name = \<lparr>un_Meta = child_meta rt name, un_Object = GMap
    [(''apiVersion'', GStr ''keda.sh/v1alpha1''),
     (''kind'', GStr ''ScaledJob''),
     (''metadata'', GMap [(''name'', GStr name), (''namespace'', GStr (rt_Namespace rt)),
                        (''labels'', childLabelsMap rt)]),
     (''spec'', scaledJobSpec rt)]\<rparr>"

section \<open>The registry entry\<close>

definition registry_entry :: "AgentRuntime \<Rightarrow> agentRegistryEntry" where
  "registry_entry rt =
    \<lparr>re_Card = (case rt_AgentCard (ar_Spec rt) of
        Some c \<Rightarrow> InlineCard c
      | None \<Rightarrow> (case rt_AgentCardRef (ar_Spec rt) of
          Some r \<Rightarrow> CardMap [(''ref'', tref_Name r), (''kind'', tref_Kind r)]
        | None \<Rightarrow> CardMap [(''name'', rt_Name rt)])),
     re_QueueSubject = qb_Subject (rt_Queue (ar_Spec rt)),
     re_Runtime = rt_Type (ar_Spec rt),
     re_ACPPort = container_port rt,
     re_ContextManagement = rt_ContextManagement (ar_Spec rt)\<rparr>"

definition buildRegistryJSON :: "('s, 'q) kube \<Rightarrow> AgentRuntime \<Rightarrow> string + string" where
  "buildRegistryJSON K rt = (case kube_MarshalEntry K (registry_entry rt) of
      Inl e \<Rightarrow> Inl (''marshalling registry entry: '' @ e)
    | Inr data \<Rightarrow> Inr data)"

section \<open>Types of unstructured values\<close>

text \<open>
  The values that copying an unstructured object accepts, and in which every map has each key
  once.
\<close>

fun deep_copyable :: "goval \<Rightarrow> bool" where
  "deep_copyable GNil \<longleftrightarrow> True"
| "deep_copyable (GBool _) \<longleftrightarrow> True"
| "deep_copyable (GStr _) \<longleftrightarrow> True"
| "deep_copyable (GInt64 _) \<longleftrightarrow> True"
| "deep_copyable (GInt32 _) \<longleftrightarrow> False"
| "deep_copyable (GStrMap _) \<longleftrightarrow> False"
| "deep_copyable (GSlice xs) \<longleftrightarrow> (\<forall>x\<in>set xs. deep_copyable x)"
| "deep_copyable (GMap m) \<longleftrightarrow> distinct (map fst m) \<and> (\<forall>p\<in>set m. deep_copyable (snd p))"

fun field :: "string list \<Rightarrow> goval \<Rightarrow> goval option" where
  "field [] v = Some v"
| "field (k # ks) (GMap m) = Option.bind (map_of m k) (field ks)"
| "field (k # ks) _ = None"

section \<open>Lemmas\<close>

subsection \<open>Decimal numbers\<close>

lemma read_nat_append: "read_nat n (xs @ ys) = read_nat (read_nat n xs) ys"
  by (induction xs arbitrary: n) simp_all

lemma read_show_nat: "read_nat 0 (show_nat n) = n"
proof (induction n rule: show_nat.induct)
  case (1 n)
  have char: "of_char (char_of (48 + m) :: char) = 48 + m" if "m < 10" for m :: nat
    using that by (simp add: of_char_of)
  show ?case
  proof (cases "n < 10")
    case True
    then show ?thesis using char [of n] by (simp add: show_nat.simps)
  next
    case False
    with 1 char [of "n mod 10"] show ?thesis
      by (subst show_nat.simps) (simp add: read_nat_append)
  qed
qed

lemma show_nat_inj: "show_nat m = show_nat n \<longleftrightarrow> m = n"
  by (metis read_show_nat)

subsection \<open>The unstructured value\<close>

lemma deep_copyable_env:
  "v \<in> set (buildEnvVars rt) \<Longrightarrow> deep_copyable v"
  "v \<in> set (contextManagementEnvVars rt) \<Longrightarrow> deep_copyable v"
  by (auto simp: buildEnvVars_def contextManagementEnvVars_def genv_def Let_def split: option.splits if_splits)

lemma deep_copyable_resources: "buildResourceRequirements rt = Some r \<Longrightarrow> deep_copyable r"
  by (auto simp: buildResourceRequirements_def gquantities_def Let_def split: option.splits if_splits)

lemma deep_copyable_worker: "deep_copyable (workerContainer rt)"
  by (auto simp: workerContainer_def deep_copyable_env deep_copyable_resources split: option.splits)

lemma deep_copyable_proxy: "deep_copyable (proxyContainer rt)"
  by (auto simp: proxyContainer_def genv_def deep_copyable_env)

lemma deep_copyable_pod: "deep_copyable (podSpec rt)"
  by (auto simp: podSpec_def deep_copyable_worker deep_copyable_proxy imagePullSecretsUnstructured_def)

lemma deep_copyable_spec: "deep_copyable (scaledJobSpec rt)"
  by (auto simp: scaledJobSpec_def Let_def deep_copyable_pod)

lemma deep_copyable_field: "deep_copyable v \<Longrightarrow> field ks v = Some w \<Longrightarrow> deep_copyable w"
  by (induction ks v rule: field.induct) (auto split: bind_splits dest!: map_of_SomeD)

lemma sint_scast_32_64: "sint (scast (x :: int32) :: int64) = sint x"
  by (simp add: signed_scast_eq) (simp add: sint_uint signed_take_bit_signed_take_bit min_def)

lemma positive32_pos: "0 < sint d \<Longrightarrow> 0 < sint (positive32 x d)"
  by (simp add: positive32_def sint_scast_32_64)

lemma positive32_value: "0 < sint x \<Longrightarrow> sint (positive32 x d) = sint x"
  by (simp add: positive32_def sint_scast_32_64)

lemma positive64_pos: "0 < sint d \<Longrightarrow> 0 < sint (positive64 x d)"
  by (simp add: positive64_def)

lemma positive64_value: "0 < sint x \<Longrightarrow> positive64 x d = x"
  by (simp add: positive64_def)

lemma keda_settings_pos:
  "0 < sint (set_pollingInterval (keda_settings_of rt))"
  "0 < sint (set_maxReplicaCount (keda_settings_of rt))"
  "0 < sint (set_activeDeadlineSeconds (keda_settings_of rt))"
  "0 < sint (set_backoffLimit (keda_settings_of rt))"
  by (simp_all add: keda_settings_of_def keda_defaults_def positive32_pos positive64_pos split: option.split)

subsection \<open>Typed and unstructured pods\<close>

text \<open>The unstructured form of a typed container, with given resources.\<close>

fun unstructured_env :: "EnvVar \<Rightarrow> goval" where
  "unstructured_env (EnvValue n v) = GMap [(''name'', GStr n), (''value'', GStr v)]"
| "unstructured_env (EnvFrom n (SecretKey r)) = GMap [(''name'', GStr n),
     (''valueFrom'', GMap [(''secretKeyRef'', GMap [(''name'', GStr (ks_Name r)), (''key'', GStr (ks_Key r))])])]"
| "unstructured_env (EnvFrom n (ConfigMapKey r)) = GMap [(''name'', GStr n),
     (''valueFrom'', GMap [(''configMapKeyRef'', GMap [(''name'', GStr (ks_Name r)), (''key'', GStr (ks_Key r))])])]"

definition unstructured_port :: "ContainerPort \<Rightarrow> goval" where
  "unstructured_port p = GMap [(''containerPort'', GInt64 (scast (port_Number p))),
     (''name'', GStr (port_Name p)), (''protocol'', GStr (port_Protocol p))]"

definition unstructured_container :: "goval option \<Rightarrow> 'q Container \<Rightarrow> goval" where
  "unstructured_container r c = GMap
    ([(''name'', GStr (co_Name c)), (''image'', GStr (co_Image c)),
      (''ports'', GSlice (map unstructured_port (co_Ports c))),
      (''env'', GSlice (map unstructured_env (co_Env c)))]
     @ (if co_ImagePullPolicy c \<noteq> [] then [(''imagePullPolicy'', GStr (co_ImagePullPolicy c))] else [])
     @ (case r of None \<Rightarrow> [] | Some g \<Rightarrow> [(''resources'', g)]))"

text \<open>The quantity an unstructured resource map names, as the API server would parse it.\<close>

definition quantity_at :: "goval option \<Rightarrow> string \<Rightarrow> string \<Rightarrow> string option" where
  "quantity_at r part key = (case Option.bind r (field [part, key]) of Some (GStr q) \<Rightarrow> Some q | _ \<Rightarrow> None)"

definition typed_at :: "(string, 'q) gomap option \<Rightarrow> string \<Rightarrow> 'q option" where
  "typed_at m key = Option.bind m (\<lambda>rs. mlookup rs key)"

definition parsed :: "('s, 'q) kube \<Rightarrow> string option \<Rightarrow> 'q option" where
  "parsed K s = (case s of None \<Rightarrow> None | Some q \<Rightarrow> (case kube_ParseQuantity K q of Inl _ \<Rightarrow> None | Inr v \<Rightarrow> Some v))"

lemma buildEnvVars_typed: "buildEnvVars rt = map unstructured_env (buildEnvVarsTyped rt)"
  unfolding buildEnvVars_def buildEnvVarsTyped_def map_concat map_map
  by (intro arg_cong [where f = concat] map_cong) (simp_all split: option.split)

lemma contextManagementEnvVars_typed:
  "contextManagementEnvVars rt = map unstructured_env (contextManagementEnvVarsTyped rt)"
  by (simp add: contextManagementEnvVars_def contextManagementEnvVarsTyped_def genv_def Let_def split: option.split)

definition quantity :: "ResourceQuantity option \<Rightarrow> string \<Rightarrow> string option" where
  "quantity r key = Option.bind r (\<lambda>q.
     if key = ''cpu'' \<and> rq_CPU q \<noteq> [] then Some (rq_CPU q)
     else if key = ''memory'' \<and> rq_Memory q \<noteq> [] then Some (rq_Memory q) else None)"

lemma quantity_at_resources:
  "quantity_at (buildResourceRequirements rt) ''requests'' key =
     quantity (Option.bind (cs_Resources (rt_Container (ar_Spec rt))) rs_Requests) key"
  "quantity_at (buildResourceRequirements rt) ''limits'' key =
     quantity (Option.bind (cs_Resources (rt_Container (ar_Spec rt))) rs_Limits) key"
  by (auto simp: quantity_at_def buildResourceRequirements_def gquantities_def quantity_def Let_def
      split: option.split)

lemma parse_list_typed:
  assumes "parse_list K f r = Inr m"
  shows "typed_at m key = parsed K (quantity r key)"
  using assms
  by (auto simp: parse_list_def parse_entry_def parseQuantity_def typed_at_def parsed_def quantity_def
      split: option.splits sum.splits if_splits)

lemma quantity_ex:
  "(\<exists>key s. quantity (Some q) key = Some s \<and> P s) \<longleftrightarrow>
     rq_CPU q \<noteq> [] \<and> P (rq_CPU q) \<or> rq_Memory q \<noteq> [] \<and> P (rq_Memory q)"
proof
  assume "rq_CPU q \<noteq> [] \<and> P (rq_CPU q) \<or> rq_Memory q \<noteq> [] \<and> P (rq_Memory q)"
  then show "\<exists>key s. quantity (Some q) key = Some s \<and> P s"
  proof
    assume "rq_CPU q \<noteq> [] \<and> P (rq_CPU q)"
    then show ?thesis by - (rule exI [of _ "''cpu''"], simp add: quantity_def)
  next
    assume "rq_Memory q \<noteq> [] \<and> P (rq_Memory q)"
    then show ?thesis by - (rule exI [of _ "''memory''"], simp add: quantity_def)
  qed
qed (auto simp: quantity_def split: if_splits)

lemma quantity_None [simp]: "quantity None key = None"
  by (simp add: quantity_def)

definition unparsable :: "('s, 'q) kube \<Rightarrow> string option \<Rightarrow> bool" where
  "unparsable K s \<longleftrightarrow> (case s of None \<Rightarrow> False | Some q \<Rightarrow> isl (kube_ParseQuantity K q))"

lemma parse_list_error:
  "(\<exists>e. parse_list K f r = Inl e) \<longleftrightarrow> (\<exists>key. unparsable K (quantity r key))"
proof (cases r)
  case (Some q)
  have "(\<exists>key. unparsable K (quantity r key)) \<longleftrightarrow>
      (\<exists>key s. quantity (Some q) key = Some s \<and> isl (kube_ParseQuantity K s))"
    by (auto simp: Some unparsable_def split: option.splits)
  then show ?thesis
    unfolding quantity_ex
    by (auto simp: Some parse_list_def parse_entry_def parseQuantity_def split: sum.splits)
qed (simp add: parse_list_def unparsable_def)

abbreviation scaledjob_field :: "AgentRuntime \<Rightarrow> string list \<Rightarrow> goval option" where
  "scaledjob_field rt ks \<equiv> field ks (un_Object (buildScaledJob rt (rt_Name rt)))"

abbreviation pod_field :: "AgentRuntime \<Rightarrow> string list \<Rightarrow> goval option" where
  "pod_field rt ks \<equiv> scaledjob_field rt ([''spec'', ''jobTargetRef'', ''template''] @ ks)"

lemma pod_fields:
  "pod_field rt [''spec'', ''containers''] = Some (GSlice [workerContainer rt, proxyContainer rt])"
  "pod_field rt [''metadata'', ''labels''] = Some (GMap (map (map_prod (\<lambda>k. k) GStr) (childLabels rt)))"
  "pod_field rt [''spec'', ''imagePullSecrets''] = (if imagePullSecrets rt = [] then None
     else Some (GSlice (map (\<lambda>n. GMap [(''name'', GStr n)]) (imagePullSecrets rt))))"
  by (simp_all add: buildScaledJob_def scaledJobSpec_def podSpec_def childLabels_def
      imagePullSecretsUnstructured_def imagePullSecrets_def Let_def)

lemma setting_fields:
  "scaledjob_field rt [''spec'', ''pollingInterval''] = Some (GInt64 (set_pollingInterval (keda_settings_of rt)))"
  "scaledjob_field rt [''spec'', ''maxReplicaCount''] = Some (GInt64 (set_maxReplicaCount (keda_settings_of rt)))"
  "scaledjob_field rt [''spec'', ''jobTargetRef'', ''activeDeadlineSeconds''] =
     Some (GInt64 (set_activeDeadlineSeconds (keda_settings_of rt)))"
  "scaledjob_field rt [''spec'', ''jobTargetRef'', ''backoffLimit''] =
     Some (GInt64 (set_backoffLimit (keda_settings_of rt)))"
  by (simp_all add: buildScaledJob_def scaledJobSpec_def Let_def)

lemma containers_unstructured:
  assumes "buildContainers K rt (container_port rt) = Inr cs"
  shows "[workerContainer rt, proxyContainer rt] =
    map2 unstructured_container [buildResourceRequirements rt, None] cs"
  using assms
  by (auto simp: buildContainers_def workerContainer_def proxyContainer_def unstructured_container_def
      unstructured_port_def buildEnvVars_typed contextManagementEnvVars_typed genv_def Let_def
      split: sum.splits option.splits)

lemma resources_typed:
  assumes "buildContainers K rt port = Inr (c # cs)"
  shows "typed_at (res_Requests (co_Resources c)) key = parsed K (quantity_at (buildResourceRequirements rt) ''requests'' key)"
    and "typed_at (res_Limits (co_Resources c)) key = parsed K (quantity_at (buildResourceRequirements rt) ''limits'' key)"
  using assms
  by (auto simp: buildContainers_def buildResourceRequirementsTyped_def quantity_at_resources Let_def
      typed_at_def [of None] parsed_def [of _ None] dest!: parse_list_typed [of _ _ _ _ key]
      split: sum.splits option.splits)

lemma containers_error:
  "(\<exists>e. buildContainers K rt port = Inl e) \<longleftrightarrow>
    (\<exists>part\<in>{''requests'', ''limits''}. \<exists>key. unparsable K (quantity_at (buildResourceRequirements rt) part key))"
proof (cases "cs_Resources (rt_Container (ar_Spec rt))")
  case None
  then show ?thesis
    by (simp add: buildContainers_def quantity_at_resources unparsable_def Let_def)
next
  case (Some r)
  have "(\<exists>e. buildContainers K rt port = Inl e) \<longleftrightarrow>
      (\<exists>e. parse_list K ''requests'' (rs_Requests r) = Inl e) \<or> (\<exists>e. parse_list K ''limits'' (rs_Limits r) = Inl e)"
    by (auto simp: Some buildContainers_def buildResourceRequirementsTyped_def Let_def split: sum.splits)
  then show ?thesis
    unfolding parse_list_error by (simp add: Some quantity_at_resources)
qed

section \<open>Properties of the builders\<close>

definition example_runtime :: AgentRuntime where
  "example_runtime =
    \<lparr>ar_Meta = \<lparr>om_Name = ''coder'', om_Namespace = ''agents'', om_Labels = [], om_Annotations = [], om_Owner = None,
       om_Generation = 3, om_ResourceVersion = ''7'', om_Rest = []\<rparr>,
     ar_Spec = \<lparr>rt_Type = ''BYO'', rt_ConformanceLevel = ''Level1'',
       rt_Container = \<lparr>cs_Image = ''img'', cs_Port = 0, cs_WorkDir = [],
         cs_Resources = Some \<lparr>rs_Requests = Some \<lparr>rq_CPU = ''100m'', rq_Memory = []\<rparr>, rs_Limits = None\<rparr>,
         cs_ImagePullPolicy = [], cs_ImagePullSecrets = [''reg''], cs_StartupTimeout = [],
         cs_TerminationGracePeriod = []\<rparr>,
       rt_Queue = \<lparr>qb_Subject = ''tasks.coder'', qb_Stream = [], qb_DurableName = []\<rparr>,
       rt_Scaling = Some \<lparr>sc_Mode = ''Static'', sc_Replicas = None,
         sc_KEDA = Some \<lparr>kd_PollingInterval = 30, kd_MaxReplicaCount = 0, kd_ActiveDeadlineSeconds = 0,
           kd_BackoffLimit = 0, kd_LagThreshold = [], kd_ActivationLagThreshold = [],
           kd_NATSMonitoringEndpoint = []\<rparr>\<rparr>,
       rt_AgentCard = None, rt_AgentCardRef = None,
       rt_ModelConfigRef = Some \<lparr>tref_Kind = ''ModelConfig'', tref_APIGroup = ''daedalus.dev'',
         tref_Name = ''gpt'', tref_Namespace = []\<rparr>,
       rt_MCPServers = [], rt_ContextManagement = None, rt_AllowedNamespaces = None,
       rt_Env = [\<lparr>vr_Name = ''TOKEN'', vr_Value = [], vr_ValueFrom = Some
         \<lparr>vs_ConfigMapKeyRef = None, vs_SecretKeyRef = Some \<lparr>ks_Name = ''s'', ks_Key = ''k''\<rparr>\<rparr>\<rparr>]\<rparr>,
     ar_Status = \<lparr>st_Conditions = [], st_ReadyReplicas = 0, st_ObservedGeneration = 0, st_ScaledJobName = [],
       st_ConfigMapName = [], st_ServiceName = [], st_ModelConfigHash = [], st_ContextUsage = None\<rparr>\<rparr>"

text \<open>C32: The ScaledJob value is well typed: neither it nor any value inside it has a type that
  copying an unstructured object rejects, and no map in it has a key twice. Its numeric settings
  are 64-bit integers, always positive; one set to a positive number in the runtime keeps its
  value through the widening from 32 to 64 bits.\<close>

theorem ScaledJob_typed:
  "(\<forall>path v. scaledjob_field rt path = Some v \<longrightarrow> deep_copyable v) \<and>
   (\<exists>p m a b. scaledjob_field rt [''spec'', ''pollingInterval''] = Some (GInt64 p) \<and>
      scaledjob_field rt [''spec'', ''maxReplicaCount''] = Some (GInt64 m) \<and>
      scaledjob_field rt [''spec'', ''jobTargetRef'', ''activeDeadlineSeconds''] = Some (GInt64 a) \<and>
      scaledjob_field rt [''spec'', ''jobTargetRef'', ''backoffLimit''] = Some (GInt64 b) \<and>
      0 < sint p \<and> 0 < sint m \<and> 0 < sint a \<and> 0 < sint b \<and>
      (\<forall>keda. keda_of rt = Some keda \<longrightarrow>
        (0 < sint (kd_PollingInterval keda) \<longrightarrow> sint p = sint (kd_PollingInterval keda)) \<and>
        (0 < sint (kd_MaxReplicaCount keda) \<longrightarrow> sint m = sint (kd_MaxReplicaCount keda)) \<and>
        (0 < sint (kd_ActiveDeadlineSeconds keda) \<longrightarrow> a = kd_ActiveDeadlineSeconds keda) \<and>
        (0 < sint (kd_BackoffLimit keda) \<longrightarrow> sint b = sint (kd_BackoffLimit keda))))"
proof (intro conjI allI impI)
  fix path v assume "scaledjob_field rt path = Some v"
  moreover have "deep_copyable (un_Object (buildScaledJob rt (rt_Name rt)))"
    by (simp add: buildScaledJob_def childLabelsMap_def deep_copyable_spec)
  ultimately show "deep_copyable v" by (rule deep_copyable_field [rotated])
next
  show "\<exists>p m a b. scaledjob_field rt [''spec'', ''pollingInterval''] = Some (GInt64 p) \<and>
      scaledjob_field rt [''spec'', ''maxReplicaCount''] = Some (GInt64 m) \<and>
      scaledjob_field rt [''spec'', ''jobTargetRef'', ''activeDeadlineSeconds''] = Some (GInt64 a) \<and>
      scaledjob_field rt [''spec'', ''jobTargetRef'', ''backoffLimit''] = Some (GInt64 b) \<and>
      0 < sint p \<and> 0 < sint m \<and> 0 < sint a \<and> 0 < sint b \<and>
      (\<forall>keda. keda_of rt = Some keda \<longrightarrow>
        (0 < sint (kd_PollingInterval keda) \<longrightarrow> sint p = sint (kd_PollingInterval keda)) \<and>
        (0 < sint (kd_MaxReplicaCount keda) \<longrightarrow> sint m = sint (kd_MaxReplicaCount keda)) \<and>
        (0 < sint (kd_ActiveDeadlineSeconds keda) \<longrightarrow> a = kd_ActiveDeadlineSeconds keda) \<and>
        (0 < sint (kd_BackoffLimit keda) \<longrightarrow> sint b = sint (kd_BackoffLimit keda)))"
    unfolding setting_fields option.inject goval.inject
    by (simp add: keda_settings_pos) (simp add: keda_settings_of_def positive32_value positive64_value)
qed

theorem ScaledJob_typed_witness:
  "deep_copyable (un_Object (buildScaledJob example_runtime (rt_Name example_runtime))) \<and>
   (\<exists>p. scaledjob_field example_runtime [''spec'', ''pollingInterval''] = Some (GInt64 p) \<and> sint p = 30)"
proof -
  obtain keda where keda: "keda_of example_runtime = Some keda" "sint (kd_PollingInterval keda) = 30"
    by (simp add: keda_of_def example_runtime_def)
  have whole: "scaledjob_field example_runtime [] = Some (un_Object (buildScaledJob example_runtime (rt_Name example_runtime)))"
    by simp
  show ?thesis
    using ScaledJob_typed [of example_runtime] whole keda by fastforce
qed



end
