(* ===== verification/RuntimeCtl.thy ===== *)
theory RuntimeCtl
  imports RuntimeBuild
begin

text \<open>
  The AgentRuntime controller (\<open>src/operator/internal/controller/agentruntime_controller.go\<close>,
  \<open>Reconcile\<close> and the functions it calls on the cluster). Each operation takes the client, the
  runtime in memory and the cluster state; it gives an error or the runtime with its status
  fields set, and the state after its calls. Logging is left out.
\<close>

section \<open>Reading typed objects\<close>

text \<open>A read into a variable of one Go type; an object of another kind does not decode.\<close>

definition wrong_kind :: "get_error + 'a" where
  "wrong_kind = Inl (OtherError ''unexpected kind'')"

fun as_ConfigMap :: "get_error + 'q kobj \<Rightarrow> get_error + ConfigMap" where
  "as_ConfigMap (Inr (ConfigMapObj x)) = Inr x"
| "as_ConfigMap (Inl e) = Inl e"
| "as_ConfigMap _ = wrong_kind"

fun as_Service :: "get_error + 'q kobj \<Rightarrow> get_error + Service" where
  "as_Service (Inr (ServiceObj x)) = Inr x"
| "as_Service (Inl e) = Inl e"
| "as_Service _ = wrong_kind"

fun as_Deployment :: "get_error + 'q kobj \<Rightarrow> get_error + 'q Deployment" where
  "as_Deployment (Inr (DeploymentObj x)) = Inr x"
| "as_Deployment (Inl e) = Inl e"
| "as_Deployment _ = wrong_kind"

fun as_ScaledJob :: "get_error + 'q kobj \<Rightarrow> get_error + Unstructured" where
  "as_ScaledJob (Inr (ScaledJobObj x)) = Inr x"
| "as_ScaledJob (Inl e) = Inl e"
| "as_ScaledJob _ = wrong_kind"

fun as_Runtime :: "get_error + 'q kobj \<Rightarrow> get_error + AgentRuntime" where
  "as_Runtime (Inr (RuntimeObj x)) = Inr x"
| "as_Runtime (Inl e) = Inl e"
| "as_Runtime _ = wrong_kind"

text \<open>The end of an operation: its last write, whose error is wrapped, and the result if it went through.\<close>

fun finish :: "string \<Rightarrow> 'a \<Rightarrow> string option \<times> 's \<Rightarrow> (string + 'a) \<times> 's" where
  "finish what x (None, s) = (Inr x, s)"
| "finish what x (Some e, s) = (Inl (what @ e), s)"

section \<open>Child resources\<close>

definition reconcileConfigMap ::
  "('s, 'q) kube \<Rightarrow> AgentRuntime \<Rightarrow> 's \<Rightarrow> (string + AgentRuntime) \<times> 's" where
  "reconcileConfigMap K rt s =
    (let cmName = rt_Name rt @ ''-agent-registry'';
         rt' = rt\<lparr>ar_Status := (ar_Status rt)\<lparr>st_ConfigMapName := cmName\<rparr>\<rparr>
     in case buildRegistryJSON K rt of
       Inl e \<Rightarrow> (Inl (''building registry JSON: '' @ e), s)
     | Inr registryJSON \<Rightarrow>
        (case kube_SetOwner K (ar_Meta rt) (child_meta rt cmName) of
           Inl e \<Rightarrow> (Inl (''setting owner reference on ConfigMap: '' @ e), s)
         | Inr meta \<Rightarrow>
            (let desired = \<lparr>cf_Meta = meta, cf_Data = [(''agent-registry.json'', registryJSON)]\<rparr>
             in case as_ConfigMap (kube_Get K s (key_of (ConfigMapObj desired :: 'q kobj))) of
               Inl (NotFound _) \<Rightarrow> finish ''creating ConfigMap: '' rt' (kube_Create K (ConfigMapObj desired) s)
             | Inl e \<Rightarrow> (Inl (''getting ConfigMap: '' @ message e), s)
             | Inr existing \<Rightarrow> finish ''updating ConfigMap: '' rt' (kube_Update K (ConfigMapObj
                 (existing\<lparr>cf_Data := cf_Data desired,
                           cf_Meta := (cf_Meta existing)\<lparr>om_Labels := om_Labels (cf_Meta desired)\<rparr>\<rparr>)) s))))"

definition reconcileService ::
  "('s, 'q) kube \<Rightarrow> AgentRuntime \<Rightarrow> 's \<Rightarrow> (string + AgentRuntime) \<times> 's" where
  "reconcileService K rt s =
    (let svcName = rt_Name rt @ ''-a2a'';
         port = container_port rt;
         rt' = rt\<lparr>ar_Status := (ar_Status rt)\<lparr>st_ServiceName := svcName\<rparr>\<rparr>
     in case kube_SetOwner K (ar_Meta rt) (child_meta rt svcName) of
       Inl e \<Rightarrow> (Inl (''setting owner reference on Service: '' @ e), s)
     | Inr meta \<Rightarrow>
        (let desired =
           \<lparr>sv_Meta = meta, sv_Type = ''ClusterIP'',
            sv_Selector = [(''app.kubernetes.io/name'', ''agentruntime''),
                           (''app.kubernetes.io/instance'', rt_Name rt),
                           (''app.kubernetes.io/managed-by'', ''daedalus-operator'')],
            sv_Ports = [\<lparr>sp_Name = ''a2a'', sp_Protocol = ''TCP'', sp_Port = port, sp_TargetPort = port\<rparr>]\<rparr>
         in case as_Service (kube_Get K s (key_of (ServiceObj desired :: 'q kobj))) of
           Inl (NotFound _) \<Rightarrow> finish ''creating Service: '' rt' (kube_Create K (ServiceObj desired) s)
         | Inl e \<Rightarrow> (Inl (''getting Service: '' @ message e), s)
         | Inr existing \<Rightarrow> finish ''updating Service: '' rt' (kube_Update K (ServiceObj
             (existing\<lparr>sv_Ports := sv_Ports desired, sv_Selector := sv_Selector desired,
                       sv_Meta := (sv_Meta existing)\<lparr>om_Labels := om_Labels (sv_Meta desired)\<rparr>\<rparr>)) s)))"

section \<open>Workloads\<close>

definition deleteDeploymentIfExists :: "('s, 'q) kube \<Rightarrow> AgentRuntime \<Rightarrow> 's \<Rightarrow> string option \<times> 's" where
  "deleteDeploymentIfExists K rt s =
    (case as_Deployment (kube_Get K s (KDeployment, rt_Namespace rt, rt_Name rt)) of
       Inl (NotFound _) \<Rightarrow> (None, s)
     | Inl e \<Rightarrow> (Some (message e), s)
     | Inr dep \<Rightarrow> kube_Delete K (DeploymentObj dep) s)"

definition deleteScaledJobIfExists :: "('s, 'q) kube \<Rightarrow> AgentRuntime \<Rightarrow> 's \<Rightarrow> string option \<times> 's" where
  "deleteScaledJobIfExists K rt s =
    (case as_ScaledJob (kube_Get K s (KScaledJob, rt_Namespace rt, rt_Name rt)) of
       Inl (NotFound _) \<Rightarrow> (None, s)
     | Inl (NoMatch _) \<Rightarrow> (None, s)
     | Inl e \<Rightarrow> (Some (message e), s)
     | Inr sj \<Rightarrow> kube_Delete K (ScaledJobObj sj) s)"

definition reconcileScaledJob ::
  "('s, 'q) kube \<Rightarrow> AgentRuntime \<Rightarrow> 's \<Rightarrow> (string + AgentRuntime) \<times> 's" where
  "reconcileScaledJob K rt s =
    (let sjName = rt_Name rt;
         sj = buildScaledJob rt sjName;
         rt' = rt\<lparr>ar_Status := (ar_Status rt)\<lparr>st_ScaledJobName := sjName\<rparr>\<rparr>
     in case kube_SetOwner K (ar_Meta rt) (un_Meta sj) of
       Inl e \<Rightarrow> (Inl (''setting owner reference on ScaledJob: '' @ e), s)
     | Inr meta \<Rightarrow>
        (let sj = sj\<lparr>un_Meta := meta\<rparr>
         in case as_ScaledJob (kube_Get K s (KScaledJob, rt_Namespace rt, sjName)) of
           Inl (NotFound _) \<Rightarrow> finish ''creating ScaledJob: '' rt' (kube_Create K (ScaledJobObj sj) s)
         | Inl (NoMatch _) \<Rightarrow> finish ''creating ScaledJob: '' rt' (kube_Create K (ScaledJobObj sj) s)
         | Inl e \<Rightarrow> (Inl (''getting ScaledJob: '' @ message e), s)
         | Inr existing \<Rightarrow> finish ''updating ScaledJob: '' rt' (kube_Update K (ScaledJobObj
             (sj\<lparr>un_Meta := (un_Meta sj)\<lparr>om_ResourceVersion := om_ResourceVersion (un_Meta existing)\<rparr>\<rparr>)) s)))"

definition static_replicas :: "AgentRuntime \<Rightarrow> int32" where
  "static_replicas rt = (case Option.bind (rt_Scaling (ar_Spec rt)) sc_Replicas of None \<Rightarrow> 1 | Some n \<Rightarrow> n)"

definition deployment_spec :: "AgentRuntime \<Rightarrow> 'q Container list \<Rightarrow> 'q DeploymentSpec" where
  "deployment_spec rt containers =
    (let podLabels = [(''app.kubernetes.io/name'', ''agentruntime''),
                      (''app.kubernetes.io/instance'', rt_Name rt),
                      (''app.kubernetes.io/managed-by'', ''daedalus-operator'')]
     in \<lparr>ds_Replicas = static_replicas rt, ds_Selector = podLabels, ds_PodLabels = podLabels,
         ds_Containers = containers, ds_ImagePullSecrets = imagePullSecrets rt\<rparr>)"

definition reconcileDeployment ::
  "('s, 'q) kube \<Rightarrow> AgentRuntime \<Rightarrow> 's \<Rightarrow> (string + AgentRuntime) \<times> 's" where
  "reconcileDeployment K rt s =
    (let deployName = rt_Name rt;
         port = container_port rt;
         rt' = rt\<lparr>ar_Status := (ar_Status rt)\<lparr>st_ScaledJobName := []\<rparr>\<rparr>
     in case buildContainers K rt port of
       Inl e \<Rightarrow> (Inl (''building containers: '' @ e), s)
     | Inr containers \<Rightarrow>
        (case kube_SetOwner K (ar_Meta rt) (child_meta rt deployName) of
           Inl e \<Rightarrow> (Inl (''setting owner reference on Deployment: '' @ e), s)
         | Inr meta \<Rightarrow>
            (let desired = \<lparr>dp_Meta = meta, dp_Spec = deployment_spec rt containers\<rparr>
             in case as_Deployment (kube_Get K s (key_of (DeploymentObj desired))) of
               Inl (NotFound _) \<Rightarrow> finish ''creating Deployment: '' rt' (kube_Create K (DeploymentObj desired) s)
             | Inl e \<Rightarrow> (Inl (''getting Deployment: '' @ message e), s)
             | Inr existing \<Rightarrow> finish ''updating Deployment: '' rt' (kube_Update K (DeploymentObj
                 (existing\<lparr>dp_Spec := dp_Spec desired,
                           dp_Meta := (dp_Meta existing)\<lparr>om_Labels := om_Labels (dp_Meta desired)\<rparr>\<rparr>)) s))))"

definition scaling_mode :: "AgentRuntime \<Rightarrow> string" where
  "scaling_mode rt = (case rt_Scaling (ar_Spec rt) of
      None \<Rightarrow> ''ScaledJob''
    | Some sc \<Rightarrow> if sc_Mode sc \<noteq> [] then sc_Mode sc else ''ScaledJob'')"

definition reconcileWorkload ::
  "('s, 'q) kube \<Rightarrow> AgentRuntime \<Rightarrow> 's \<Rightarrow> (string + AgentRuntime) \<times> 's" where
  "reconcileWorkload K rt s =
    (if scaling_mode rt = ''ScaledJob'' then (case deleteDeploymentIfExists K rt s of
        (Some e, s) \<Rightarrow> (Inl e, s)
      | (None, s) \<Rightarrow> reconcileScaledJob K rt s)
     else if scaling_mode rt = ''Static'' then (case deleteScaledJobIfExists K rt s of
        (Some e, s) \<Rightarrow> (Inl e, s)
      | (None, s) \<Rightarrow> reconcileDeployment K rt s)
     else (Inl (''unsupported scaling mode: '' @ scaling_mode rt), s))"

section \<open>Reconcile\<close>

definition set_condition :: "('s, 'q) kube \<Rightarrow> string \<Rightarrow> bool \<Rightarrow> string \<Rightarrow> string \<Rightarrow> AgentRuntime \<Rightarrow> AgentRuntime" where
  "set_condition K type st reason msg rt = rt\<lparr>ar_Status := (ar_Status rt)\<lparr>st_Conditions :=
     kube_SetCondition K (st_Conditions (ar_Status rt))
       \<lparr>cond_Type = type, cond_Status = st, cond_Reason = reason, cond_Message = msg,
        cond_ObservedGeneration = om_Generation (ar_Meta rt)\<rparr>\<rparr>\<rparr>"

text \<open>The three children in order; the first error ends the sequence and keeps what was set so far.\<close>

definition reconcileChildren ::
  "('s, 'q) kube \<Rightarrow> AgentRuntime \<Rightarrow> 's \<Rightarrow> string option \<times> AgentRuntime \<times> 's" where
  "reconcileChildren K rt s = (case reconcileConfigMap K rt s of
      (Inl e, s) \<Rightarrow> (Some (''reconciling ConfigMap: '' @ e), rt, s)
    | (Inr rt, s) \<Rightarrow> (case reconcileService K rt s of
        (Inl e, s) \<Rightarrow> (Some (''reconciling Service: '' @ e), rt, s)
      | (Inr rt, s) \<Rightarrow> (case reconcileWorkload K rt s of
          (Inl e, s) \<Rightarrow> (Some (''reconciling workload: '' @ e), rt, s)
        | (Inr rt, s) \<Rightarrow> (None, rt, s))))"

definition set_result :: "('s, 'q) kube \<Rightarrow> string option \<Rightarrow> AgentRuntime \<Rightarrow> AgentRuntime" where
  "set_result K err rt0 =
    (let rt = rt0\<lparr>ar_Status := (ar_Status rt0)\<lparr>st_ObservedGeneration := om_Generation (ar_Meta rt0)\<rparr>\<rparr>
     in case err of
       Some e \<Rightarrow>
         set_condition K ''Progressing'' False ''ReconcileFailed'' e
           (set_condition K ''Available'' False ''ReconcileError'' e
             (set_condition K ''Degraded'' True ''ReconcileError'' e rt))
     | None \<Rightarrow>
         set_condition K ''Progressing'' False ''ReconcileComplete'' ''Reconciliation complete''
           (set_condition K ''Degraded'' False ''ReconcileSuccess'' ''All child resources reconciled successfully''
             (set_condition K ''Available'' True ''ReconcileSuccess''
               ''All child resources reconciled successfully'' rt)))"

definition Reconcile :: "('s, 'q) kube \<Rightarrow> string \<times> string \<Rightarrow> 's \<Rightarrow> (string + unit) \<times> 's" where
  "Reconcile K req s = (case as_Runtime (kube_Get K s (KRuntime, req)) of
      Inl (NotFound _) \<Rightarrow> (Inr (), s)
    | Inl e \<Rightarrow> (Inl (''fetching AgentRuntime: '' @ message e), s)
    | Inr rt \<Rightarrow>
       (let rt = set_condition K ''Progressing'' True ''Reconciling'' ''Reconciliation in progress'' rt
        in case reconcileChildren K rt s of (err, rt, s) \<Rightarrow>
          (case kube_UpdateStatus K (RuntimeObj (set_result K err rt)) s of
             (Some e, s) \<Rightarrow> (Inl (''updating status: '' @ e), s)
           | (None, s) \<Rightarrow> (case err of Some e \<Rightarrow> (Inl e, s) | None \<Rightarrow> (Inr (), s)))))"

section \<open>What a reconciled runtime looks like\<close>

definition has_ConfigMap :: "('s, 'q) kube \<Rightarrow> AgentRuntime \<Rightarrow> 's \<Rightarrow> bool" where
  "has_ConfigMap K rt s \<longleftrightarrow> (\<exists>json c. buildRegistryJSON K rt = Inr json \<and>
     kube_Get K s (KConfigMap, rt_Namespace rt, rt_Name rt @ ''-agent-registry'') = Inr (ConfigMapObj c) \<and>
     cf_Data c = [(''agent-registry.json'', json)] \<and> om_Labels (cf_Meta c) = childLabels rt)"

definition has_Service :: "('s, 'q) kube \<Rightarrow> AgentRuntime \<Rightarrow> 's \<Rightarrow> bool" where
  "has_Service K rt s \<longleftrightarrow> (\<exists>v. kube_Get K s (KService, rt_Namespace rt, rt_Name rt @ ''-a2a'') = Inr (ServiceObj v) \<and>
     sv_Selector v = childLabels rt \<and> om_Labels (sv_Meta v) = childLabels rt \<and>
     sv_Ports v = [\<lparr>sp_Name = ''a2a'', sp_Protocol = ''TCP'', sp_Port = container_port rt,
       sp_TargetPort = container_port rt\<rparr>])"

definition has_Deployment :: "('s, 'q) kube \<Rightarrow> AgentRuntime \<Rightarrow> 's \<Rightarrow> bool" where
  "has_Deployment K rt s \<longleftrightarrow> (\<exists>d cs. buildContainers K rt (container_port rt) = Inr cs \<and>
     kube_Get K s (KDeployment, rt_Namespace rt, rt_Name rt) = Inr (DeploymentObj d) \<and>
     dp_Spec d = deployment_spec rt cs \<and> om_Labels (dp_Meta d) = childLabels rt)"

definition has_ScaledJob :: "('s, 'q) kube \<Rightarrow> AgentRuntime \<Rightarrow> 's \<Rightarrow> bool" where
  "has_ScaledJob K rt s \<longleftrightarrow> (\<exists>j. kube_Get K s (KScaledJob, rt_Namespace rt, rt_Name rt) = Inr (ScaledJobObj j) \<and>
     un_Object j = un_Object (buildScaledJob rt (rt_Name rt)) \<and> om_Labels (un_Meta j) = childLabels rt)"

text \<open>There is no object at a key; a kind that is not installed has none.\<close>

definition absent :: "('s, 'q) kube \<Rightarrow> okey \<Rightarrow> 's \<Rightarrow> bool" where
  "absent K k s \<longleftrightarrow> (\<exists>e. kube_Get K s k = Inl (NotFound e) \<or> kube_Get K s k = Inl (NoMatch e))"

definition has_workload :: "('s, 'q) kube \<Rightarrow> AgentRuntime \<Rightarrow> 's \<Rightarrow> bool" where
  "has_workload K rt s \<longleftrightarrow>
     scaling_mode rt = ''ScaledJob'' \<and> has_ScaledJob K rt s \<and> absent K (KDeployment, rt_Namespace rt, rt_Name rt) s \<or>
     scaling_mode rt = ''Static'' \<and> has_Deployment K rt s \<and> absent K (KScaledJob, rt_Namespace rt, rt_Name rt) s"

definition same_spec :: "AgentRuntime \<Rightarrow> AgentRuntime \<Rightarrow> bool" where
  "same_spec a b \<longleftrightarrow> rt_Name a = rt_Name b \<and> rt_Namespace a = rt_Namespace b \<and> ar_Spec a = ar_Spec b"

definition own_keys :: "AgentRuntime \<Rightarrow> okey set" where
  "own_keys rt = {(KConfigMap, rt_Namespace rt, rt_Name rt @ ''-agent-registry''),
     (KService, rt_Namespace rt, rt_Name rt @ ''-a2a''),
     (KDeployment, rt_Namespace rt, rt_Name rt), (KScaledJob, rt_Namespace rt, rt_Name rt)}"

section \<open>Lemmas\<close>

subsection \<open>The desired objects depend on name, namespace and spec only\<close>

named_theorems spec_cong

lemma same_spec_refl [simp]: "same_spec rt rt"
  by (simp add: same_spec_def)

lemma same_spec_trans: "same_spec a b \<Longrightarrow> same_spec b c \<Longrightarrow> same_spec a c"
  by (simp add: same_spec_def)

lemma same_spec_status [simp]: "same_spec rt (rt\<lparr>ar_Status := x\<rparr>)" "same_spec (rt\<lparr>ar_Status := x\<rparr>) rt"
  by (simp_all add: same_spec_def rt_Name_def rt_Namespace_def)

lemma names_cong [spec_cong]:
  "same_spec a b \<Longrightarrow> rt_Name a = rt_Name b" "same_spec a b \<Longrightarrow> rt_Namespace a = rt_Namespace b"
  by (simp_all add: same_spec_def)

lemma parts_cong [spec_cong]:
  assumes "same_spec a b"
  shows "childLabels a = childLabels b" "container_port a = container_port b" "scaling_mode a = scaling_mode b"
    "registry_entry a = registry_entry b" "static_replicas a = static_replicas b"
    "imagePullSecrets a = imagePullSecrets b" "buildEnvVarsTyped a = buildEnvVarsTyped b"
    "contextManagementEnvVarsTyped a = contextManagementEnvVarsTyped b" "queueStream a = queueStream b"
    "buildResourceRequirementsTyped K a = buildResourceRequirementsTyped K b" "ar_Spec a = ar_Spec b"
    "childLabelsMap a = childLabelsMap b" "keda_of a = keda_of b" "durableName a = durableName b"
    "buildResourceRequirements a = buildResourceRequirements b"
    "imagePullSecretsUnstructured a = imagePullSecretsUnstructured b"
  unfolding childLabels_def container_port_def scaling_mode_def registry_entry_def
    static_replicas_def imagePullSecrets_def buildEnvVarsTyped_def contextManagementEnvVarsTyped_def
    queueStream_def buildResourceRequirementsTyped_def childLabelsMap_def keda_of_def durableName_def
    buildResourceRequirements_def imagePullSecretsUnstructured_def names_cong [OF assms]
    assms [unfolded same_spec_def, THEN conjunct2, THEN conjunct2]
  by (rule refl)+

lemma builders_cong [spec_cong]:
  assumes "same_spec a b"
  shows "buildRegistryJSON K a = buildRegistryJSON K b" "buildContainers K a p = buildContainers K b p"
    "deployment_spec a cs = deployment_spec b cs" "un_Object (buildScaledJob a n) = un_Object (buildScaledJob b n)"
  unfolding buildRegistryJSON_def buildContainers_def deployment_spec_def buildScaledJob_def Unstructured.select_convs
    scaledJobSpec_def podSpec_def workerContainer_def proxyContainer_def buildEnvVars_typed
    contextManagementEnvVars_typed keda_settings_of_def natsMonitoringEndpoint_def
    names_cong [OF assms] parts_cong [OF assms]
  by (rule refl)+

lemma has_cong:
  assumes "same_spec a b"
  shows "has_ConfigMap K a = has_ConfigMap K b" "has_Service K a = has_Service K b"
    "has_workload K a = has_workload K b" "own_keys a = own_keys b"
  by (simp_all add: fun_eq_iff has_ConfigMap_def has_Service_def has_workload_def has_Deployment_def
      has_ScaledJob_def own_keys_def spec_cong [OF assms])

subsection \<open>Writes\<close>

lemma finish_state: "finish w y p = (r, s') \<Longrightarrow> p = (fst p, s')"
  by (cases p; cases "fst p") auto

lemma finish_Inr: "finish w y p = (Inr z, s') \<Longrightarrow> z = y \<and> p = (None, s')"
  by (cases p; cases "fst p") auto

lemma finish_frame:
  assumes "kube_laws K" "k \<noteq> key_of x"
  shows "finish w y (kube_Create K x s) = (r, s') \<Longrightarrow> kube_Get K s' k = kube_Get K s k"
    and "finish w y (kube_Update K x s) = (r, s') \<Longrightarrow> kube_Get K s' k = kube_Get K s k"
  by (drule finish_state, erule kube_frame [OF assms])+

lemma finish_stored:
  assumes "kube_laws K"
  shows "finish w y (kube_Create K x s) = (Inr z, s') \<Longrightarrow> z = y \<and> (\<exists>x'. kube_Get K s' (key_of x) = Inr x' \<and> same_content x x')"
    and "finish w y (kube_Update K x s) = (Inr z, s') \<Longrightarrow> z = y \<and> (\<exists>x'. kube_Get K s' (key_of x) = Inr x' \<and> same_content x x')"
  by (drule finish_Inr, elim conjE, intro conjI, assumption, erule kube_stored [OF assms])+

lemma as_Inr [simp]:
  "as_ConfigMap r = Inr c \<longleftrightarrow> r = Inr (ConfigMapObj c)"
  "as_Service r = Inr v \<longleftrightarrow> r = Inr (ServiceObj v)"
  "as_Deployment r = Inr d \<longleftrightarrow> r = Inr (DeploymentObj d)"
  "as_ScaledJob r = Inr j \<longleftrightarrow> r = Inr (ScaledJobObj j)"
  "as_Runtime r = Inr rt \<longleftrightarrow> r = Inr (RuntimeObj rt)"
      apply (cases r rule: as_ConfigMap.cases; simp add: wrong_kind_def)
     apply (cases r rule: as_Service.cases; simp add: wrong_kind_def)
    apply (cases r rule: as_Deployment.cases; simp add: wrong_kind_def)
   apply (cases r rule: as_ScaledJob.cases; simp add: wrong_kind_def)
  apply (cases r rule: as_Runtime.cases; simp add: wrong_kind_def)
  done

lemma as_absent:
  "as_Deployment (kube_Get K s k) = Inl (NotFound e) \<Longrightarrow> absent K k s"
  "as_ScaledJob (kube_Get K s k) = Inl (NotFound e) \<Longrightarrow> absent K k s"
  "as_ScaledJob (kube_Get K s k) = Inl (NoMatch e) \<Longrightarrow> absent K k s"
    apply (cases "kube_Get K s k" rule: as_Deployment.cases; force simp: wrong_kind_def absent_def)
   apply (cases "kube_Get K s k" rule: as_ScaledJob.cases; force simp: wrong_kind_def absent_def)
  apply (cases "kube_Get K s k" rule: as_ScaledJob.cases; force simp: wrong_kind_def absent_def)
  done

lemma owned_meta:
  assumes "kube_laws K" "kube_SetOwner K a (child_meta rt n) = Inr m"
  shows "om_Name m = n" "om_Namespace m = rt_Namespace rt" "om_Labels m = childLabels rt"
  using kube_owned [OF assms] by (auto simp: child_meta_def)

lemma found_meta:
  assumes "kube_laws K" "kube_Get K s (kd, ns, n) = Inr x"
  shows "om_Name (meta_of x) = n \<and> om_Namespace (meta_of x) = ns"
  using kube_get_key [OF assms] by (auto simp: key_of_def)

lemma same_content_cases:
  "same_content (ConfigMapObj c) x \<Longrightarrow> \<exists>c'. x = ConfigMapObj c' \<and> same_meta (cf_Meta c) (cf_Meta c') \<and> cf_Data c = cf_Data c'"
  "same_content (ServiceObj v) x \<Longrightarrow> \<exists>v'. x = ServiceObj v' \<and> same_meta (sv_Meta v) (sv_Meta v') \<and>
     sv_Selector v = sv_Selector v' \<and> sv_Ports v = sv_Ports v'"
  "same_content (DeploymentObj d) x \<Longrightarrow> \<exists>d'. x = DeploymentObj d' \<and> same_meta (dp_Meta d) (dp_Meta d') \<and> dp_Spec d = dp_Spec d'"
  "same_content (ScaledJobObj j) x \<Longrightarrow> \<exists>j'. x = ScaledJobObj j' \<and> same_meta (un_Meta j) (un_Meta j') \<and> un_Object j = un_Object j'"
  by (cases x; simp)+

subsection \<open>Child resources\<close>

text \<open>
  An operation that fails before writing, or ends with one write at a key, of an object with a
  given property.
\<close>

definition one_write ::
  "('s, 'q) kube \<Rightarrow> okey \<Rightarrow> ('q kobj \<Rightarrow> bool) \<Rightarrow> 'a \<Rightarrow> 's \<Rightarrow> string + 'a \<Rightarrow> 's \<Rightarrow> bool" where
  "one_write K k P y s r s' \<longleftrightarrow> isl r \<and> s' = s \<or>
     (\<exists>w x wr. wr \<in> {kube_Create K, kube_Update K} \<and> finish w y (wr x s) = (r, s') \<and> key_of x = k \<and> P x)"

lemma one_write_failed [simp]: "one_write K k P y s (Inl e) s"
  by (simp add: one_write_def)

lemma one_write_done:
  "finish w y (kube_Create K x s) = (r, s') \<Longrightarrow> key_of x = k \<Longrightarrow> P x \<Longrightarrow> one_write K k P y s r s'"
  "finish w y (kube_Update K x s) = (r, s') \<Longrightarrow> key_of x = k \<Longrightarrow> P x \<Longrightarrow> one_write K k P y s r s'"
  unfolding one_write_def by blast+

lemma one_write_cases:
  assumes "one_write K k P y s r s'"
  obtains (failed) e where "r = Inl e" "s' = s"
  | (created) w x where "finish w y (kube_Create K x s) = (r, s')" "key_of x = k" "P x"
  | (updated) w x where "finish w y (kube_Update K x s) = (r, s')" "key_of x = k" "P x"
  using assms unfolding one_write_def isl_def by blast

lemma one_write_frame:
  assumes "kube_laws K" "one_write K k P y s r s'" "k' \<noteq> k"
  shows "kube_Get K s' k' = kube_Get K s k'"
  using assms(2)
proof (cases rule: one_write_cases)
  case (created w x)
  with finish_frame(1) [OF assms(1)] assms(3) show ?thesis by metis
next
  case (updated w x)
  with finish_frame(2) [OF assms(1)] assms(3) show ?thesis by metis
qed simp

lemma one_write_ok:
  assumes "kube_laws K" "one_write K k P y s (Inr z) s'"
  shows "z = y \<and> (\<exists>x x'. P x \<and> kube_Get K s' k = Inr x' \<and> same_content x x')"
  using assms(2)
proof (cases rule: one_write_cases)
  case (created w x)
  with finish_stored(1) [OF assms(1) created(1)] show ?thesis by metis
next
  case (updated w x)
  with finish_stored(2) [OF assms(1) updated(1)] show ?thesis by metis
qed simp

lemma reconcileConfigMap_writes:
  assumes "kube_laws K" "reconcileConfigMap K rt s = (r, s')"
  shows "one_write K (KConfigMap, rt_Namespace rt, rt_Name rt @ ''-agent-registry'')
    (\<lambda>x. \<exists>c json. x = ConfigMapObj c \<and> buildRegistryJSON K rt = Inr json \<and>
       cf_Data c = [(''agent-registry.json'', json)] \<and> om_Labels (cf_Meta c) = childLabels rt)
    (rt\<lparr>ar_Status := (ar_Status rt)\<lparr>st_ConfigMapName := rt_Name rt @ ''-agent-registry''\<rparr>\<rparr>) s r s'"
  using assms(2)
  by (auto simp: reconcileConfigMap_def Let_def key_of_def owned_meta [OF assms(1)]
      elim!: one_write_done dest!: found_meta [OF assms(1)]
      split: sum.splits get_error.splits)

lemma reconcileService_writes:
  assumes "kube_laws K" "reconcileService K rt s = (r, s')"
  shows "one_write K (KService, rt_Namespace rt, rt_Name rt @ ''-a2a'')
    (\<lambda>x. \<exists>v. x = ServiceObj v \<and> sv_Selector v = childLabels rt \<and> om_Labels (sv_Meta v) = childLabels rt \<and>
       sv_Ports v = [\<lparr>sp_Name = ''a2a'', sp_Protocol = ''TCP'', sp_Port = container_port rt,
         sp_TargetPort = container_port rt\<rparr>])
    (rt\<lparr>ar_Status := (ar_Status rt)\<lparr>st_ServiceName := rt_Name rt @ ''-a2a''\<rparr>\<rparr>) s r s'"
  using assms(2)
  by (auto simp: reconcileService_def Let_def key_of_def owned_meta [OF assms(1)] childLabels_def
      elim!: one_write_done dest!: found_meta [OF assms(1)]
      split: sum.splits get_error.splits)

lemma reconcileScaledJob_writes:
  assumes "kube_laws K" "reconcileScaledJob K rt s = (r, s')"
  shows "one_write K (KScaledJob, rt_Namespace rt, rt_Name rt)
    (\<lambda>x. \<exists>j. x = ScaledJobObj j \<and> un_Object j = un_Object (buildScaledJob rt (rt_Name rt)) \<and>
       om_Labels (un_Meta j) = childLabels rt)
    (rt\<lparr>ar_Status := (ar_Status rt)\<lparr>st_ScaledJobName := rt_Name rt\<rparr>\<rparr>) s r s'"
  using assms(2)
  by (auto simp: reconcileScaledJob_def buildScaledJob_def Let_def key_of_def owned_meta [OF assms(1)]
      elim!: one_write_done split: sum.splits get_error.splits)

lemma reconcileDeployment_writes:
  assumes "kube_laws K" "reconcileDeployment K rt s = (r, s')"
  shows "one_write K (KDeployment, rt_Namespace rt, rt_Name rt)
    (\<lambda>x. \<exists>d cs. x = DeploymentObj d \<and> buildContainers K rt (container_port rt) = Inr cs \<and>
       dp_Spec d = deployment_spec rt cs \<and> om_Labels (dp_Meta d) = childLabels rt)
    (rt\<lparr>ar_Status := (ar_Status rt)\<lparr>st_ScaledJobName := []\<rparr>\<rparr>) s r s'"
  using assms(2)
  by (auto simp: reconcileDeployment_def Let_def key_of_def owned_meta [OF assms(1)]
      elim!: one_write_done dest!: found_meta [OF assms(1)]
      split: sum.splits get_error.splits)

lemma reconcileConfigMap_ok:
  assumes "kube_laws K" "reconcileConfigMap K rt s = (Inr rt', s')"
  shows "rt' = rt\<lparr>ar_Status := (ar_Status rt)\<lparr>st_ConfigMapName := rt_Name rt @ ''-agent-registry''\<rparr>\<rparr> \<and>
    has_ConfigMap K rt s'"
  using one_write_ok [OF assms(1) reconcileConfigMap_writes [OF assms]]
  by (fastforce simp: has_ConfigMap_def same_meta_def dest!: same_content_cases)

lemma reconcileService_ok:
  assumes "kube_laws K" "reconcileService K rt s = (Inr rt', s')"
  shows "rt' = rt\<lparr>ar_Status := (ar_Status rt)\<lparr>st_ServiceName := rt_Name rt @ ''-a2a''\<rparr>\<rparr> \<and> has_Service K rt s'"
  using one_write_ok [OF assms(1) reconcileService_writes [OF assms]]
  by (fastforce simp: has_Service_def same_meta_def dest!: same_content_cases)

lemma reconcileScaledJob_ok:
  assumes "kube_laws K" "reconcileScaledJob K rt s = (Inr rt', s')"
  shows "rt' = rt\<lparr>ar_Status := (ar_Status rt)\<lparr>st_ScaledJobName := rt_Name rt\<rparr>\<rparr> \<and> has_ScaledJob K rt s'"
  using one_write_ok [OF assms(1) reconcileScaledJob_writes [OF assms]]
  by (fastforce simp: has_ScaledJob_def same_meta_def dest!: same_content_cases)

lemma reconcileDeployment_ok:
  assumes "kube_laws K" "reconcileDeployment K rt s = (Inr rt', s')"
  shows "rt' = rt\<lparr>ar_Status := (ar_Status rt)\<lparr>st_ScaledJobName := []\<rparr>\<rparr> \<and> has_Deployment K rt s'"
  using one_write_ok [OF assms(1) reconcileDeployment_writes [OF assms]]
  by (fastforce simp: has_Deployment_def same_meta_def dest!: same_content_cases)

subsection \<open>Workloads\<close>

definition one_delete :: "('s, 'q) kube \<Rightarrow> okey \<Rightarrow> 's \<Rightarrow> string option \<Rightarrow> 's \<Rightarrow> bool" where
  "one_delete K k s e s' \<longleftrightarrow> (\<forall>k'. k' \<noteq> k \<longrightarrow> kube_Get K s' k' = kube_Get K s k') \<and> (e = None \<longrightarrow> absent K k s')"

lemma one_delete_none [simp]: "one_delete K k s None s \<longleftrightarrow> absent K k s" "one_delete K k s (Some e) s"
  by (simp_all add: one_delete_def)

lemma one_delete_frame: "one_delete K k s e s' \<Longrightarrow> k' \<noteq> k \<Longrightarrow> kube_Get K s' k' = kube_Get K s k'"
  unfolding one_delete_def by blast

lemma one_delete_found:
  assumes "kube_laws K" "kube_Delete K x s = (e, s')" "kube_Get K s k = Inr x"
  shows "one_delete K k s e s'"
proof -
  have "key_of x = k" by (rule kube_get_key [OF assms(1,3)])
  with assms(2) kube_frame(3) [OF assms(1)] kube_removed [OF assms(1)] show ?thesis
    unfolding one_delete_def absent_def by blast
qed

lemma deleteDeployment_result:
  assumes "kube_laws K" "deleteDeploymentIfExists K rt s = (e, s')"
  shows "one_delete K (KDeployment, rt_Namespace rt, rt_Name rt) s e s'"
  using assms(2) unfolding deleteDeploymentIfExists_def
  by (auto intro: as_absent elim!: one_delete_found [OF assms(1)] split: sum.splits get_error.splits)

lemma deleteScaledJob_result:
  assumes "kube_laws K" "deleteScaledJobIfExists K rt s = (e, s')"
  shows "one_delete K (KScaledJob, rt_Namespace rt, rt_Name rt) s e s'"
  using assms(2) unfolding deleteScaledJobIfExists_def
  by (auto intro: as_absent elim!: one_delete_found [OF assms(1)] split: sum.splits get_error.splits)

lemma reconcileWorkload_frame:
  assumes "kube_laws K" "reconcileWorkload K rt s = (r, s')"
    and k: "k \<noteq> (KDeployment, rt_Namespace rt, rt_Name rt)" "k \<noteq> (KScaledJob, rt_Namespace rt, rt_Name rt)"
  shows "kube_Get K s' k = kube_Get K s k"
proof -
  consider (job) s1 where "deleteDeploymentIfExists K rt s = (None, s1)" "reconcileScaledJob K rt s1 = (r, s')"
    | (jobfail) e where "deleteDeploymentIfExists K rt s = (Some e, s')"
    | (static) s1 where "deleteScaledJobIfExists K rt s = (None, s1)" "reconcileDeployment K rt s1 = (r, s')"
    | (staticfail) e where "deleteScaledJobIfExists K rt s = (Some e, s')"
    | (unsupported) "s' = s"
    using assms(2) by (auto simp: reconcileWorkload_def split: if_splits prod.splits option.splits)
  then show ?thesis
  proof cases
    case job
    then show ?thesis
      using one_delete_frame [OF deleteDeployment_result [OF assms(1)] k(1)]
        one_write_frame [OF assms(1) reconcileScaledJob_writes [OF assms(1)] k(2)] by metis
  next
    case static
    then show ?thesis
      using one_delete_frame [OF deleteScaledJob_result [OF assms(1)] k(2)]
        one_write_frame [OF assms(1) reconcileDeployment_writes [OF assms(1)] k(1)] by metis
  next
    case jobfail
    then show ?thesis by (rule one_delete_frame [OF deleteDeployment_result [OF assms(1)] k(1)])
  next
    case staticfail
    then show ?thesis by (rule one_delete_frame [OF deleteScaledJob_result [OF assms(1)] k(2)])
  qed simp
qed

lemma absent_frame: "kube_Get K s' k = kube_Get K s k \<Longrightarrow> absent K k s \<Longrightarrow> absent K k s'"
  by (simp add: absent_def)

lemma reconcileWorkload_ok:
  assumes "kube_laws K" "reconcileWorkload K rt s = (Inr rt', s')"
  shows "has_workload K rt s' \<and> rt' = rt\<lparr>ar_Status := (ar_Status rt)\<lparr>st_ScaledJobName :=
    (if scaling_mode rt = ''ScaledJob'' then rt_Name rt else [])\<rparr>\<rparr>"
proof -
  let ?dep = "(KDeployment, rt_Namespace rt, rt_Name rt)" and ?job = "(KScaledJob, rt_Namespace rt, rt_Name rt)"
  consider (job) s1 where "scaling_mode rt = ''ScaledJob''" "deleteDeploymentIfExists K rt s = (None, s1)"
      "reconcileScaledJob K rt s1 = (Inr rt', s')"
    | (static) s1 where "scaling_mode rt = ''Static''" "deleteScaledJobIfExists K rt s = (None, s1)"
      "reconcileDeployment K rt s1 = (Inr rt', s')"
    using assms(2) by (auto simp: reconcileWorkload_def split: if_splits prod.splits option.splits)
  then show ?thesis
  proof cases
    case (job s1)
    have "absent K ?dep s1"
      using deleteDeployment_result [OF assms(1) job(2)] by (simp add: one_delete_def)
    moreover have "kube_Get K s' ?dep = kube_Get K s1 ?dep"
      by (rule one_write_frame [OF assms(1) reconcileScaledJob_writes [OF assms(1) job(3)]]) simp
    ultimately show ?thesis
      using reconcileScaledJob_ok [OF assms(1) job(3)] job(1) by (auto simp: has_workload_def intro: absent_frame)
  next
    case (static s1)
    have "absent K ?job s1"
      using deleteScaledJob_result [OF assms(1) static(2)] by (simp add: one_delete_def)
    moreover have "kube_Get K s' ?job = kube_Get K s1 ?job"
      by (rule one_write_frame [OF assms(1) reconcileDeployment_writes [OF assms(1) static(3)]]) simp
    ultimately show ?thesis
      using reconcileDeployment_ok [OF assms(1) static(3)] static(1) by (auto simp: has_workload_def intro: absent_frame)
  qed
qed

subsection \<open>The whole pass\<close>

lemma has_frame:
  "kube_Get K s' (KConfigMap, rt_Namespace rt, rt_Name rt @ ''-agent-registry'') =
     kube_Get K s (KConfigMap, rt_Namespace rt, rt_Name rt @ ''-agent-registry'') \<Longrightarrow>
   has_ConfigMap K rt s \<Longrightarrow> has_ConfigMap K rt s'"
  "kube_Get K s' (KService, rt_Namespace rt, rt_Name rt @ ''-a2a'') =
     kube_Get K s (KService, rt_Namespace rt, rt_Name rt @ ''-a2a'') \<Longrightarrow> has_Service K rt s \<Longrightarrow> has_Service K rt s'"
  "kube_Get K s' (KDeployment, rt_Namespace rt, rt_Name rt) = kube_Get K s (KDeployment, rt_Namespace rt, rt_Name rt) \<Longrightarrow>
   kube_Get K s' (KScaledJob, rt_Namespace rt, rt_Name rt) = kube_Get K s (KScaledJob, rt_Namespace rt, rt_Name rt) \<Longrightarrow>
   has_workload K rt s \<Longrightarrow> has_workload K rt s'"
  by (simp_all add: has_ConfigMap_def has_Service_def has_workload_def has_Deployment_def has_ScaledJob_def absent_def)

text \<open>All children of a runtime are as desired.\<close>

definition converged :: "('s, 'q) kube \<Rightarrow> AgentRuntime \<Rightarrow> 's \<Rightarrow> bool" where
  "converged K rt s \<longleftrightarrow> has_ConfigMap K rt s \<and> has_Service K rt s \<and> has_workload K rt s"

lemma converged_cong: "same_spec a b \<Longrightarrow> converged K a s = converged K b s"
  by (simp add: converged_def has_cong)

lemma converged_frame:
  assumes "\<And>k. k \<in> own_keys rt \<Longrightarrow> kube_Get K s' k = kube_Get K s k" "converged K rt s"
  shows "converged K rt s'"
  using assms has_frame [of K s' rt s] by (simp add: converged_def own_keys_def)

text \<open>What a pass over the children keeps of the runtime in memory.\<close>

definition status_names :: "AgentRuntime \<Rightarrow> AgentRuntimeStatus \<Rightarrow> bool" where
  "status_names rt st \<longleftrightarrow> st_ConfigMapName st = rt_Name rt @ ''-agent-registry'' \<and>
     st_ServiceName st = rt_Name rt @ ''-a2a'' \<and>
     st_ScaledJobName st = (if scaling_mode rt = ''ScaledJob'' then rt_Name rt else [])"

lemma status_update_cong [simp]:
  "rt_Name (rt\<lparr>ar_Status := x\<rparr>) = rt_Name rt" "rt_Namespace (rt\<lparr>ar_Status := x\<rparr>) = rt_Namespace rt"
  "own_keys (rt\<lparr>ar_Status := x\<rparr>) = own_keys rt" "has_ConfigMap K (rt\<lparr>ar_Status := x\<rparr>) = has_ConfigMap K rt"
  "has_Service K (rt\<lparr>ar_Status := x\<rparr>) = has_Service K rt" "has_workload K (rt\<lparr>ar_Status := x\<rparr>) = has_workload K rt"
  "scaling_mode (rt\<lparr>ar_Status := x\<rparr>) = scaling_mode rt" "converged K (rt\<lparr>ar_Status := x\<rparr>) = converged K rt"
  by ((rule names_cong has_cong parts_cong(3), rule same_spec_status)+)
    (simp add: fun_eq_iff converged_cong [OF same_spec_status(2)])

abbreviation named_ConfigMap :: "AgentRuntime \<Rightarrow> AgentRuntime" where
  "named_ConfigMap rt \<equiv> rt\<lparr>ar_Status := (ar_Status rt)\<lparr>st_ConfigMapName := rt_Name rt @ ''-agent-registry''\<rparr>\<rparr>"

abbreviation named_Service :: "AgentRuntime \<Rightarrow> AgentRuntime" where
  "named_Service rt \<equiv> rt\<lparr>ar_Status := (ar_Status rt)\<lparr>st_ServiceName := rt_Name rt @ ''-a2a''\<rparr>\<rparr>"

lemma reconcileChildren_cases:
  assumes "kube_laws K" "reconcileChildren K rt s = (err, rt', s')"
  obtains (configmap) e where "reconcileConfigMap K rt s = (Inl e, s')"
      "err = Some (''reconciling ConfigMap: '' @ e)" "rt' = rt"
  | (service) e rt1 s1 where "reconcileConfigMap K rt s = (Inr rt1, s1)" "rt1 = named_ConfigMap rt"
      "reconcileService K rt1 s1 = (Inl e, s')" "err = Some (''reconciling Service: '' @ e)" "rt' = rt1"
  | (workload) e rt1 s1 rt2 s2 where "reconcileConfigMap K rt s = (Inr rt1, s1)" "rt1 = named_ConfigMap rt"
      "reconcileService K rt1 s1 = (Inr rt2, s2)" "rt2 = named_Service rt1"
      "reconcileWorkload K rt2 s2 = (Inl e, s')" "err = Some (''reconciling workload: '' @ e)" "rt' = rt2"
  | (reconciled) rt1 s1 rt2 s2 where "reconcileConfigMap K rt s = (Inr rt1, s1)" "rt1 = named_ConfigMap rt"
      "reconcileService K rt1 s1 = (Inr rt2, s2)" "rt2 = named_Service rt1"
      "reconcileWorkload K rt2 s2 = (Inr rt', s')" "err = None"
proof -
  obtain r1 s1 where one: "reconcileConfigMap K rt s = (r1, s1)" by fastforce
  show thesis
  proof (cases r1)
    case (Inl e)
    with assms(2) one show ?thesis
      by (intro configmap [of e]) (simp_all add: reconcileChildren_def)
  next
    case (Inr rt1)
    note rt1 = reconcileConfigMap_ok [OF assms(1) one [unfolded Inr], THEN conjunct1]
    obtain r2 s2 where two: "reconcileService K rt1 s1 = (r2, s2)" by fastforce
    show ?thesis
    proof (cases r2)
      case Fail: (Inl e)
      with assms(2) one two Inr show ?thesis
        by (intro service [OF one [unfolded Inr] rt1, of e]) (auto simp: reconcileChildren_def)
    next
      case Two: (Inr rt2)
      note rt2 = reconcileService_ok [OF assms(1) two [unfolded Two], THEN conjunct1]
      obtain r3 s3 where three: "reconcileWorkload K rt2 s2 = (r3, s3)" by fastforce
      note steps = one [unfolded Inr] rt1 two [unfolded Two] rt2
      show ?thesis
      proof (cases r3)
        case (Inl e)
        with assms(2) steps(1,3) three show ?thesis
          by (intro workload [OF steps, of e]) (auto simp: reconcileChildren_def)
      next
        case (Inr rt3)
        with assms(2) steps(1,3) three show ?thesis
          by (intro reconciled [OF steps]) (auto simp: reconcileChildren_def)
      qed
    qed
  qed
qed

lemma reconcileChildren_frame:
  assumes "kube_laws K" "reconcileChildren K rt s = (err, rt', s')" "k \<notin> own_keys rt"
  shows "kube_Get K s' k = kube_Get K s k"
proof -
  have k: "k \<noteq> (KConfigMap, rt_Namespace rt, rt_Name rt @ ''-agent-registry'')"
      "k \<noteq> (KService, rt_Namespace rt, rt_Name rt @ ''-a2a'')"
      "k \<noteq> (KDeployment, rt_Namespace rt, rt_Name rt)" "k \<noteq> (KScaledJob, rt_Namespace rt, rt_Name rt)"
    using assms(3) by (auto simp: own_keys_def)
  note frames = one_write_frame [OF assms(1) reconcileConfigMap_writes [OF assms(1)]]
    one_write_frame [OF assms(1) reconcileService_writes [OF assms(1)]] reconcileWorkload_frame [OF assms(1)]
  show ?thesis
    using assms(1,2)
  proof (cases rule: reconcileChildren_cases)
    case configmap
    with frames(1) k(1) show ?thesis by metis
  next
    case (service e rt1 s1)
    with frames(1) [OF service(1) k(1)] frames(2) [OF service(3), of k] k show ?thesis by simp
  next
    case (workload e rt1 s1 rt2 s2)
    with frames(1) [OF workload(1) k(1)] frames(2) [OF workload(3), of k] frames(3) [OF workload(5), of k] k
    show ?thesis by simp
  next
    case (reconciled rt1 s1 rt2 s2)
    with frames(1) [OF reconciled(1) k(1)] frames(2) [OF reconciled(3), of k] frames(3) [OF reconciled(5), of k] k
    show ?thesis by simp
  qed
qed

lemma reconcileChildren_ok:
  assumes "kube_laws K" "reconcileChildren K rt s = (None, rt', s')"
  shows "converged K rt s'" and "status_names rt (ar_Status rt')"
proof -
  from assms(1,2) have "converged K rt s' \<and> status_names rt (ar_Status rt')"
  proof (cases rule: reconcileChildren_cases)
    case (reconciled rt1 s1 rt2 s2)
    let ?cm = "(KConfigMap, rt_Namespace rt, rt_Name rt @ ''-agent-registry'')"
    let ?sv = "(KService, rt_Namespace rt, rt_Name rt @ ''-a2a'')"
    have "kube_Get K s2 ?cm = kube_Get K s1 ?cm"
      by (rule one_write_frame [OF assms(1) reconcileService_writes [OF assms(1) reconciled(3)]]) simp
    moreover have "kube_Get K s' k = kube_Get K s2 k" if "k \<in> {?cm, ?sv}" for k
      by (rule reconcileWorkload_frame [OF assms(1) reconciled(5)]) (use that in auto)
    ultimately have frame: "kube_Get K s' ?cm = kube_Get K s1 ?cm" "kube_Get K s' ?sv = kube_Get K s2 ?sv" by auto
    show ?thesis
      using reconciled(2,4) has_frame(1) [OF frame(1)] has_frame(2) [OF frame(2)]
        reconcileConfigMap_ok [OF assms(1) reconciled(1)] reconcileService_ok [OF assms(1) reconciled(3)]
        reconcileWorkload_ok [OF assms(1) reconciled(5)]
      by (simp add: converged_def status_names_def)
  qed simp_all
  then show "converged K rt s'" and "status_names rt (ar_Status rt')" by auto
qed

lemma reconcileChildren_runtime:
  assumes "kube_laws K" "reconcileChildren K rt s = (err, rt', s')"
  shows "ar_Meta rt' = ar_Meta rt \<and> ar_Spec rt' = ar_Spec rt"
  using assms
proof (cases rule: reconcileChildren_cases)
  case (reconciled rt1 s1 rt2 s2)
  with reconcileWorkload_ok [OF assms(1) reconciled(5)] show ?thesis by simp
qed simp_all

text \<open>The conditions of a status: available, not degraded, not progressing; or degraded with a message.\<close>

definition is_condition :: "string \<Rightarrow> bool \<Rightarrow> string \<Rightarrow> string \<Rightarrow> AgentRuntimeStatus \<Rightarrow> bool" where
  "is_condition type st reason msg status \<longleftrightarrow> (\<exists>c. condition_of type (st_Conditions status) = Some c \<and>
     cond_Status c = st \<and> cond_Reason c = reason \<and> cond_Message c = msg \<and>
     cond_ObservedGeneration c = st_ObservedGeneration status)"

definition shows_success :: "AgentRuntimeStatus \<Rightarrow> bool" where
  "shows_success st \<longleftrightarrow>
     is_condition ''Available'' True ''ReconcileSuccess'' ''All child resources reconciled successfully'' st \<and>
     is_condition ''Degraded'' False ''ReconcileSuccess'' ''All child resources reconciled successfully'' st \<and>
     is_condition ''Progressing'' False ''ReconcileComplete'' ''Reconciliation complete'' st"

definition shows_failure :: "string \<Rightarrow> AgentRuntimeStatus \<Rightarrow> bool" where
  "shows_failure e st \<longleftrightarrow> is_condition ''Available'' False ''ReconcileError'' e st \<and>
     is_condition ''Degraded'' True ''ReconcileError'' e st \<and> is_condition ''Progressing'' False ''ReconcileFailed'' e st"

lemma set_condition_simps [simp]:
  "ar_Meta (set_condition K t b r m rt) = ar_Meta rt" "ar_Spec (set_condition K t b r m rt) = ar_Spec rt"
  "st_ObservedGeneration (ar_Status (set_condition K t b r m rt)) = st_ObservedGeneration (ar_Status rt)"
  "status_names rt' (ar_Status (set_condition K t b r m rt)) = status_names rt' (ar_Status rt)"
  "same_spec rt (set_condition K t b r m rt)"
  by (simp_all add: set_condition_def status_names_def)

lemma condition_of_set:
  "kube_laws K \<Longrightarrow> condition_of t' (st_Conditions (ar_Status (set_condition K t b r m rt))) =
     (if t' = t then Some \<lparr>cond_Type = t, cond_Status = b, cond_Reason = r, cond_Message = m,
        cond_ObservedGeneration = om_Generation (ar_Meta rt)\<rparr> else condition_of t' (st_Conditions (ar_Status rt)))"
  by (simp add: set_condition_def kube_conditions)

lemma set_result_keeps [simp]:
  "ar_Meta (set_result K err rt) = ar_Meta rt" "ar_Spec (set_result K err rt) = ar_Spec rt"
  "st_ObservedGeneration (ar_Status (set_result K err rt)) = om_Generation (ar_Meta rt)"
  "status_names rt' (ar_Status (set_result K err rt)) = status_names rt' (ar_Status rt)"
  by (simp_all add: set_result_def Let_def status_names_def [of rt' "_\<lparr>st_ObservedGeneration := _\<rparr>"]
      status_names_def [of rt' "ar_Status rt"] split: option.split)

lemma set_result_shows:
  assumes "kube_laws K"
  shows "shows_success (ar_Status (set_result K None rt))" "shows_failure e (ar_Status (set_result K (Some e) rt))"
  using condition_of_set [OF assms]
  by (simp_all add: shows_success_def shows_failure_def is_condition_def set_result_def Let_def)

lemma same_runtime:
  "same_content (RuntimeObj rt) x \<Longrightarrow> status_eq (RuntimeObj rt2) x \<Longrightarrow>
     \<exists>rt'. x = RuntimeObj rt' \<and> ar_Spec rt' = ar_Spec rt \<and> ar_Status rt' = ar_Status rt2"
  by (cases x) simp_all

text \<open>A pass on a runtime: the children, the status, and the result of both.\<close>

abbreviation progressing :: "('s, 'q) kube \<Rightarrow> AgentRuntime \<Rightarrow> AgentRuntime" where
  "progressing K rt \<equiv> set_condition K ''Progressing'' True ''Reconciling'' ''Reconciliation in progress'' rt"

lemma Reconcile_parts:
  assumes "kube_Get K s (KRuntime, req) = Inr (RuntimeObj rt)" "Reconcile K req s = (r, s')"
  obtains err rt1 s1 e where "reconcileChildren K (progressing K rt) s = (err, rt1, s1)"
    "kube_UpdateStatus K (RuntimeObj (set_result K err rt1)) s1 = (e, s')"
    "r = (case e of Some m \<Rightarrow> Inl (''updating status: '' @ m) | None \<Rightarrow> (case err of Some m \<Rightarrow> Inl m | None \<Rightarrow> Inr ()))"
proof -
  obtain err rt1 s1 where c: "reconcileChildren K (progressing K rt) s = (err, rt1, s1)" by (metis prod_cases3)
  obtain e s2 where u: "kube_UpdateStatus K (RuntimeObj (set_result K err rt1)) s1 = (e, s2)" by fastforce
  show thesis using assms c u that by (auto simp: Reconcile_def split: option.splits)
qed

lemma Reconcile_frames:
  fixes K :: "('s, 'q) kube"
  assumes "kube_laws K" "kube_Get K s (KRuntime, req) = Inr (RuntimeObj rt)"
    "reconcileChildren K (progressing K rt) s = (err, rt1, s1)"
    "kube_UpdateStatus K (RuntimeObj (set_result K err rt1)) s1 = (e, s')"
  shows "key_of (RuntimeObj (set_result K err rt1) :: 'q kobj) = (KRuntime, req)"
    and "k \<notin> own_keys rt \<Longrightarrow> kube_Get K s1 k = kube_Get K s k"
    and "k \<noteq> (KRuntime, req) \<Longrightarrow> kube_Get K s' k = kube_Get K s1 k"
proof -
  have same: "same_spec rt (progressing K rt)" by simp
  show key: "key_of (RuntimeObj (set_result K err rt1) :: 'q kobj) = (KRuntime, req)"
    using kube_get_key [OF assms(1,2)] reconcileChildren_runtime [OF assms(1,3)] by (simp add: key_of_def)
  show "kube_Get K s1 k = kube_Get K s k" if "k \<notin> own_keys rt"
    using reconcileChildren_frame [OF assms(1,3)] that has_cong(4) [OF same] by simp
  show "kube_Get K s' k = kube_Get K s1 k" if "k \<noteq> (KRuntime, req)"
    using kube_frame(4) [OF assms(1) _ assms(4)] that key by simp
qed

lemma Reconcile_frame:
  assumes "kube_laws K" "kube_Get K s (KRuntime, req) = Inr (RuntimeObj rt)" "Reconcile K req s = (r, s')"
    "k \<noteq> (KRuntime, req)" "k \<notin> own_keys rt"
  shows "kube_Get K s' k = kube_Get K s k"
proof -
  from Reconcile_parts [OF assms(2,3)] obtain err rt1 s1 e where
    "reconcileChildren K (progressing K rt) s = (err, rt1, s1)"
    "kube_UpdateStatus K (RuntimeObj (set_result K err rt1)) s1 = (e, s')" by metis
  from Reconcile_frames(2,3) [OF assms(1,2) this] assms(4,5) show ?thesis by metis
qed

section \<open>Properties of the controller\<close>

text \<open>C28: One pass of the AgentRuntime controller does its job. If it succeeds, the registry
  ConfigMap and the A2A Service hold what the runtime asks for, and exactly the workload of its
  scaling mode is left: the ScaledJob with no Deployment, or the Deployment with no ScaledJob; the
  stored status names the children and shows success for the generation that was read. If it
  fails, the stored status shows the very error that is returned, unless storing the status is
  what failed. No object but the runtime and its four children is touched, and the runtime's own
  spec never changes.\<close>

theorem Reconcile_correct:
  assumes "kube_laws K" "kube_Get K s (KRuntime, req) = Inr (RuntimeObj rt)" "Reconcile K req s = (r, s')"
  shows "(r = Inr () \<longrightarrow> converged K rt s' \<and> scaling_mode rt \<in> {''ScaledJob'', ''Static''} \<and>
      (\<exists>rt'. kube_Get K s' (KRuntime, req) = Inr (RuntimeObj rt') \<and> ar_Spec rt' = ar_Spec rt \<and>
        shows_success (ar_Status rt') \<and> status_names rt (ar_Status rt') \<and>
        st_ObservedGeneration (ar_Status rt') = om_Generation (ar_Meta rt))) \<and>
    (\<forall>e. r = Inl e \<longrightarrow> (\<exists>m. e = ''updating status: '' @ m) \<or>
      (\<exists>rt'. kube_Get K s' (KRuntime, req) = Inr (RuntimeObj rt') \<and> ar_Spec rt' = ar_Spec rt \<and>
        shows_failure e (ar_Status rt'))) \<and>
    (\<forall>k. k \<noteq> (KRuntime, req) \<longrightarrow> k \<notin> own_keys rt \<longrightarrow> kube_Get K s' k = kube_Get K s k)"
proof -
  let ?rt0 = "progressing K rt"
  from Reconcile_parts [OF assms(2,3)] obtain err rt1 s1 e where
    children: "reconcileChildren K ?rt0 s = (err, rt1, s1)"
    and status: "kube_UpdateStatus K (RuntimeObj (set_result K err rt1)) s1 = (e, s')"
    and result: "r = (case e of Some m \<Rightarrow> Inl (''updating status: '' @ m)
      | None \<Rightarrow> (case err of Some m \<Rightarrow> Inl m | None \<Rightarrow> Inr ()))" by metis
  have same: "same_spec rt ?rt0" by simp
  note rt1 = reconcileChildren_runtime [OF assms(1) children]
  note frames = Reconcile_frames [OF assms(1,2) children status]
  have here: "kube_Get K s1 (KRuntime, req) = Inr (RuntimeObj rt)"
    using frames(2) [of "(KRuntime, req)"] assms(2) by (simp add: own_keys_def)
  have stored: "\<exists>rt'. kube_Get K s' (KRuntime, req) = Inr (RuntimeObj rt') \<and> ar_Spec rt' = ar_Spec rt \<and>
      ar_Status rt' = ar_Status (set_result K err rt1)" if "e = None"
    using kube_status_stored [OF assms(1) status [unfolded that], unfolded frames(1), OF here] by (auto dest: same_runtime)
  have own: "converged K rt s' \<and> status_names rt (ar_Status (set_result K err rt1))" if "err = None"
  proof -
    note ok = reconcileChildren_ok [OF assms(1) children [unfolded that]]
    have "converged K rt s1" using ok(1) converged_cong [OF same, of K s1] by simp
    then have "converged K rt s'"
      by (rule converged_frame [rotated]) (rule frames(3), auto simp: own_keys_def)
    moreover have "status_names rt = status_names ?rt0"
      by (simp add: fun_eq_iff status_names_def spec_cong [OF same])
    ultimately show ?thesis using ok(2) by simp
  qed
  have mode: "scaling_mode rt \<in> {''ScaledJob'', ''Static''}" if "err = None"
    using own [OF that] by (auto simp: converged_def has_workload_def)
  have gen: "om_Generation (ar_Meta rt1) = om_Generation (ar_Meta rt)" by (simp add: rt1)
  show ?thesis
  proof (intro conjI impI allI)
    assume "r = Inr ()"
    then have ok: "e = None" "err = None" using result by (auto split: option.splits)
    with own mode show "converged K rt s'" "scaling_mode rt \<in> {''ScaledJob'', ''Static''}" by auto
    show "\<exists>rt'. kube_Get K s' (KRuntime, req) = Inr (RuntimeObj rt') \<and> ar_Spec rt' = ar_Spec rt \<and>
        shows_success (ar_Status rt') \<and> status_names rt (ar_Status rt') \<and>
        st_ObservedGeneration (ar_Status rt') = om_Generation (ar_Meta rt)"
      using stored [OF ok(1)] own [OF ok(2)] ok(2) gen set_result_shows(1) [OF assms(1), of rt1] by fastforce
  next
    fix m assume "r = Inl m"
    then show "(\<exists>m'. m = ''updating status: '' @ m') \<or>
      (\<exists>rt'. kube_Get K s' (KRuntime, req) = Inr (RuntimeObj rt') \<and> ar_Spec rt' = ar_Spec rt \<and>
        shows_failure m (ar_Status rt'))"
      using result stored set_result_shows(2) [OF assms(1), of m rt1] by (cases e; cases err) auto
  next
    fix k assume "k \<noteq> (KRuntime, req)" "k \<notin> own_keys rt"
    then show "kube_Get K s' k = kube_Get K s k" by (rule Reconcile_frame [OF assms])
  qed
qed

definition example_cluster :: "(okey, string kobj) gomap" where
  "example_cluster = [((KRuntime, ''agents'', ''coder''), RuntimeObj example_runtime)]"

lemma example_creates:
  fixes rt defines "cm \<equiv> (KConfigMap, rt_Namespace rt, rt_Name rt @ ''-agent-registry'')"
    and "sv \<equiv> (KService, rt_Namespace rt, rt_Name rt @ ''-a2a'')"
    and "dp \<equiv> (KDeployment, rt_Namespace rt, rt_Name rt)"
  shows "example_store s cm = None \<Longrightarrow>
      \<exists>x. reconcileConfigMap example_kube rt s = (Inr (named_ConfigMap rt), mput cm x s) \<and> key_of x = cm"
    and "example_store s sv = None \<Longrightarrow>
      \<exists>x. reconcileService example_kube rt s = (Inr (named_Service rt), mput sv x s) \<and> key_of x = sv"
    and "buildContainers example_kube rt (container_port rt) = Inr cs \<Longrightarrow> example_store s dp = None \<Longrightarrow>
      \<exists>rt' x. reconcileDeployment example_kube rt s = (Inr rt', mput dp x s) \<and> key_of x = dp"
  unfolding cm_def sv_def dp_def
  by (simp add: reconcileConfigMap_def reconcileService_def reconcileDeployment_def example_kube_def key_of_def
      child_meta_def buildRegistryJSON_def Let_def, intro exI, rule conjI, rule refl, simp)+

lemma example_containers:
  "same_spec rt example_runtime \<Longrightarrow> \<exists>cs. buildContainers example_kube rt (container_port rt) = Inr cs"
  unfolding spec_cong
  by (simp add: buildContainers_def buildResourceRequirementsTyped_def parse_list_def parse_entry_def
      parseQuantity_def example_kube_def example_runtime_def Let_def)

lemma example_cluster_store:
  "example_store example_cluster k =
    (if k = (KRuntime, ''agents'', ''coder'') then Some (RuntimeObj example_runtime) else None)"
  by (simp add: example_store_def example_cluster_def mlookup_def key_of_def example_runtime_def)

lemma example_store_put_key: "key_of x = k' \<Longrightarrow> example_store (mput k' x s) k = (if k = k' then Some x else example_store s k)"
  using example_store_put by blast

lemma example_pass:
  assumes "same_spec rt example_runtime"
  shows "\<exists>rt' s'. reconcileChildren example_kube rt example_cluster = (None, rt', s') \<and>
    example_store s' (KRuntime, ''agents'', ''coder'') = Some (RuntimeObj example_runtime)"
proof -
  obtain x where x: "reconcileConfigMap example_kube rt example_cluster =
      (Inr (named_ConfigMap rt), mput (KConfigMap, rt_Namespace rt, rt_Name rt @ ''-agent-registry'') x example_cluster)"
      "key_of x = (KConfigMap, rt_Namespace rt, rt_Name rt @ ''-agent-registry'')"
    using example_creates(1) [of example_cluster rt] by (auto simp: example_cluster_store)
  define s1 where "s1 = mput (KConfigMap, rt_Namespace rt, rt_Name rt @ ''-agent-registry'') x example_cluster"
  define rt1 where "rt1 = named_ConfigMap rt"
  obtain y where y: "reconcileService example_kube rt1 s1 =
      (Inr (named_Service rt1), mput (KService, rt_Namespace rt, rt_Name rt @ ''-a2a'') y s1)"
      "key_of y = (KService, rt_Namespace rt, rt_Name rt @ ''-a2a'')"
    using example_creates(2) [of s1 rt1] x(2) by (auto simp: example_cluster_store s1_def rt1_def example_store_put_key)
  define s2 where "s2 = mput (KService, rt_Namespace rt, rt_Name rt @ ''-a2a'') y s1"
  define rt2 where "rt2 = named_Service rt1"
  have same: "same_spec rt2 example_runtime" using assms by (simp add: same_spec_def rt1_def rt2_def)
  then obtain cs where "buildContainers example_kube rt2 (container_port rt2) = Inr cs" using example_containers by blast
  then obtain rt3 z where z: "reconcileDeployment example_kube rt2 s2 =
      (Inr rt3, mput (KDeployment, rt_Namespace rt, rt_Name rt) z s2)" "key_of z = (KDeployment, rt_Namespace rt, rt_Name rt)"
    using example_creates(3) [of rt2 cs s2] x(2) y(2)
    by (auto simp: example_cluster_store s1_def s2_def rt1_def rt2_def example_store_put_key)
  have "scaling_mode rt2 = ''Static''"
    unfolding parts_cong(3) [OF same] by (simp add: example_runtime_def scaling_mode_def)
  moreover have "deleteScaledJobIfExists example_kube rt2 s2 = (None, s2)"
    using x(2) y(2) by (simp add: deleteScaledJobIfExists_def example_kube_def example_store_put_key
        example_cluster_store s1_def s2_def)
  ultimately have "reconcileChildren example_kube rt example_cluster =
      (None, rt3, mput (KDeployment, rt_Namespace rt, rt_Name rt) z s2)"
    using x(1) y(1) z(1) by (simp add: reconcileChildren_def reconcileWorkload_def s1_def s2_def rt1_def rt2_def)
  then show ?thesis
    using x(2) y(2) z(2) by (simp add: example_store_put_key s1_def s2_def example_cluster_store)
qed

theorem Reconcile_correct_witness:
  "fst (Reconcile example_kube (''agents'', ''coder'') example_cluster) = Inr () \<and>
   converged example_kube example_runtime (snd (Reconcile example_kube (''agents'', ''coder'') example_cluster))"
proof -
  let ?rt = "set_condition example_kube ''Progressing'' True ''Reconciling'' ''Reconciliation in progress'' example_runtime"
  have get: "kube_Get example_kube example_cluster (KRuntime, ''agents'', ''coder'') = Inr (RuntimeObj example_runtime)"
    by (simp add: example_kube_def example_cluster_store)
  have "same_spec ?rt example_runtime" by (simp add: set_condition_def)
  then obtain rt' s' where pass: "reconcileChildren example_kube ?rt example_cluster = (None, rt', s')"
      "example_store s' (KRuntime, ''agents'', ''coder'') = Some (RuntimeObj example_runtime)"
    using example_pass by blast
  have "key_of (RuntimeObj (set_result example_kube None rt') :: string kobj) = (KRuntime, ''agents'', ''coder'')"
    using reconcileChildren_runtime [OF example_kube_laws pass(1)] by (simp add: key_of_def example_runtime_def)
  with pass(2) have "fst (kube_UpdateStatus example_kube (RuntimeObj (set_result example_kube None rt')) s') = None"
    by (simp add: example_kube_def [unfolded kube.defs] example_status_def example_store_def split: option.splits if_splits)
  then have "fst (Reconcile example_kube (''agents'', ''coder'') example_cluster) = Inr ()"
    by (auto simp: Reconcile_def get pass(1) split: prod.splits option.splits)
  then show ?thesis
    using Reconcile_correct [OF example_kube_laws get surjective_pairing] by simp
qed

end
