(* ===== verification/ModelCtl.thy ===== *)
theory ModelCtl
  imports RuntimeCtl "HOL-Library.Char_ord"
begin

text \<open>
  The ModelConfig controller (\<open>src/operator/internal/controller/modelconfig_controller.go\<close>). It hashes
  the secret a ModelConfig refers to and, when the hash changes, annotates the AgentRuntimes that
  use the ModelConfig before it stores the new hash. SHA-256 (in hexadecimal) is a parameter, as is
  the client. The lemmas show what a pass leaves in the cluster and which ModelConfigs a change of
  a secret wakes.
\<close>

section \<open>Hashing the secret\<close>

definition mo_Name :: "ModelConfig \<Rightarrow> string" where
  "mo_Name mc = om_Name (mo_Meta mc)"

definition mo_Namespace :: "ModelConfig \<Rightarrow> string" where
  "mo_Namespace mc = om_Namespace (mo_Meta mc)"

definition secretRefFromModelConfig :: "ModelConfig \<Rightarrow> KeySelector option" where
  "secretRefFromModelConfig mc = (case mc_APIKey (mo_Spec mc) of
      None \<Rightarrow> None
    | Some k \<Rightarrow> (case sv_ValueFrom k of None \<Rightarrow> None | Some src \<Rightarrow> vs_SecretKeyRef src))"

definition hash_input :: "labels \<Rightarrow> string" where
  "hash_input data = concat (map (\<lambda>k. k @ ''='' @ mget [] data k @ [CHR 0x0A]) (sort (mkeys data)))"

definition hashSecretData :: "(string \<Rightarrow> string) \<Rightarrow> labels \<Rightarrow> string" where
  "hashSecretData sha data = (if mlen data = 0 then [] else ''sha256:'' @ sha (hash_input data))"

fun as_Secret :: "get_error + 'q kobj \<Rightarrow> get_error + Secret" where
  "as_Secret (Inr (SecretObj x)) = Inr x"
| "as_Secret (Inl e) = Inl e"
| "as_Secret _ = wrong_kind"

fun as_ModelConfig :: "get_error + 'q kobj \<Rightarrow> get_error + ModelConfig" where
  "as_ModelConfig (Inr (ModelConfigObj x)) = Inr x"
| "as_ModelConfig (Inl e) = Inl e"
| "as_ModelConfig _ = wrong_kind"

definition resolveSecretHash ::
  "('s, 'q) kube \<Rightarrow> (string \<Rightarrow> string) \<Rightarrow> ModelConfig \<Rightarrow> 's \<Rightarrow> get_error + string" where
  "resolveSecretHash K sha mc s = (case secretRefFromModelConfig mc of
      None \<Rightarrow> Inr []
    | Some ref \<Rightarrow> (case as_Secret (kube_Get K s (KSecret, mo_Namespace mc, ks_Name ref)) of
        Inl e \<Rightarrow> Inl e
      | Inr secret \<Rightarrow> Inr (hashSecretData sha (se_Data secret))))"

section \<open>Propagation\<close>

definition modelConfigHashAnnotation :: string where
  "modelConfigHashAnnotation = ''daedalus.dev/model-config-hash''"

definition referencesModelConfig :: "AgentRuntime \<Rightarrow> ModelConfig \<Rightarrow> bool" where
  "referencesModelConfig rt mc = (case rt_ModelConfigRef (ar_Spec rt) of
      None \<Rightarrow> False
    | Some ref \<Rightarrow>
        if tref_Name ref \<noteq> mo_Name mc then False
        else (let refNS = (if tref_Namespace ref = [] then rt_Namespace rt else tref_Namespace ref)
              in refNS = mo_Namespace mc))"

definition model_hash :: "AgentRuntime \<Rightarrow> string" where
  "model_hash rt = mget [] (om_Annotations (ar_Meta rt)) modelConfigHashAnnotation"

definition annotate :: "string \<Rightarrow> AgentRuntime \<Rightarrow> AgentRuntime" where
  "annotate hash rt = rt\<lparr>ar_Meta := (ar_Meta rt)\<lparr>om_Annotations :=
     mput modelConfigHashAnnotation hash (om_Annotations (ar_Meta rt))\<rparr>\<rparr>"

fun propagate ::
  "('s, 'q) kube \<Rightarrow> ModelConfig \<Rightarrow> string \<Rightarrow> AgentRuntime list \<Rightarrow> 's \<Rightarrow> string option \<times> 's" where
  "propagate K mc hash [] s = (None, s)"
| "propagate K mc hash (rt # rts) s =
    (if \<not> referencesModelConfig rt mc then propagate K mc hash rts s
     else if model_hash rt = hash then propagate K mc hash rts s
     else (case kube_Update K (RuntimeObj (annotate hash rt)) s of
             (Some e, s) \<Rightarrow> (Some e, s)
           | (None, s) \<Rightarrow> propagate K mc hash rts s))"

definition runtimes_in :: "'q kobj list \<Rightarrow> AgentRuntime list" where
  "runtimes_in xs = List.map_filter (\<lambda>x. case x of RuntimeObj rt \<Rightarrow> Some rt | _ \<Rightarrow> None) xs"

definition propagateHashToAgentRuntimes ::
  "('s, 'q) kube \<Rightarrow> ModelConfig \<Rightarrow> string \<Rightarrow> 's \<Rightarrow> string option \<times> 's" where
  "propagateHashToAgentRuntimes K mc hash s = (case kube_List K s KRuntime None of
      Inl e \<Rightarrow> (Some (''listing AgentRuntimes: '' @ e), s)
    | Inr xs \<Rightarrow> propagate K mc hash (runtimes_in xs) s)"

section \<open>Reconcile\<close>

definition set_mc_condition :: "('s, 'q) kube \<Rightarrow> string \<Rightarrow> bool \<Rightarrow> string \<Rightarrow> string \<Rightarrow> ModelConfig \<Rightarrow> ModelConfig" where
  "set_mc_condition K type st reason msg mc = mc\<lparr>mo_Status := (mo_Status mc)\<lparr>ms_Conditions :=
     kube_SetCondition K (ms_Conditions (mo_Status mc))
       \<lparr>cond_Type = type, cond_Status = st, cond_Reason = reason, cond_Message = msg,
        cond_ObservedGeneration = om_Generation (mo_Meta mc)\<rparr>\<rparr>\<rparr>"

definition degraded_status :: "('s, 'q) kube \<Rightarrow> string \<Rightarrow> ModelConfig \<Rightarrow> ModelConfig" where
  "degraded_status K e mc =
    (let mc1 = set_mc_condition K ''Degraded'' True ''SecretNotFound'' (''Referenced secret not found: '' @ e) mc;
         mc2 = set_mc_condition K ''Available'' False ''SecretNotFound''
                 ''ModelConfig is unavailable because the referenced secret was not found.'' mc1
     in mc2\<lparr>mo_Status := (mo_Status mc2)\<lparr>ms_ObservedGeneration := om_Generation (mo_Meta mc)\<rparr>\<rparr>)"

definition resolved_status :: "('s, 'q) kube \<Rightarrow> string \<Rightarrow> ModelConfig \<Rightarrow> ModelConfig" where
  "resolved_status K hash mc =
    (let mc1 = mc\<lparr>mo_Status := (mo_Status mc)\<lparr>ms_SecretHash := hash,
                 ms_ObservedGeneration := om_Generation (mo_Meta mc)\<rparr>\<rparr>;
         mc2 = set_mc_condition K ''Degraded'' False ''Resolved'' ''All references resolved successfully.'' mc1
     in set_mc_condition K ''Available'' True ''ConfigValid''
          ''ModelConfig is available and all references are resolved.'' mc2)"

text \<open>The result is an error or the delay, in nanoseconds, after which to run again; 0 is none.\<close>

definition Reconcile ::
  "('s, 'q) kube \<Rightarrow> (string \<Rightarrow> string) \<Rightarrow> string \<times> string \<Rightarrow> 's \<Rightarrow> (string + int) \<times> 's" where
  "Reconcile K sha req s = (case as_ModelConfig (kube_Get K s (KModelConfig, req)) of
      Inl (NotFound _) \<Rightarrow> (Inr 0, s)
    | Inl e \<Rightarrow> (Inl (''fetching ModelConfig: '' @ message e), s)
    | Inr mc \<Rightarrow> (case resolveSecretHash K sha mc s of
        Inl e \<Rightarrow> (case kube_UpdateStatus K (ModelConfigObj (degraded_status K (message e) mc)) s of
            (Some e', s) \<Rightarrow> (Inl e', s)
          | (None, s) \<Rightarrow> (Inr 30000000000, s))
      | Inr secretHash \<Rightarrow>
         (let hashChanged = (secretHash \<noteq> ms_SecretHash (mo_Status mc));
              mc' = resolved_status K secretHash mc
          in case (if hashChanged then propagateHashToAgentRuntimes K mc' secretHash s else (None, s)) of
               (Some e, s) \<Rightarrow> (Inl (''propagating hash to AgentRuntimes: '' @ e), s)
             | (None, s) \<Rightarrow> (case kube_UpdateStatus K (ModelConfigObj mc') s of
                 (Some e, s) \<Rightarrow> (Inl (''updating ModelConfig status: '' @ e), s)
               | (None, s) \<Rightarrow> (Inr 0, s)))))"

section \<open>Watching secrets\<close>

definition refers_to :: "ModelConfig \<Rightarrow> string \<Rightarrow> bool" where
  "refers_to mc name \<longleftrightarrow> (case secretRefFromModelConfig mc of None \<Rightarrow> False | Some ref \<Rightarrow> ks_Name ref = name)"

definition models_in :: "'q kobj list \<Rightarrow> ModelConfig list" where
  "models_in xs = List.map_filter (\<lambda>x. case x of ModelConfigObj mc \<Rightarrow> Some mc | _ \<Rightarrow> None) xs"

definition mapSecretToModelConfigs :: "('s, 'q) kube \<Rightarrow> 'q kobj \<Rightarrow> 's \<Rightarrow> (string \<times> string) list" where
  "mapSecretToModelConfigs K obj s = (case obj of
      SecretObj secret \<Rightarrow>
       (case kube_List K s KModelConfig (Some (om_Namespace (se_Meta secret))) of
          Inl _ \<Rightarrow> []
        | Inr xs \<Rightarrow> map (\<lambda>mc. (mo_Namespace mc, mo_Name mc))
                      (filter (\<lambda>mc. refers_to mc (om_Name (se_Meta secret))) (models_in xs)))
    | _ \<Rightarrow> [])"

section \<open>Lemmas\<close>

subsection \<open>Annotating runtimes\<close>

abbreviation runtime_key :: "AgentRuntime \<Rightarrow> okey" where
  "runtime_key rt \<equiv> (KRuntime, rt_Namespace rt, rt_Name rt)"

lemma annotate_simps [simp]:
  "rt_Name (annotate h rt) = rt_Name rt" "rt_Namespace (annotate h rt) = rt_Namespace rt"
  "ar_Spec (annotate h rt) = ar_Spec rt" "ar_Status (annotate h rt) = ar_Status rt"
  "model_hash (annotate h rt) = h" "same_spec rt (annotate h rt)"
  by (simp_all add: annotate_def rt_Name_def rt_Namespace_def model_hash_def same_spec_def)

lemma key_of_runtime [simp]: "key_of (RuntimeObj rt) = runtime_key rt"
  by (simp add: key_of_def rt_Name_def rt_Namespace_def)

lemma references_cong:
  "same_spec a b \<Longrightarrow> mo_Meta mc = mo_Meta mc' \<Longrightarrow> referencesModelConfig a mc = referencesModelConfig b mc'"
  by (simp add: referencesModelConfig_def same_spec_def mo_Name_def mo_Namespace_def split: option.split)

lemma same_content_runtime:
  "same_content (RuntimeObj rt) x \<Longrightarrow> \<exists>rt'. x = RuntimeObj rt' \<and> same_spec rt rt' \<and> model_hash rt' = model_hash rt"
  by (cases x) (auto simp: same_meta_def same_spec_def rt_Name_def rt_Namespace_def model_hash_def)

text \<open>A runtime is stored, up to fields outside its spec, with a given hash.\<close>

definition annotated :: "('s, 'q) kube \<Rightarrow> string \<Rightarrow> AgentRuntime \<Rightarrow> 's \<Rightarrow> bool" where
  "annotated K h rt s \<longleftrightarrow> (\<exists>rt'. kube_Get K s (runtime_key rt) = Inr (RuntimeObj rt') \<and> same_spec rt rt' \<and> model_hash rt' = h)"

lemma annotated_frame: "kube_Get K s' (runtime_key rt) = kube_Get K s (runtime_key rt) \<Longrightarrow> annotated K h rt s \<Longrightarrow> annotated K h rt s'"
  by (simp add: annotated_def)

lemma annotated_update:
  assumes "kube_laws K" "kube_Update K (RuntimeObj (annotate h rt)) s = (None, s')"
  shows "annotated K h rt s'"
  using kube_stored(2) [OF assms]
  by (auto simp: annotated_def same_spec_def dest!: same_content_runtime)

lemma propagate_frame:
  assumes "kube_laws K"
  shows "propagate K mc h rts s = (e, s') \<Longrightarrow>
    (\<And>rt. rt \<in> set rts \<Longrightarrow> referencesModelConfig rt mc \<Longrightarrow> k \<noteq> runtime_key rt) \<Longrightarrow> kube_Get K s' k = kube_Get K s k"
proof (induction rts arbitrary: s)
  case (Cons rt rts)
  have rest: "kube_Get K s' k = kube_Get K s0 k" if "propagate K mc h rts s0 = (e, s')" for s0
    by (rule Cons.IH [OF that]) (rule Cons.prems(2); simp)
  show ?case
  proof (cases "referencesModelConfig rt mc \<and> model_hash rt \<noteq> h")
    case True
    obtain e1 s1 where up: "kube_Update K (RuntimeObj (annotate h rt)) s = (e1, s1)" by fastforce
    have "kube_Get K s1 k = kube_Get K s k"
      by (rule kube_frame(2) [OF assms _ up]) (use Cons.prems(2) [of rt] True in simp)
    moreover have "e1 = None \<Longrightarrow> propagate K mc h rts s1 = (e, s')" "e1 \<noteq> None \<Longrightarrow> s' = s1"
      using Cons.prems(1) True up by auto
    ultimately show ?thesis using rest [of s1] by metis
  next
    case False
    then have "propagate K mc h rts s = (e, s')" using Cons.prems(1) by (auto split: if_splits)
    then show ?thesis by (rule rest)
  qed
qed simp

lemma propagate_done:
  assumes "kube_laws K"
  shows "propagate K mc h rts s = (None, s') \<Longrightarrow> distinct (map runtime_key rts) \<Longrightarrow>
    (\<And>rt. rt \<in> set rts \<Longrightarrow> kube_Get K s (runtime_key rt) = Inr (RuntimeObj rt)) \<Longrightarrow>
    rt \<in> set rts \<Longrightarrow> referencesModelConfig rt mc \<Longrightarrow> annotated K h rt s'"
proof (induction rts arbitrary: s)
  case (Cons r rts)
  obtain s1 where s1: "propagate K mc h rts s1 = (None, s')"
      "\<And>k. k \<noteq> runtime_key r \<Longrightarrow> kube_Get K s1 k = kube_Get K s k"
      "referencesModelConfig r mc \<Longrightarrow> annotated K h r s1"
  proof (cases "referencesModelConfig r mc \<and> model_hash r \<noteq> h")
    case True
    obtain e1 s1 where up: "kube_Update K (RuntimeObj (annotate h r)) s = (e1, s1)" by fastforce
    with Cons.prems(1) True have e1: "e1 = None" "propagate K mc h rts s1 = (None, s')"
      by (auto split: option.splits)
    show ?thesis
    proof (rule that [OF e1(2)])
      show "kube_Get K s1 k = kube_Get K s k" if "k \<noteq> runtime_key r" for k
        by (rule kube_frame(2) [OF assms _ up]) (use that in simp)
    qed (rule annotated_update [OF assms up [unfolded e1]])
  next
    case False
    with Cons.prems(1) have "propagate K mc h rts s = (None, s')" by (auto split: if_splits)
    then show ?thesis
      by (rule that) (use False Cons.prems(3) [of r] in \<open>simp_all add: annotated_def\<close>)
  qed
  have "runtime_key r \<notin> runtime_key ` set rts" using Cons.prems(2) by simp
  then have other: "runtime_key x \<noteq> runtime_key r" if "x \<in> set rts" for x
    using imageI [OF that, of runtime_key] by metis
  show ?case
  proof (cases "rt \<in> set rts")
    case True
    show ?thesis
    proof (rule Cons.IH [OF s1(1) _ _ True Cons.prems(5)])
      show "kube_Get K s1 (runtime_key x) = Inr (RuntimeObj x)" if "x \<in> set rts" for x
        using s1(2) [OF other [OF that]] Cons.prems(3) [of x] that by simp
    qed (use Cons.prems(2) in simp)
  next
    case False
    with Cons.prems(4) have rt: "rt = r" by simp
    have "kube_Get K s' (runtime_key r) = kube_Get K s1 (runtime_key r)"
      by (rule propagate_frame [OF assms s1(1)]) (metis other)
    with s1(3) Cons.prems(5) rt show ?thesis by (auto intro: annotated_frame)
  qed
qed simp

lemma mem_runtimes_in: "rt \<in> set (runtimes_in xs) \<longleftrightarrow> RuntimeObj rt \<in> set xs"
  by (induction xs) (auto simp: runtimes_in_def map_filter_simps split: kobj.splits option.splits)

lemma distinct_runtimes_in: "distinct (map key_of xs) \<Longrightarrow> distinct (map runtime_key (runtimes_in xs))"
proof (induction xs)
  case (Cons x xs)
  show ?case
  proof (cases x)
    case (RuntimeObj rt)
    have "runtime_key rt \<notin> runtime_key ` set (runtimes_in xs)"
      using Cons.prems RuntimeObj by (force simp: mem_runtimes_in)
    with Cons RuntimeObj show ?thesis by (simp add: runtimes_in_def map_filter_simps)
  qed (use Cons in \<open>simp_all add: runtimes_in_def map_filter_simps\<close>)
qed (simp add: runtimes_in_def map_filter_simps)

lemma propagateHash_frame:
  assumes "kube_laws K" "propagateHashToAgentRuntimes K mc h s = (e, s')"
    and k: "\<And>rt. kube_Get K s k = Inr (RuntimeObj rt) \<Longrightarrow> \<not> referencesModelConfig rt mc"
  shows "kube_Get K s' k = kube_Get K s k"
proof (cases "kube_List K s KRuntime None")
  case (Inl m)
  with assms(2) show ?thesis by (simp add: propagateHashToAgentRuntimes_def)
next
  case (Inr xs)
  with assms(2) have "propagate K mc h (runtimes_in xs) s = (e, s')" by (simp add: propagateHashToAgentRuntimes_def)
  then show ?thesis
  proof (rule propagate_frame [OF assms(1)])
    fix rt assume "rt \<in> set (runtimes_in xs)" "referencesModelConfig rt mc"
    moreover from this have "kube_Get K s (runtime_key rt) = Inr (RuntimeObj rt)"
      using kube_listed [OF assms(1) Inr] by (simp add: mem_runtimes_in)
    ultimately show "k \<noteq> runtime_key rt" using k by blast
  qed
qed

lemma propagateHash_done:
  assumes "kube_laws K" "propagateHashToAgentRuntimes K mc h s = (None, s')"
    "kube_Get K s' k = Inr (RuntimeObj rt)" "referencesModelConfig rt mc"
  shows "model_hash rt = h"
proof -
  obtain xs where xs: "kube_List K s KRuntime None = Inr xs" "propagate K mc h (runtimes_in xs) s = (None, s')"
    using assms(2) by (auto simp: propagateHashToAgentRuntimes_def split: sum.splits)
  note listed = kube_listed [OF assms(1) xs(1)]
  have k: "runtime_key rt = k" using kube_get_key [OF assms(1,3)] by simp
  show ?thesis
  proof (cases "\<exists>rt0\<in>set (runtimes_in xs). referencesModelConfig rt0 mc \<and> runtime_key rt0 = k")
    case True
    then obtain rt0 where rt0: "rt0 \<in> set (runtimes_in xs)" "referencesModelConfig rt0 mc" "runtime_key rt0 = k" by blast
    have "annotated K h rt0 s'"
      by (rule propagate_done [OF assms(1) xs(2) _ _ rt0(1,2)])
        (use listed in \<open>simp_all add: distinct_runtimes_in mem_runtimes_in\<close>)
    with assms(3) rt0(3) show ?thesis by (auto simp: annotated_def)
  next
    case False
    then have "kube_Get K s' k = kube_Get K s k"
      by (intro propagate_frame [OF assms(1) xs(2)]) blast
    with assms(3) k listed have "RuntimeObj rt \<in> set xs" by (simp add: in_namespace_def)
    with False k assms(4) show ?thesis by (auto simp: mem_runtimes_in)
  qed
qed

subsection \<open>The stored status\<close>

lemma status_keeps [simp]:
  "mo_Meta (degraded_status K e mc) = mo_Meta mc" "mo_Spec (degraded_status K e mc) = mo_Spec mc"
  "mo_Meta (resolved_status K h mc) = mo_Meta mc" "mo_Spec (resolved_status K h mc) = mo_Spec mc"
  "ms_SecretHash (mo_Status (degraded_status K e mc)) = ms_SecretHash (mo_Status mc)"
  "ms_SecretHash (mo_Status (resolved_status K h mc)) = h"
  by (simp_all add: degraded_status_def resolved_status_def set_mc_condition_def Let_def)

definition mc_condition :: "string \<Rightarrow> bool \<Rightarrow> ModelConfigStatus \<Rightarrow> bool" where
  "mc_condition type b st \<longleftrightarrow> (\<exists>c. condition_of type (ms_Conditions st) = Some c \<and> cond_Status c = b)"

lemma status_conditions:
  assumes "kube_laws K"
  shows "mc_condition ''Degraded'' True (mo_Status (degraded_status K e mc))"
    "mc_condition ''Available'' False (mo_Status (degraded_status K e mc))"
    "mc_condition ''Degraded'' False (mo_Status (resolved_status K h mc))"
    "mc_condition ''Available'' True (mo_Status (resolved_status K h mc))"
  by (simp_all add: mc_condition_def degraded_status_def resolved_status_def set_mc_condition_def Let_def
      kube_conditions [OF assms])

lemma as_model_Inr [simp]:
  "as_ModelConfig r = Inr mc \<longleftrightarrow> r = Inr (ModelConfigObj mc)"
  by (cases r rule: as_ModelConfig.cases; simp add: wrong_kind_def)

lemma model_key: "kube_laws K \<Longrightarrow> kube_Get K s (KModelConfig, req) = Inr (ModelConfigObj mc) \<Longrightarrow>
    mo_Meta mc' = mo_Meta mc \<Longrightarrow> key_of (ModelConfigObj mc') = (KModelConfig, req)"
  by (drule (1) kube_get_key) (simp add: key_of_def)

text \<open>The ModelConfig stored at a key has the spec of one and the status of another.\<close>

definition stored_model :: "('s, 'q) kube \<Rightarrow> okey \<Rightarrow> ModelConfig \<Rightarrow> ModelConfigStatus \<Rightarrow> 's \<Rightarrow> bool" where
  "stored_model K k mc st s \<longleftrightarrow> (\<exists>mc'. kube_Get K s k = Inr (ModelConfigObj mc') \<and> mo_Spec mc' = mo_Spec mc \<and> mo_Status mc' = st)"

lemma status_stored:
  assumes "kube_laws K" "kube_Get K s (KModelConfig, req) = Inr (ModelConfigObj mc)" "mo_Meta mc2 = mo_Meta mc"
    "kube_UpdateStatus K (ModelConfigObj mc2) s = (None, s')"
  shows "stored_model K (KModelConfig, req) mc (mo_Status mc2) s'"
proof -
  have key: "key_of (ModelConfigObj mc2 :: 'b kobj) = (KModelConfig, req)" by (rule model_key [OF assms(1,2,3)])
  obtain x where "kube_Get K s' (KModelConfig, req) = Inr x" "same_content (ModelConfigObj mc) x"
      "status_eq (ModelConfigObj mc2) x"
    using kube_status_stored [OF assms(1,4), unfolded key, OF assms(2)] by blast
  then show ?thesis by (cases x) (auto simp: stored_model_def)
qed

lemma Reconcile_cases:
  assumes "kube_Get K s (KModelConfig, req) = Inr (ModelConfigObj mc)" "Reconcile K sha req s = (r, s')"
  obtains (unresolved) e e' where "resolveSecretHash K sha mc s = Inl e"
      "kube_UpdateStatus K (ModelConfigObj (degraded_status K (message e) mc)) s = (e', s')"
      "r = (case e' of None \<Rightarrow> Inr 30000000000 | Some m \<Rightarrow> Inl m)"
  | (unpropagated) h e where "resolveSecretHash K sha mc s = Inr h" "h \<noteq> ms_SecretHash (mo_Status mc)"
      "propagateHashToAgentRuntimes K (resolved_status K h mc) h s = (Some e, s')"
      "r = Inl (''propagating hash to AgentRuntimes: '' @ e)"
  | (propagated) h s1 e where "resolveSecretHash K sha mc s = Inr h"
      "if h = ms_SecretHash (mo_Status mc) then s1 = s
       else propagateHashToAgentRuntimes K (resolved_status K h mc) h s = (None, s1)"
      "kube_UpdateStatus K (ModelConfigObj (resolved_status K h mc)) s1 = (e, s')"
      "r = (case e of None \<Rightarrow> Inr 0 | Some m \<Rightarrow> Inl (''updating ModelConfig status: '' @ m))"
proof (cases "resolveSecretHash K sha mc s")
  case (Inl e)
  with assms show ?thesis
    by (intro unresolved [of e "fst (kube_UpdateStatus K (ModelConfigObj (degraded_status K (message e) mc)) s)"])
      (auto simp: Reconcile_def split: prod.splits option.splits)
next
  case (Inr h)
  define p where "p = (if h \<noteq> ms_SecretHash (mo_Status mc)
    then propagateHashToAgentRuntimes K (resolved_status K h mc) h s else (None, s))"
  obtain e1 s1 where p: "p = (e1, s1)" by fastforce
  show ?thesis
  proof (cases e1)
    case (Some e)
    with assms Inr p show ?thesis
      by (intro unpropagated [of h e]) (auto simp: Reconcile_def p_def [symmetric] Let_def, auto simp: p_def split: if_splits)
  next
    case None
    obtain e2 s2 where up: "kube_UpdateStatus K (ModelConfigObj (resolved_status K h mc)) s1 = (e2, s2)" by fastforce
    have "s2 = s' \<and> r = (case e2 of None \<Rightarrow> Inr 0 | Some m \<Rightarrow> Inl (''updating ModelConfig status: '' @ m))"
      using assms Inr p None up by (auto simp: Reconcile_def p_def [symmetric] Let_def split: option.splits)
    with up p None show ?thesis
      by (intro propagated [of h s1 e2]) (auto simp: Inr p_def split: if_splits)
  qed
qed

lemma references_resolved: "referencesModelConfig rt (resolved_status K h mc) = referencesModelConfig rt mc"
  by (rule references_cong) simp_all

lemma status_frame:
  assumes "kube_laws K" "kube_Get K s (KModelConfig, req) = Inr (ModelConfigObj mc)"
    "kube_UpdateStatus K (ModelConfigObj mc2) s1 = (e, s2)" "mo_Meta mc2 = mo_Meta mc" "k \<noteq> (KModelConfig, req)"
  shows "kube_Get K s2 k = kube_Get K s1 k"
  by (rule kube_frame(4) [OF assms(1) _ assms(3)]) (simp add: assms(5) model_key [OF assms(1,2,4)])

text \<open>A pass that has resolved the secret and propagated its hash where it changed.\<close>

lemma rotate_step:
  assumes "kube_laws K" "kube_Get K s (KModelConfig, req) = Inr (ModelConfigObj mc)"
    and moved: "if h = ms_SecretHash (mo_Status mc) then s1 = s
      else propagateHashToAgentRuntimes K (resolved_status K h mc) h s = (None, s1)"
    and up: "kube_UpdateStatus K (ModelConfigObj (resolved_status K h mc)) s1 = (e, s')"
  shows "e = None \<Longrightarrow> stored_model K (KModelConfig, req) mc (mo_Status (resolved_status K h mc)) s'"
    and "h \<noteq> ms_SecretHash (mo_Status mc) \<Longrightarrow> kube_Get K s' k = Inr (RuntimeObj rt) \<Longrightarrow>
      referencesModelConfig rt mc \<Longrightarrow> model_hash rt = h"
    and "k \<noteq> (KModelConfig, req) \<Longrightarrow>
      (\<forall>rt. kube_Get K s k = Inr (RuntimeObj rt) \<longrightarrow> \<not> referencesModelConfig rt mc) \<Longrightarrow> kube_Get K s' k = kube_Get K s k"
proof -
  have frame1: "kube_Get K s1 k = kube_Get K s k"
    if "\<forall>rt. kube_Get K s k = Inr (RuntimeObj rt) \<longrightarrow> \<not> referencesModelConfig rt mc" for k
    using moved propagateHash_frame [OF assms(1), of "resolved_status K h mc" h s None s1 k] that
    by (auto simp: references_resolved split: if_splits)
  note frame2 = status_frame [OF assms(1,2) up status_keeps(3)]
  show "kube_Get K s' k = kube_Get K s k" if "k \<noteq> (KModelConfig, req)"
      "\<forall>rt. kube_Get K s k = Inr (RuntimeObj rt) \<longrightarrow> \<not> referencesModelConfig rt mc"
    using frame1 [OF that(2)] frame2 [OF that(1)] by simp
  have "kube_Get K s1 (KModelConfig, req) = Inr (ModelConfigObj mc)"
    using frame1 [of "(KModelConfig, req)"] assms(2) by simp
  then show "stored_model K (KModelConfig, req) mc (mo_Status (resolved_status K h mc)) s'" if "e = None"
    using status_stored [OF assms(1) _ status_keeps(3) up [unfolded that]] by blast
  show "model_hash rt = h"
    if "h \<noteq> ms_SecretHash (mo_Status mc)" "kube_Get K s' k = Inr (RuntimeObj rt)" "referencesModelConfig rt mc"
  proof -
    have "k \<noteq> (KModelConfig, req)" using kube_get_key [OF assms(1) that(2)] by auto
    with frame2 that(2) have "kube_Get K s1 k = Inr (RuntimeObj rt)" by simp
    with moved that show ?thesis
      using propagateHash_done [OF assms(1), of "resolved_status K h mc" h s s1 k rt] by (simp add: references_resolved)
  qed
qed

subsection \<open>What the hash tells apart\<close>

text \<open>
  The hashed text has one line \<open>key=value\<close> per entry. It determines the entries as long as no key
  holds an equals sign or a newline and no value a newline; a value with newlines can look like
  further entries.
\<close>

definition line_safe :: "labels \<Rightarrow> bool" where
  "line_safe data \<longleftrightarrow> mwf data \<and> (\<forall>(k, v)\<in>set data. CHR ''='' \<notin> set k \<and> CHR 0x0A \<notin> set k \<and> CHR 0x0A \<notin> set v)"

lemma until_inj: "c \<notin> set xs \<Longrightarrow> c \<notin> set ys \<Longrightarrow> xs @ c # r = ys @ c # q \<longleftrightarrow> xs = ys \<and> r = q"
proof (induction xs arbitrary: ys)
  case Nil then show ?case by (cases ys) auto
next
  case (Cons x xs) then show ?case by (cases ys) auto
qed

lemma lines_inj:
  assumes "\<forall>l\<in>set xs. c \<notin> set l" "\<forall>l\<in>set ys. c \<notin> set l"
    "concat (map (\<lambda>l. l @ [c]) xs) = concat (map (\<lambda>l. l @ [c]) ys)"
  shows "xs = ys"
  using assms
proof (induction xs arbitrary: ys)
  case Nil then show ?case by (cases ys) auto
next
  case (Cons x xs)
  obtain y ys' where ys: "ys = y # ys'" using Cons.prems(3) by (cases ys) auto
  have "x @ c # concat (map (\<lambda>l. l @ [c]) xs) = y @ c # concat (map (\<lambda>l. l @ [c]) ys')"
    using Cons.prems(3) by (simp add: ys)
  then have "x = y" and "concat (map (\<lambda>l. l @ [c]) xs) = concat (map (\<lambda>l. l @ [c]) ys')"
    using until_inj [of c x y] Cons.prems(1,2) by (simp_all add: ys)
  moreover from this(2) have "xs = ys'" using Cons.IH [of ys'] Cons.prems(1,2) by (simp add: ys)
  ultimately show ?case by (simp add: ys)
qed

lemma hash_lines: "hash_input data = concat (map (\<lambda>l. l @ [CHR 0x0A]) (map (\<lambda>k. k @ CHR ''='' # mget [] data k) (sort (mkeys data))))"
  by (simp add: hash_input_def comp_def)

lemma mget_mem: "k \<in> set (mkeys m) \<Longrightarrow> (k, mget z m k) \<in> set m"
  by (auto simp: mkeys_def mget_def map_of_eq_None_iff rev_image_eqI split: option.splits dest: map_of_SomeD)

lemma line_safe_entry:
  assumes "line_safe data" "k \<in> set (mkeys data)"
  shows "CHR ''='' \<notin> set k" "CHR 0x0A \<notin> set k" "CHR 0x0A \<notin> set (mget [] data k)"
  using assms mget_mem [OF assms(2), of "[]"] by (auto simp: line_safe_def)

lemma entries_inj:
  assumes "\<And>k. k \<in> set ks \<Longrightarrow> CHR ''='' \<notin> set k" "\<And>k. k \<in> set js \<Longrightarrow> CHR ''='' \<notin> set k"
    "map (\<lambda>k. k @ CHR ''='' # f k) ks = map (\<lambda>k. k @ CHR ''='' # g k) js"
  shows "ks = js \<and> (\<forall>k\<in>set ks. f k = g k)"
  using assms
proof (induction ks arbitrary: js)
  case Nil then show ?case by simp
next
  case (Cons k ks)
  obtain j js' where js: "js = j # js'" using Cons.prems(3) by (cases js) auto
  have "k @ CHR ''='' # f k = j @ CHR ''='' # g j" using Cons.prems(3) by (simp add: js)
  then have "k = j \<and> f k = g j"
    using until_inj [of "CHR ''=''" k j "f k" "g j"] Cons.prems(1) [of k] Cons.prems(2) [of j] by (auto simp: js)
  moreover have "ks = js' \<and> (\<forall>k\<in>set ks. f k = g k)"
    by (rule Cons.IH) (use Cons.prems in \<open>simp_all add: js\<close>)
  ultimately show ?case by (auto simp: js)
qed

lemma mlookup_mget: "mlookup m k = (if k \<in> set (mkeys m) then Some (mget z m k) else None)"
  by (auto simp: mkeys_def mget_def mlookup_def map_of_eq_None_iff rev_image_eqI split: option.splits)

lemma hash_input_inj:
  assumes "line_safe a" "line_safe b" "hash_input a = hash_input b"
  shows "mlookup a = mlookup b"
proof -
  have "map (\<lambda>k. k @ CHR ''='' # mget [] a k) (sort (mkeys a)) = map (\<lambda>k. k @ CHR ''='' # mget [] b k) (sort (mkeys b))"
    using assms(3) unfolding hash_lines
    by (rule lines_inj [rotated 2]) (use line_safe_entry [OF assms(1)] line_safe_entry [OF assms(2)] in auto)
  then have "sort (mkeys a) = sort (mkeys b) \<and> (\<forall>k\<in>set (sort (mkeys a)). mget [] a k = mget [] b k)"
    by (rule entries_inj [rotated 2]) (use line_safe_entry [OF assms(1)] line_safe_entry [OF assms(2)] in auto)
  then have "set (mkeys a) = set (mkeys b)" "\<forall>k\<in>set (mkeys a). mget [] a k = mget [] b k"
    by (metis set_sort)+
  then show ?thesis by (auto simp: fun_eq_iff mlookup_mget [of _ _ "[]"])
qed

lemma hash_input_cong:
  assumes "mwf a" "mwf b" "mlookup a = mlookup b"
  shows "hash_input a = hash_input b" "mlen a = mlen b"
proof -
  have keys: "set (mkeys a) = set (mkeys b)" using assms(3) by (metis mlookup_None_keys subsetI subset_antisym)
  then have "sort (mkeys a) = sort (mkeys b)"
    using assms(1,2) by (intro sort_distinct_unique) (simp_all add: mwf_def mkeys_def)
  moreover have "mget [] a = mget [] b" using assms(3) by (simp add: fun_eq_iff mget_mlookup)
  ultimately show "hash_input a = hash_input b" by (simp add: hash_input_def)
  show "mlen a = mlen b" using keys by (simp add: mlen_card assms(1,2))
qed

lemma hashSecretData_eq:
  assumes "line_safe a" "line_safe b" "sha (hash_input a) = sha (hash_input b) \<Longrightarrow> hash_input a = hash_input b"
  shows "hashSecretData sha a = hashSecretData sha b \<longleftrightarrow> mlookup a = mlookup b"
proof
  assume eq: "hashSecretData sha a = hashSecretData sha b"
  show "mlookup a = mlookup b"
  proof (cases "mlen a = 0 \<or> mlen b = 0")
    case True
    with eq have "a = [] \<and> b = []" by (auto simp: hashSecretData_def mlen_def split: if_splits)
    then show ?thesis by simp
  next
    case False
    with eq assms(3) have "hash_input a = hash_input b" by (simp add: hashSecretData_def)
    with assms(1,2) show ?thesis by (rule hash_input_inj)
  qed
next
  assume "mlookup a = mlookup b"
  with hash_input_cong [of a b] assms(1,2) show "hashSecretData sha a = hashSecretData sha b"
    by (simp add: hashSecretData_def line_safe_def)
qed

lemma hash_input_collision: "hash_input [(''a'', ''1'' @ [CHR 0x0A] @ ''b=2'')] = hash_input [(''a'', ''1''), (''b'', ''2'')]"
  by code_simp

subsection \<open>Watching secrets\<close>

lemma mem_models_in: "mc \<in> set (models_in xs) \<longleftrightarrow> ModelConfigObj mc \<in> set xs"
  by (induction xs) (auto simp: models_in_def map_filter_simps split: kobj.splits option.splits)

lemma mapSecret_mem:
  assumes "kube_laws K" "kube_List K s KModelConfig (Some (om_Namespace (se_Meta secret))) = Inr xs"
    "kube_Get K s (KModelConfig, req) = Inr (ModelConfigObj mc)"
  shows "req \<in> set (mapSecretToModelConfigs K (SecretObj secret) s) \<longleftrightarrow>
    mo_Namespace mc = om_Namespace (se_Meta secret) \<and> refers_to mc (om_Name (se_Meta secret))"
proof -
  have key: "key_of (ModelConfigObj m :: 'b kobj) = (KModelConfig, mo_Namespace m, mo_Name m)" for m
    by (simp add: key_of_def mo_Name_def mo_Namespace_def)
  have req: "req = (mo_Namespace mc, mo_Name mc)" using kube_get_key [OF assms(1,3)] by (simp add: key)
  have xs: "ModelConfigObj m \<in> set xs \<longleftrightarrow> kube_Get K s (KModelConfig, mo_Namespace m, mo_Name m) = Inr (ModelConfigObj m) \<and>
      mo_Namespace m = om_Namespace (se_Meta secret)" for m
    using kube_listed [OF assms(1,2)] by (simp add: key in_namespace_def mo_Namespace_def)
  have "req \<in> set (mapSecretToModelConfigs K (SecretObj secret) s) \<longleftrightarrow>
      (\<exists>m. ModelConfigObj m \<in> set xs \<and> refers_to m (om_Name (se_Meta secret)) \<and> req = (mo_Namespace m, mo_Name m))"
    by (auto simp: mapSecretToModelConfigs_def assms(2) mem_models_in)
  also have "\<dots> \<longleftrightarrow> mo_Namespace mc = om_Namespace (se_Meta secret) \<and> refers_to mc (om_Name (se_Meta secret))"
    using assms(3) by (auto simp: xs req)
  finally show ?thesis .
qed

lemma resolve_referred:
  assumes "refers_to mc n" "kube_Get K s (KSecret, mo_Namespace mc, n) = Inr (SecretObj secret)"
  shows "resolveSecretHash K sha mc s = Inr (hashSecretData sha (se_Data secret))"
  using assms by (auto simp: resolveSecretHash_def refers_to_def split: option.splits)

lemma resolve_frame:
  assumes "\<And>k. k \<noteq> (KSecret, ns, n) \<Longrightarrow> kube_Get K s' k = kube_Get K s k" "\<not> (mo_Namespace mc = ns \<and> refers_to mc n)"
  shows "resolveSecretHash K sha mc s' = resolveSecretHash K sha mc s"
proof (cases "secretRefFromModelConfig mc")
  case (Some ref)
  with assms(2) have "(KSecret, mo_Namespace mc, ks_Name ref) \<noteq> (KSecret, ns, n)" by (auto simp: refers_to_def)
  then show ?thesis using assms(1) by (simp add: resolveSecretHash_def Some)
qed (simp add: resolveSecretHash_def)

lemma Rotation_frame:
  assumes "kube_laws K" "kube_Get K s (KModelConfig, req) = Inr (ModelConfigObj mc)" "Reconcile K sha req s = (r, s')"
    "k \<noteq> (KModelConfig, req)" "\<forall>rt. kube_Get K s k = Inr (RuntimeObj rt) \<longrightarrow> \<not> referencesModelConfig rt mc"
  shows "kube_Get K s' k = kube_Get K s k"
  using assms(2,3)
proof (cases rule: Reconcile_cases)
  case (unresolved e e')
  show ?thesis by (rule status_frame [OF assms(1,2) unresolved(2) status_keeps(1) assms(4)])
next
  case (unpropagated h e)
  show ?thesis
    by (rule propagateHash_frame [OF assms(1) unpropagated(3)]) (use assms(5) in \<open>simp add: references_resolved\<close>)
next
  case (propagated h s1 e)
  show ?thesis by (rule rotate_step(3) [OF assms(1,2) propagated(2,3) assms(4,5)])
qed

text \<open>Which namespaces a ModelConfig allows to refer to it has no influence on what the controller does.\<close>

lemma references_unrestricted:
  "referencesModelConfig rt (mc\<lparr>mo_Spec := (mo_Spec mc)\<lparr>mc_AllowedNamespaces := an\<rparr>\<rparr>) = referencesModelConfig rt mc"
  by (simp add: referencesModelConfig_def mo_Name_def mo_Namespace_def Let_def split: option.split)

section \<open>Properties of the controller\<close>

text \<open>C30: Credential rotation is never lost. When a pass of the ModelConfig controller succeeds, the
  stored status carries the hash of the secret that was read, and if that hash is new, every
  AgentRuntime of any namespace that refers to the ModelConfig is annotated with it. When
  propagation fails, the ModelConfig is left exactly as it was, so the next pass sees the change
  again. When the secret cannot be read, the old hash stays, the status is degraded and the pass is
  repeated after thirty seconds. Nothing but the ModelConfig and the runtimes referring to it is
  touched, and the objects the AgentRuntime controller derives from an annotated runtime are those
  it derived before.\<close>

theorem Rotation_correct:
  assumes "kube_laws K" "kube_Get K s (KModelConfig, req) = Inr (ModelConfigObj mc)" "Reconcile K sha req s = (r, s')"
  shows "(\<forall>h. resolveSecretHash K sha mc s = Inr h \<longrightarrow> r = Inr 0 \<longrightarrow>
      (\<exists>st. stored_model K (KModelConfig, req) mc st s' \<and> ms_SecretHash st = h \<and>
         mc_condition ''Available'' True st \<and> mc_condition ''Degraded'' False st) \<and>
      (h \<noteq> ms_SecretHash (mo_Status mc) \<longrightarrow>
         (\<forall>k rt. kube_Get K s' k = Inr (RuntimeObj rt) \<longrightarrow> referencesModelConfig rt mc \<longrightarrow> model_hash rt = h))) \<and>
    (\<forall>e. r = Inl (''propagating hash to AgentRuntimes: '' @ e) \<longrightarrow> isl (resolveSecretHash K sha mc s) \<or>
      kube_Get K s' (KModelConfig, req) = Inr (ModelConfigObj mc)) \<and>
    (\<forall>e. resolveSecretHash K sha mc s = Inl e \<longrightarrow> isl r \<or> r = Inr 30000000000 \<and>
      (\<exists>st. stored_model K (KModelConfig, req) mc st s' \<and> ms_SecretHash st = ms_SecretHash (mo_Status mc) \<and>
         mc_condition ''Available'' False st \<and> mc_condition ''Degraded'' True st)) \<and>
    (\<forall>k. k \<noteq> (KModelConfig, req) \<longrightarrow> (\<forall>rt. kube_Get K s k = Inr (RuntimeObj rt) \<longrightarrow> \<not> referencesModelConfig rt mc) \<longrightarrow>
      kube_Get K s' k = kube_Get K s k) \<and>
    (\<forall>h rt t. converged K (annotate h rt) t = converged K rt t)"
proof -
  have inert: "converged K (annotate h rt) t = converged K rt t" for h rt t
    by (rule converged_cong [symmetric]) simp
  note frame = Rotation_frame [OF assms]
  show ?thesis
    using assms(2,3)
  proof (cases rule: Reconcile_cases)
    case (unresolved e e')
    have "stored_model K (KModelConfig, req) mc (mo_Status (degraded_status K (message e) mc)) s'" if "e' = None"
      by (rule status_stored [OF assms(1,2) status_keeps(1) unresolved(2) [unfolded that]])
    then show ?thesis
      using unresolved(1,3) inert frame status_conditions(1,2) [OF assms(1), of "message e" mc]
        status_keeps(5) [of K "message e" mc]
      by (cases e') auto
  next
    case (unpropagated h e)
    have "kube_Get K s' (KModelConfig, req) = kube_Get K s (KModelConfig, req)"
      by (rule propagateHash_frame [OF assms(1) unpropagated(3)]) (simp add: assms(2))
    then show ?thesis using unpropagated(1,4) assms(2) inert frame by simp
  next
    case (propagated h s1 e)
    note pass = rotate_step [OF assms(1,2) propagated(2,3)]
    have outcome: "r = Inr 0 \<and> e = None \<or> (\<exists>m. r = Inl (''updating ModelConfig status: '' @ m))"
      using propagated(4) by (cases e) auto
    show ?thesis
    proof (intro conjI allI impI)
      fix h' assume "resolveSecretHash K sha mc s = Inr h'" "r = Inr 0"
      with propagated(1) outcome have h': "h' = h" "e = None" by auto
      show "\<exists>st. stored_model K (KModelConfig, req) mc st s' \<and> ms_SecretHash st = h' \<and>
          mc_condition ''Available'' True st \<and> mc_condition ''Degraded'' False st"
        using pass(1) [OF h'(2)] status_conditions(3,4) [OF assms(1)] h'(1) status_keeps(6) by blast
      show "model_hash rt = h'" if "h' \<noteq> ms_SecretHash (mo_Status mc)" "kube_Get K s' k = Inr (RuntimeObj rt)"
          "referencesModelConfig rt mc" for k rt
        using pass(2) [OF _ that(2,3)] that(1) h'(1) by simp
    qed (use propagated(1) outcome inert frame in auto)
  qed
qed

definition example_secret :: "string \<Rightarrow> Secret" where
  "example_secret v = \<lparr>se_Meta = \<lparr>om_Name = ''keys'', om_Namespace = ''agents'', om_Labels = [], om_Annotations = [],
     om_Owner = None, om_Generation = 1, om_ResourceVersion = ''1'', om_Rest = []\<rparr>, se_Data = [(''token'', v)]\<rparr>"

definition example_model :: ModelConfig where
  "example_model = \<lparr>mo_Meta = \<lparr>om_Name = ''gpt'', om_Namespace = ''agents'', om_Labels = [], om_Annotations = [],
     om_Owner = None, om_Generation = 1, om_ResourceVersion = ''1'', om_Rest = []\<rparr>,
     mo_Spec = \<lparr>mc_Provider = ''openai'', mc_Model = ''gpt'', mc_APIEndpoint = [],
       mc_APIKey = Some \<lparr>sv_Value = [], sv_ValueFrom = Some \<lparr>vs_ConfigMapKeyRef = None,
         vs_SecretKeyRef = Some \<lparr>ks_Name = ''keys'', ks_Key = ''token''\<rparr>\<rparr>\<rparr>,
       mc_Parameters = [], mc_Headers = [], mc_AllowedNamespaces = None\<rparr>,
     mo_Status = \<lparr>ms_Conditions = [], ms_SecretHash = ''old'', ms_ObservedGeneration = 0\<rparr>\<rparr>"

definition example_models :: "string \<Rightarrow> (okey, string kobj) gomap" where
  "example_models v = [((KModelConfig, ''agents'', ''gpt''), ModelConfigObj example_model),
     ((KSecret, ''agents'', ''keys''), SecretObj (example_secret v)),
     ((KRuntime, ''agents'', ''coder''), RuntimeObj example_runtime)]"

lemmas example_defs = example_models_def example_model_def example_secret_def

lemma example_models_get:
  "kube_Get example_kube (example_models v) (KModelConfig, ''agents'', ''gpt'') = Inr (ModelConfigObj example_model)"
  "kube_Get example_kube (example_models v) (KSecret, ''agents'', ''keys'') = Inr (SecretObj (example_secret v))"
  "k \<noteq> (KSecret, ''agents'', ''keys'') \<Longrightarrow>
     kube_Get example_kube (example_models v) k = kube_Get example_kube (example_models w) k"
  by (simp_all add: example_kube_def example_store_def mlookup_def key_of_def example_defs)

theorem Rotation_correct_witness:
  "fst (Reconcile example_kube (\<lambda>x. x) (''agents'', ''gpt'') (example_models ''t'')) = Inr 0 \<and>
   (\<exists>rt. kube_Get example_kube (snd (Reconcile example_kube (\<lambda>x. x) (''agents'', ''gpt'') (example_models ''t'')))
      (KRuntime, ''agents'', ''coder'') = Inr (RuntimeObj rt) \<and>
      model_hash rt = hashSecretData (\<lambda>x. x) [(''token'', ''t'')])"
proof -
  let ?r = "Reconcile example_kube (\<lambda>x. x) (''agents'', ''gpt'') (example_models ''t'')"
  have ok: "fst ?r = Inr 0" by code_simp
  have "case kube_Get example_kube (snd ?r) (KRuntime, ''agents'', ''coder'') of
      Inr (RuntimeObj rt) \<Rightarrow> referencesModelConfig rt example_model | _ \<Rightarrow> False"
    by code_simp
  then obtain rt where rt: "kube_Get example_kube (snd ?r) (KRuntime, ''agents'', ''coder'') = Inr (RuntimeObj rt)"
      "referencesModelConfig rt example_model"
    by (auto split: sum.splits kobj.splits)
  have resolved: "resolveSecretHash example_kube (\<lambda>x. x) example_model (example_models ''t'') =
      Inr (hashSecretData (\<lambda>x. x) [(''token'', ''t'')])"
    using example_models_get(2) [of "''t''"]
    by (simp add: resolveSecretHash_def secretRefFromModelConfig_def mo_Namespace_def example_model_def example_secret_def)
  have "hashSecretData (\<lambda>x. x) [(''token'', ''t'')] \<noteq> ms_SecretHash (mo_Status example_model)"
    by (simp add: hashSecretData_def example_model_def mlen_def)
  then have "model_hash rt = hashSecretData (\<lambda>x. x) [(''token'', ''t'')]"
    using Rotation_correct [OF example_kube_laws example_models_get(1) surjective_pairing, THEN conjunct1, THEN spec,
        THEN mp, OF resolved, THEN mp, OF ok, THEN conjunct2] rt by blast
  with ok rt(1) show ?thesis by blast
qed

text \<open>C31: A change of a secret wakes exactly the ModelConfigs it concerns. For a secret whose content
  changed, with keys and values that the hashed text can tell apart and no hash collision, a
  ModelConfig is enqueued if and only if its resolved hash differs from the one before.\<close>

theorem Secret_watch:
  assumes "kube_laws K" "kube_Get K s (KModelConfig, req) = Inr (ModelConfigObj mc)"
    "kube_Get K s0 (KSecret, om_Namespace (se_Meta new), om_Name (se_Meta new)) = Inr (SecretObj old)"
    "kube_Get K s (KSecret, om_Namespace (se_Meta new), om_Name (se_Meta new)) = Inr (SecretObj new)"
    "\<And>k. k \<noteq> (KSecret, om_Namespace (se_Meta new), om_Name (se_Meta new)) \<Longrightarrow> kube_Get K s0 k = kube_Get K s k"
    "kube_List K s KModelConfig (Some (om_Namespace (se_Meta new))) = Inr xs"
    "line_safe (se_Data old)" "line_safe (se_Data new)" "mlookup (se_Data old) \<noteq> mlookup (se_Data new)"
    "sha (hash_input (se_Data old)) = sha (hash_input (se_Data new)) \<Longrightarrow> hash_input (se_Data old) = hash_input (se_Data new)"
  shows "req \<in> set (mapSecretToModelConfigs K (SecretObj new) s) \<longleftrightarrow>
    resolveSecretHash K sha mc s0 \<noteq> resolveSecretHash K sha mc s"
proof -
  let ?ns = "om_Namespace (se_Meta new)" and ?n = "om_Name (se_Meta new)"
  note mem = mapSecret_mem [OF assms(1,6,2)]
  show ?thesis
  proof (cases "mo_Namespace mc = ?ns \<and> refers_to mc ?n")
    case True
    then have "resolveSecretHash K sha mc s0 = Inr (hashSecretData sha (se_Data old))"
      "resolveSecretHash K sha mc s = Inr (hashSecretData sha (se_Data new))"
      using assms(3,4) resolve_referred [of mc ?n K s0 old sha] resolve_referred [of mc ?n K s new sha] by simp_all
    with True mem assms(9) hashSecretData_eq [OF assms(7,8,10)] show ?thesis by simp
  next
    case False
    then have "resolveSecretHash K sha mc s0 = resolveSecretHash K sha mc s"
      by (intro resolve_frame [OF assms(5)])
    with False mem show ?thesis by simp
  qed
qed

theorem Secret_watch_witness:
  "(''agents'', ''gpt'') \<in> set (mapSecretToModelConfigs example_kube (SecretObj (example_secret ''t'')) (example_models ''t''))"
proof -
  have sn: "om_Namespace (se_Meta (example_secret v)) = ''agents''" "om_Name (se_Meta (example_secret v)) = ''keys''"
      "se_Data (example_secret v) = [(''token'', v)]" for v
    by (simp_all add: example_secret_def)
  have ref: "refers_to example_model ''keys''" "mo_Namespace example_model = ''agents''"
    by (simp_all add: refers_to_def secretRefFromModelConfig_def example_model_def mo_Namespace_def)
  have resolved: "resolveSecretHash example_kube (\<lambda>x. x) example_model (example_models v) =
      Inr (hashSecretData (\<lambda>x. x) [(''token'', v)])" for v
    using resolve_referred [OF ref(1), of example_kube "example_models v" "example_secret v"]
    by (simp add: ref(2) example_models_get sn)
  have "hashSecretData (\<lambda>x. x) [(''token'', ''s'')] \<noteq> hashSecretData (\<lambda>x. x) [(''token'', ''t'')]"
    by (simp add: hashSecretData_def hash_input_def mlen_def mkeys_def mget_def)
  moreover have "(''agents'', ''gpt'') \<in> set (mapSecretToModelConfigs example_kube (SecretObj (example_secret ''t'')) (example_models ''t''))
    \<longleftrightarrow> resolveSecretHash example_kube (\<lambda>x. x) example_model (example_models ''s'') \<noteq>
        resolveSecretHash example_kube (\<lambda>x. x) example_model (example_models ''t'')"
  proof (rule Secret_watch [OF example_kube_laws example_models_get(1), where old = "example_secret ''s''"])
    show "kube_Get example_kube (example_models ''s'') k = kube_Get example_kube (example_models ''t'') k"
      if "k \<noteq> (KSecret, om_Namespace (se_Meta (example_secret ''t'')), om_Name (se_Meta (example_secret ''t'')))" for k
      using that by (intro example_models_get(3)) (simp add: sn)
    show "kube_List example_kube (example_models ''t'') KModelConfig (Some (om_Namespace (se_Meta (example_secret ''t'')))) =
        Inr (example_list (example_models ''t'') KModelConfig (Some ''agents''))"
      by (simp add: example_kube_def sn)
    have "map_of [(''token'', ''s'')] ''token'' \<noteq> map_of [(''token'', ''t'')] ''token''" by simp
    then show "mlookup (se_Data (example_secret ''s'')) \<noteq> mlookup (se_Data (example_secret ''t''))"
      unfolding mlookup_def sn by metis
  qed (simp_all add: sn example_models_get line_safe_def mwf_def)
  ultimately show ?thesis by (simp add: resolved)
qed

end
