(* ===== verification/Pipeline.thy ===== *)
theory Pipeline
  imports ProxyHandler Queue Collector
begin

text \<open>
  From a delivery to an answer: the handler the proxy gives to its consumer
  (\<open>src/cmd/proxy/main.go\<close>) run on the deliveries of one message, and the collector of the
  orchestrator fed with what the handler publishes. The proxy and the collector only meet on the
  subjects \<open>agent.status\<close> and \<open>agent.results\<close>.
\<close>

section \<open>Startup helpers\<close>

definition envOrDefault :: "(string \<Rightarrow> string) \<Rightarrow> string \<Rightarrow> string \<Rightarrow> string" where
  "envOrDefault getenv key defaultVal = (let v = getenv key in if v \<noteq> [] then v else defaultVal)"

datatype slog_level = LevelDebug | LevelInfo | LevelWarn | LevelError

definition parseLogLevel :: "string \<Rightarrow> slog_level" where
  "parseLogLevel level =
     (if level = ''debug'' then LevelDebug
      else if level = ''warn'' then LevelWarn
      else if level = ''error'' then LevelError
      else LevelInfo)"

section \<open>The deliveries of one message\<close>

text \<open>
  The consumer calls the handler for a delivery and settles it by the result; the server delivers
  the message again if it was returned. The list has the deliveries the server would make, each
  with the answers its surroundings would give; the result has what the attempts published and
  sent, and their errors.
\<close>

fun attempts ::
  "'c otel \<Rightarrow> 'c \<Rightarrow> (proxy_env \<times> delivery) list \<Rightarrow> Handler \<Rightarrow> proxy_event list \<times> Handler \<times> proxy_error option list" where
  "attempts tel ctx [] h = ([], h, [])"
| "attempts tel ctx ((env, d) # rest) h =
     (case Handle env (Queue.nats_msg.n_Data (d_msg d)) h of (evs, h', r) \<Rightarrow>
        if MsgNak \<in> set (processMessage tel ctx d (\<lambda>_ _. map_option Error r))
        then (case attempts tel ctx rest h' of (evs', h'', rs) \<Rightarrow> (evs @ evs', h'', r # rs))
        else (evs, h', [r]))"

section \<open>What the collector sees\<close>

definition event_of :: "string \<times> pub_value \<Rightarrow> pub_value collector_event" where
  "event_of p = (case p of (subject, v) \<Rightarrow>
     if take 14 subject = ''agent.results.'' then ResultMsg (Collector.nats_msg.make subject v)
     else StatusMsg (Collector.nats_msg.make subject v))"

fun decode_task :: "pub_value \<Rightarrow> string + Task" where
  "decode_task (TaskValue t) = Inr t"
| "decode_task _ = Inl ''not a task''"

fun decode_status :: "pub_value \<Rightarrow> string + TaskStatus" where
  "decode_status (StatusValue s) = Inr s"
| "decode_status _ = Inl ''not a status''"

text \<open>The answer an event holds for a task nothing is stored for.\<close>

definition answer_of :: "('b \<Rightarrow> string + Task) \<Rightarrow> ('b \<Rightarrow> string + TaskStatus) \<Rightarrow> string \<Rightarrow> 'b collector_event \<Rightarrow> TaskResult option" where
  "answer_of dt ds t ev =
     (case (case ev of
              ResultMsg m \<Rightarrow> carried dt m
            | StatusMsg m \<Rightarrow> status_check ds m NewResultCollector
            | Cancelled _ \<Rightarrow> None) of
        Some (t', tr) \<Rightarrow> if t' = t then Some tr else None
      | None \<Rightarrow> None)"

fun collect :: "('b \<Rightarrow> string + Task) \<Rightarrow> ('b \<Rightarrow> string + TaskStatus) \<Rightarrow> 'b collector_event \<Rightarrow> collector \<Rightarrow> collector" where
  "collect dt ds (ResultMsg m) rc = handleResult dt m rc"
| "collect dt ds (StatusMsg m) rc = handleStatus ds m rc"
| "collect dt ds (Cancelled _) rc = rc"

section \<open>The first answer wins\<close>

lemma status_check_free:
  "mlookup (results rc) t = None \<Longrightarrow>
   status_check ds m rc = Some (t, tr) \<longleftrightarrow> status_check ds m NewResultCollector = Some (t, tr)"
  by (auto simp: status_check_def Let_def NewResultCollector_def split: sum.splits if_splits)

lemma collect_buffer:
  assumes "col_inv rc bl" "mlookup bl ch = Some t" "mlookup (buffers rc) ch = None" "\<not> is_cancelled ev"
  shows "mlookup (buffers (collect dt ds ev rc)) ch = answer_of dt ds t ev"
proof -
  from col_delivered [OF assms(1,2)] assms(3) have w: "ch \<in> set (mget [] (waiters rc) t)" by force
  have other: "ch \<notin> set (mget [] (waiters rc) t')" if "t' \<noteq> t" for t'
    using col_blocked [OF assms(1), of ch t'] assms(2) that by auto
  have store: "mlookup (buffers (storeAndNotify t' tr rc)) ch = (if t' = t then Some tr else None)" for t' tr
    using w other [of t'] assms(3) by (simp add: store_buffers)
  have free: "mlookup (results rc) t = None" using col_waiting [OF assms(1), of t] w by force
  show ?thesis
  proof (cases ev)
    case (ResultMsg m)
    then show ?thesis using assms(3) by (auto simp: answer_of_def handleResult_carried store split: option.splits)
  next
    case (StatusMsg m)
    have "status_check ds m rc = Some (t, tr) \<longleftrightarrow> status_check ds m NewResultCollector = Some (t, tr)" for tr
      by (rule status_check_free [OF free])
    then show ?thesis using StatusMsg assms(3)
      by (fastforce simp: answer_of_def handleStatus_def store split: option.splits)
  qed (use assms(4) in simp)
qed

lemma collect_inv: "col_inv rc bl \<Longrightarrow> col_inv (collect dt ds ev rc) bl"
  by (cases ev) (simp_all add: col_inv_result col_inv_status)

lemma wait_loop_first:
  assumes "col_inv rc bl" "mlookup bl ch = Some t" "mlookup (buffers rc) ch = None" "\<forall>ev\<in>set evs. \<not> is_cancelled ev"
  shows "snd (wait_loop dt ds t ch evs rc) =
    (case List.map_filter (answer_of dt ds t) evs of [] \<Rightarrow> None | r # _ \<Rightarrow> Some (Inr r))"
  using assms
proof (induction evs arbitrary: rc)
  case Nil
  then show ?case by (simp add: wait_loop.simps wait_receive_def map_filter_simps)
next
  case (Cons ev evs)
  have step: "wait_loop dt ds t ch (ev # evs) rc = wait_loop dt ds t ch evs (collect dt ds ev rc)"
    using Cons.prems(3,4) by (cases ev) (simp_all add: wait_loop.simps [of dt ds t ch "_ # _"] wait_receive_def)
  note buf = collect_buffer [OF Cons.prems(1,2,3), of ev dt ds] 
  show ?case
  proof (cases "answer_of dt ds t ev")
    case None
    with buf Cons.prems(4) show ?thesis
      by (simp add: step Cons.IH [OF collect_inv [OF Cons.prems(1)] Cons.prems(2)] map_filter_simps)
  next
    case (Some r)
    with buf Cons.prems(4) have "wait_receive ch (collect dt ds ev rc) = Some (r, (collect dt ds ev rc)\<lparr>buffers := mdel ch (buffers (collect dt ds ev rc))\<rparr>)"
      by (simp add: receive_Some)
    then show ?thesis by (simp add: step wait_loop_ready Some map_filter_simps)
  qed
qed

lemma WaitFor_first:
  assumes "col_inv rc bl" "mlookup (results rc) t = None" "\<forall>ev\<in>set evs. \<not> is_cancelled ev"
  shows "snd (WaitFor dt ds evs t rc) =
    (case List.map_filter (answer_of dt ds t) evs of [] \<Rightarrow> None | r # _ \<Rightarrow> Some (Inr r))"
proof -
  obtain ch rc' where reg: "wait_register t rc = Inr (ch, rc')" using assms(2) by (auto simp: register_Inr)
  then have "ch = nextch rc" "buffers rc' = buffers rc" by (simp_all add: register_Inr)
  moreover have "mlookup (buffers rc) (nextch rc) = None" using col_buffer [OF assms(1), of "nextch rc"] by force
  ultimately have "mlookup (buffers rc') ch = None" by simp
  from wait_loop_first [OF col_inv_register [OF assms(1) reg] _ this assms(3)] reg
  show ?thesis by (simp add: WaitFor_def)
qed

lemma collect_keeps_full:
  "mlookup (results rc) t = Some r \<Longrightarrow> tr_Task r \<noteq> None \<Longrightarrow> mlookup (results (fold (collect dt ds) evs rc)) t = Some r"
proof (induction evs arbitrary: rc)
  case (Cons ev evs)
  have "mlookup (results (collect dt ds ev rc)) t = Some r"
    using Cons.prems
    by (cases ev) (auto simp: handleResult_carried handleStatus_def store_results replaceable_def split: option.splits)
  then show ?case using Cons.IH Cons.prems(2) by simp
qed simp

lemma collect_full:
  assumes "\<And>m t' tr. ResultMsg m \<in> set evs \<Longrightarrow> carried dt m = Some (t', tr) \<Longrightarrow> tr = full"
    "ResultMsg m \<in> set evs" "carried dt m = Some (t, full)"
    "case mlookup (results rc) t of None \<Rightarrow> True | Some r \<Rightarrow> tr_Task r = None"
  shows "mlookup (results (fold (collect dt ds) evs rc)) t = Some full"
  using assms
proof (induction evs arbitrary: rc)
  case (Cons ev evs)
  have task: "tr_Task full \<noteq> None" using carried_ok [OF Cons.prems(3)] by simp
  show ?case
  proof (cases "case mlookup (results (collect dt ds ev rc)) t of None \<Rightarrow> True | Some r \<Rightarrow> tr_Task r = None")
    case True
    have "ev \<noteq> ResultMsg m"
      using True Cons.prems(3,4) task by (auto simp: handleResult_carried store_results replaceable_def split: option.splits)
    then have mem: "ResultMsg m \<in> set evs" using Cons.prems(2) by auto
    have "mlookup (results (fold (collect dt ds) evs (collect dt ds ev rc))) t = Some full"
      by (rule Cons.IH [OF _ mem Cons.prems(3) True]) (rule Cons.prems(1), rule list.set_intros(2))
    then show ?thesis by simp
  next
    case False
    then obtain r where r: "mlookup (results (collect dt ds ev rc)) t = Some r" "tr_Task r \<noteq> None"
      by (auto split: option.splits)
    have "\<exists>m' t'. ev = ResultMsg m' \<and> carried dt m' = Some (t', r)"
      using Cons.prems(4) r
      by (cases ev) (auto simp: handleResult_carried handleStatus_def store_results replaceable_def
          split: option.splits if_splits prod.splits dest: status_check_ok)
    then have "r = full" using Cons.prems(1) [of _ _ r] by (metis list.set_intros(1))
    with r show ?thesis using collect_keeps_full [OF r] by simp
  qed
qed simp

section \<open>What the attempts publish\<close>

lemma Handle_published:
  assumes "publishes env h" "e_Unmarshal env body = Inr req" "\<not> h_shuttingDown h" "Handle env body h = (evs, h', r)"
  shows "frame h' = frame h" and "case r of
      Some err \<Rightarrow> published evs = [status_of env (task_of req) TaskStateWorking None, failed_status env (task_of req) err]
    | None \<Rightarrow> \<exists>task msg. t_ID task = task_of req \<and> ts_State (t_Status task) = TaskStateCompleted \<and>
        published evs = [status_of env (task_of req) TaskStateWorking None, (''agent.results.'' @ task_of req, TaskValue task),
          status_of env (task_of req) TaskStateCompleted msg]"
proof -
  let ?h = "h\<lparr>h_inflight := h_inflight h + 1\<rparr>"
  obtain h2 where req: "handle_request env body ?h = (evs, h2, r)" and h': "h' = leave_handle h2"
    using assms(3,4) by (auto simp: Handle_def enter_handle_def split: prod.splits)
  have p: "publishes env ?h" using assms(1) by (simp add: publishes_def)
  show "frame h' = frame h" using handle_request_frame [OF req] by (simp add: h' leave_handle_def frame_def)
  show "case r of
      Some err \<Rightarrow> published evs = [status_of env (task_of req) TaskStateWorking None, failed_status env (task_of req) err]
    | None \<Rightarrow> \<exists>task msg. t_ID task = task_of req \<and> ts_State (t_Status task) = TaskStateCompleted \<and>
        published evs = [status_of env (task_of req) TaskStateWorking None, (''agent.results.'' @ task_of req, TaskValue task),
          status_of env (task_of req) TaskStateCompleted msg]"
    using handle_request_published [OF p assms(2) req] by (cases r) (auto simp: result_task_def)
qed

text \<open>What one attempt on a task publishes, by its result.\<close>

definition reports :: "string \<Rightarrow> proxy_error option \<Rightarrow> (string \<times> pub_value) list \<Rightarrow> bool" where
  "reports t r p \<longleftrightarrow> (\<exists>env. case r of
      Some err \<Rightarrow> p = [status_of env t TaskStateWorking None, failed_status env t err]
    | None \<Rightarrow> \<exists>task msg. t_ID task = t \<and> ts_State (t_Status task) = TaskStateCompleted \<and>
        p = [status_of env t TaskStateWorking None, (''agent.results.'' @ t, TaskValue task), status_of env t TaskStateCompleted msg])"

definition decodes :: "Handler \<Rightarrow> SendMessageRequest \<Rightarrow> proxy_env \<times> delivery \<Rightarrow> bool" where
  "decodes h req a \<longleftrightarrow> publishes (fst a) h \<and> e_Unmarshal (fst a) (Queue.nats_msg.n_Data (d_msg (snd a))) = Inr req"

lemma decodes_frame: "frame h' = frame h \<Longrightarrow> decodes h req a \<Longrightarrow> decodes h' req a"
  using publishes_frame [of h h'] by (simp add: decodes_def)

lemma attempts_reports:
  assumes "\<forall>a\<in>set ads. decodes h req a" "\<not> h_shuttingDown h" "attempts tel ctx ads h = (evs, h', rs)"
  shows "\<exists>ps. published evs = concat ps \<and> list_all2 (reports (task_of req)) rs ps"
  using assms
proof (induction ads arbitrary: h evs rs)
  case Nil
  then show ?case by simp
next
  case (Cons a ads)
  obtain env d where a: "a = (env, d)" by fastforce
  obtain evs1 h1 r where H: "Handle env (Queue.nats_msg.n_Data (d_msg d)) h = (evs1, h1, r)" by (metis prod_cases3)
  have dec: "publishes env h" "e_Unmarshal env (Queue.nats_msg.n_Data (d_msg d)) = Inr req"
    using Cons.prems(1) by (simp_all add: a decodes_def)
  note pub = Handle_published [OF dec Cons.prems(2) H]
  have one: "reports (task_of req) r (published evs1)" unfolding reports_def using pub(2) by (intro exI [of _ env])
  show ?case
  proof (cases "MsgNak \<in> set (processMessage tel ctx d (\<lambda>_ _. map_option Error r))")
    case True
    then obtain evs2 rs2 where rest: "attempts tel ctx ads h1 = (evs2, h', rs2)" and evs: "evs = evs1 @ evs2" "rs = r # rs2"
      using Cons.prems(3) H by (auto simp: a split: prod.splits)
    have "\<forall>a\<in>set ads. decodes h1 req a" using Cons.prems(1) decodes_frame [OF pub(1)] by simp
    moreover have "\<not> h_shuttingDown h1" using Cons.prems(2) pub(1) by (simp add: frame_def)
    ultimately obtain ps where "published evs2 = concat ps" "list_all2 (reports (task_of req)) rs2 ps"
      using Cons.IH [OF _ _ rest] by blast
    then show ?thesis using one by (intro exI [of _ "published evs1 # ps"]) (simp add: evs)
  next
    case False
    then have "evs = evs1" "rs = [r]" using Cons.prems(3) H by (auto simp: a)
    then show ?thesis using one by (intro exI [of _ "[published evs1]"]) simp
  qed
qed

lemma returned_iff:
  "d_NumDelivered d = Some n \<Longrightarrow> MsgNak \<in> set (processMessage tel ctx d (\<lambda>_ _. r)) \<longleftrightarrow> r \<noteq> None \<and> n < 3"
  by (auto simp: processMessage_def Let_def defaultMaxDeliver_def log_failure_def split: option.splits)

lemma attempts_results:
  assumes "ads \<noteq> []" "\<forall>i<length ads. d_NumDelivered (snd (ads ! i)) = Some (Suc (k + i))" "attempts tel ctx ads h = (evs, h', rs)"
  shows "rs \<noteq> [] \<and> length rs \<le> max 1 (3 - k) \<and> (\<forall>i. Suc i < length rs \<longrightarrow> rs ! i \<noteq> None)"
  using assms
proof (induction ads arbitrary: h evs rs k)
  case (Cons a ads)
  obtain env d where a: "a = (env, d)" by fastforce
  obtain evs1 h1 r where H: "Handle env (Queue.nats_msg.n_Data (d_msg d)) h = (evs1, h1, r)" by (metis prod_cases3)
  have n: "d_NumDelivered d = Some (Suc k)" using Cons.prems(2) [rule_format, of 0] by (simp add: a)
  show ?case
  proof (cases "r \<noteq> None \<and> Suc k < 3")
    case True
    then obtain evs2 rs2 where rest: "attempts tel ctx ads h1 = (evs2, h', rs2)" and rs: "rs = r # rs2"
      using Cons.prems(3) H returned_iff [OF n, of tel ctx "map_option Error r"] by (auto simp: a split: prod.splits)
    show ?thesis
    proof (cases "ads = []")
      case True
      then show ?thesis using rest by (auto simp: rs)
    next
      case False
      have "\<forall>i<length ads. d_NumDelivered (snd (ads ! i)) = Some (Suc (Suc k + i))"
        using Cons.prems(2) by (auto dest: spec [of _ "Suc _"])
      from Cons.IH [OF False this rest] True show ?thesis by (auto simp: rs nth_Cons split: nat.splits)
    qed
  next
    case False
    then have "rs = [r]" using Cons.prems(3) H returned_iff [OF n, of tel ctx "map_option Error r"] by (auto simp: a)
    then show ?thesis by simp
  qed
qed simp

section \<open>The answers in what was published\<close>

abbreviation answers :: "string \<Rightarrow> pub_value collector_event list \<Rightarrow> TaskResult list" where
  "answers t evs \<equiv> List.map_filter (answer_of decode_task decode_status t) evs"

lemma answer_status:
  "t \<noteq> [] \<Longrightarrow> answer_of decode_task decode_status t (event_of (status_of env t state msg)) =
     (if isTerminal state then Some (zero_TaskResult\<lparr>tr_TaskID := t, tr_Status := state\<rparr>) else None)"
  by (simp add: answer_of_def event_of_def status_of_def status_check_def extractSuffix_def
      Collector.nats_msg.defs NewResultCollector_def)

lemma answer_result:
  "t \<noteq> [] \<Longrightarrow> t_ID task = t \<Longrightarrow> answer_of decode_task decode_status t (event_of (''agent.results.'' @ t, TaskValue task)) =
     Some (zero_TaskResult\<lparr>tr_TaskID := t, tr_Status := ts_State (t_Status task), tr_Task := Some task\<rparr>)"
  by (simp add: answer_of_def event_of_def carried_def extractSuffix_def Collector.nats_msg.defs)

lemma report_answers:
  assumes "reports t r p" "t \<noteq> []"
  shows "case r of
      Some _ \<Rightarrow> answers t (map event_of p) = [zero_TaskResult\<lparr>tr_TaskID := t, tr_Status := TaskStateFailed\<rparr>]
    | None \<Rightarrow> \<exists>task. answers t (map event_of p) =
        [zero_TaskResult\<lparr>tr_TaskID := t, tr_Status := TaskStateCompleted, tr_Task := Some task\<rparr>,
         zero_TaskResult\<lparr>tr_TaskID := t, tr_Status := TaskStateCompleted\<rparr>]"
  using assms
  by (auto simp: reports_def failed_status_def answer_status answer_result [simplified] map_filter_simps isTerminal_def
      task_state_defs split: option.splits)

lemma report_results:
  assumes "reports t r p" "t \<noteq> []"
  shows "case r of
      Some _ \<Rightarrow> ResultMsg m \<notin> event_of ` set p
    | None \<Rightarrow> \<exists>full. tr_Status full = TaskStateCompleted \<and> tr_Task full \<noteq> None \<and>
        (\<exists>m. ResultMsg m \<in> event_of ` set p) \<and>
        (\<forall>m. ResultMsg m \<in> event_of ` set p \<longrightarrow> carried decode_task m = Some (t, full))"
proof (cases r)
  case (Some e)
  then show ?thesis using assms by (auto simp: reports_def failed_status_def status_of_def event_of_def)
next
  case None
  then obtain env task msg where task: "t_ID task = t" "ts_State (t_Status task) = TaskStateCompleted"
    and p: "p = [status_of env t TaskStateWorking None, (''agent.results.'' @ t, TaskValue task), status_of env t TaskStateCompleted msg]"
    using assms(1) by (auto simp: reports_def)
  let ?m = "Collector.nats_msg.make (''agent.results.'' @ t) (TaskValue task)"
  have "ResultMsg m \<in> event_of ` set p \<longleftrightarrow> m = ?m" for m
    by (auto simp: p status_of_def event_of_def)
  moreover have "carried decode_task ?m =
      Some (t, zero_TaskResult\<lparr>tr_TaskID := t, tr_Status := TaskStateCompleted, tr_Task := Some task\<rparr>)"
    using task assms(2) by (simp add: carried_def extractSuffix_def Collector.nats_msg.defs)
  ultimately show ?thesis by (auto simp: None)
qed

lemma map_filter_append: "List.map_filter f (xs @ ys) = List.map_filter f xs @ List.map_filter f ys"
  by (induction xs) (simp_all add: map_filter_simps split: option.split)

lemma set_map_filter: "set (List.map_filter f xs) = {y. \<exists>x\<in>set xs. f x = Some y}"
  by (induction xs) (auto simp: map_filter_simps split: option.split)

lemma run_answers:
  assumes "list_all2 (reports t) rs ps" "t \<noteq> []" "x \<in> set (answers t (map event_of (concat ps)))"
  shows "tr_Status x = TaskStateCompleted \<and> None \<in> set rs \<or> tr_Status x = TaskStateFailed \<and> (\<exists>e. Some e \<in> set rs)"
  using assms
proof (induction rule: list_all2_induct)
  case (Cons r rs p ps)
  show ?case
  proof (cases "x \<in> set (answers t (map event_of p))")
    case True
    with report_answers [OF Cons.hyps(1) Cons.prems(1)] show ?thesis by (cases r) auto
  next
    case False
    with Cons show ?thesis by (auto simp: map_filter_append)
  qed
qed (simp add: map_filter_simps)

lemma run_first:
  assumes "list_all2 (reports t) rs ps" "t \<noteq> []" "rs \<noteq> []"
  shows "\<exists>x xs. answers t (map event_of (concat ps)) = x # xs \<and>
    tr_Status x = (if hd rs = None then TaskStateCompleted else TaskStateFailed)"
proof -
  obtain r rs' p ps' where "rs = r # rs'" "ps = p # ps'" "reports t r p"
    using assms(1,3) by (cases rs; cases ps) auto
  with report_answers [OF this(3) assms(2)] show ?thesis by (cases r) (auto simp: map_filter_append)
qed

lemma run_result:
  assumes "list_all2 (reports t) rs ps" "t \<noteq> []" "rs \<noteq> []" "last rs = None"
    "\<And>i. Suc i < length rs \<Longrightarrow> rs ! i \<noteq> None"
  shows "\<exists>full. tr_Status full = TaskStateCompleted \<and> tr_Task full \<noteq> None \<and>
    (\<exists>m. ResultMsg m \<in> event_of ` set (concat ps)) \<and>
    (\<forall>m. ResultMsg m \<in> event_of ` set (concat ps) \<longrightarrow> carried decode_task m = Some (t, full))"
proof -
  have len: "length ps = length rs" using assms(1) by (simp add: list_all2_lengthD)
  have rep: "reports t (rs ! i) (ps ! i)" if "i < length rs" for i using assms(1) that by (rule list_all2_nthD)
  let ?n = "length rs - 1"
  have n: "?n < length rs" "rs ! ?n = None" using assms(3,4) by (simp_all add: last_conv_nth)
  have only: "ResultMsg m \<in> event_of ` set (concat ps) \<longleftrightarrow> ResultMsg m \<in> event_of ` set (ps ! ?n)" for m
  proof
    assume "ResultMsg m \<in> event_of ` set (concat ps)"
    then obtain x q where x: "x \<in> set q" "q \<in> set ps" "ResultMsg m = event_of x" by auto
    from x(2) obtain i where "i < length rs" "ps ! i = q" by (metis in_set_conv_nth len)
    with x(1,3) have i: "i < length rs" "ResultMsg m \<in> event_of ` set (ps ! i)" by auto
    have "rs ! i = None" using report_results [OF rep [OF i(1)] assms(2), of m] i(2) by (cases "rs ! i") auto
    with assms(5) [of i] i(1) have "i = ?n" by fastforce
    with i show "ResultMsg m \<in> event_of ` set (ps ! ?n)" by simp
  next
    assume "ResultMsg m \<in> event_of ` set (ps ! ?n)"
    moreover have "set (ps ! ?n) \<subseteq> set (concat ps)" using n(1) nth_mem [of ?n ps] len by fastforce
    ultimately show "ResultMsg m \<in> event_of ` set (concat ps)" by blast
  qed
  show ?thesis unfolding only using report_results [OF rep [OF n(1)] assms(2)] n(2) by simp
qed

lemma results_ends:
  assumes "rs \<noteq> []" "\<And>i. Suc i < length rs \<Longrightarrow> rs ! i \<noteq> None"
  shows "None \<in> set rs \<Longrightarrow> last rs = None" and "Some e \<in> set rs \<Longrightarrow> hd rs \<noteq> None"
proof -
  assume "None \<in> set rs"
  then obtain i where i: "i < length rs" "rs ! i = None" by (auto simp: in_set_conv_nth)
  then have "i = length rs - 1" using assms(2) [of i] by fastforce
  with i show "last rs = None" using assms(1) by (simp add: last_conv_nth)
next
  assume e: "Some e \<in> set rs"
  show "hd rs \<noteq> None"
  proof
    assume "hd rs = None"
    then have "\<not> Suc 0 < length rs" using assms(2) [of 0] assms(1) by (auto simp: hd_conv_nth)
    with assms(1) e \<open>hd rs = None\<close> show False by (cases rs) auto
  qed
qed

end
