(* ===== verification/Telemetry.thy ===== *)
theory Telemetry
  imports A2A
begin

text \<open>
  Trace context in message metadata and NATS headers, the log handler and the choice of the trace
  exporter (\<open>src/internal/telemetry\<close>: \<open>context.go\<close>, the carrier of \<open>nats.go\<close>, \<open>logging.go\<close> and
  \<open>provider.go\<close>). A propagator writes fields of a context to a carrier and reads a context back
  through the carrier's lookup; propagators, exporters and the wrapped log handler are parameters.
\<close>

section \<open>Carriers\<close>

definition metadata_Get :: "metadata \<Rightarrow> string \<Rightarrow> string" where
  "metadata_Get c key = (case mlookup c key of Some (AnyStr s) \<Rightarrow> s | _ \<Rightarrow> [])"

definition metadata_Set :: "string \<Rightarrow> string \<Rightarrow> metadata \<Rightarrow> metadata" where
  "metadata_Set key value c = mput key (AnyStr value) c"

definition metadata_Keys :: "metadata \<Rightarrow> string list" where
  "metadata_Keys c = mkeys c"

text \<open>A NATS header: the first value of a key is read, and setting a key leaves one value.\<close>

type_synonym nats_header = "(string, string list) gomap"

definition header_Get :: "nats_header \<Rightarrow> string \<Rightarrow> string" where
  "header_Get c key = (case mget [] c key of [] \<Rightarrow> [] | v # _ \<Rightarrow> v)"

definition header_Set :: "string \<Rightarrow> string \<Rightarrow> nats_header \<Rightarrow> nats_header" where
  "header_Set key value c = mput key [value] c"

definition header_Keys :: "nats_header \<Rightarrow> string list" where
  "header_Keys c = mkeys c"

section \<open>Injection and extraction\<close>

record 'c propagator =
  w_Fields :: "'c \<Rightarrow> (string \<times> string) list"
  w_Extract :: "'c \<Rightarrow> (string \<Rightarrow> string) \<Rightarrow> 'c"

definition write_fields :: "(string \<Rightarrow> string \<Rightarrow> 'm \<Rightarrow> 'm) \<Rightarrow> (string \<times> string) list \<Rightarrow> 'm \<Rightarrow> 'm" where
  "write_fields set_field kvs c = fold (\<lambda>(k, v). set_field k v) kvs c"

definition InjectTraceContext :: "'c propagator \<Rightarrow> 'c \<Rightarrow> metadata option \<Rightarrow> metadata" where
  "InjectTraceContext p ctx m = write_fields metadata_Set (w_Fields p ctx) (case m of None \<Rightarrow> [] | Some x \<Rightarrow> x)"

definition ExtractTraceContext :: "'c propagator \<Rightarrow> 'c \<Rightarrow> metadata option \<Rightarrow> 'c" where
  "ExtractTraceContext p ctx m = (case m of None \<Rightarrow> ctx | Some x \<Rightarrow> w_Extract p ctx (metadata_Get x))"

definition inject_header :: "'c propagator \<Rightarrow> 'c \<Rightarrow> nats_header option \<Rightarrow> nats_header" where
  "inject_header p ctx h = write_fields header_Set (w_Fields p ctx) (case h of None \<Rightarrow> [] | Some x \<Rightarrow> x)"

definition extract_header :: "'c propagator \<Rightarrow> 'c \<Rightarrow> nats_header option \<Rightarrow> 'c" where
  "extract_header p ctx h = (case h of None \<Rightarrow> ctx | Some x \<Rightarrow> w_Extract p ctx (header_Get x))"

subsection \<open>The contract of a carrier\<close>

locale text_map_carrier =
  fixes get :: "'m \<Rightarrow> string \<Rightarrow> string"
    and set_field :: "string \<Rightarrow> string \<Rightarrow> 'm \<Rightarrow> 'm"
    and keys :: "'m \<Rightarrow> string list"
  assumes get_set: "get (set_field k v c) k' = (if k' = k then v else get c k')"
    and keys_set: "set (keys (set_field k v c)) = insert k (set (keys c))"
begin

lemma get_write:
  "distinct (map fst kvs) \<Longrightarrow>
   get (write_fields set_field kvs c) k = (case map_of kvs k of None \<Rightarrow> get c k | Some v \<Rightarrow> v)"
proof (induction kvs arbitrary: c)
  case Nil
  then show ?case by (simp add: write_fields_def)
next
  case (Cons kv kvs)
  obtain a b where kv: "kv = (a, b)" by fastforce
  have none: "map_of kvs a = None" using Cons.prems by (simp add: kv map_of_eq_None_iff)
  have "get (write_fields set_field (kv # kvs) c) k =
      (case map_of kvs k of None \<Rightarrow> get (set_field a b c) k | Some v \<Rightarrow> v)"
    using Cons.IH [of "set_field a b c"] Cons.prems by (simp add: write_fields_def kv)
  then show ?case using none by (cases "k = a") (simp_all add: kv get_set split: option.split)
qed

lemma keys_write: "set (keys (write_fields set_field kvs c)) = set (keys c) \<union> fst ` set kvs"
  by (induction kvs arbitrary: c) (auto simp: write_fields_def keys_set)

end

interpretation md: text_map_carrier metadata_Get metadata_Set metadata_Keys
  by unfold_locales (simp_all add: metadata_Get_def metadata_Set_def metadata_Keys_def)

interpretation nh: text_map_carrier header_Get header_Set header_Keys
  by unfold_locales (simp_all add: header_Get_def header_Set_def header_Keys_def)

text \<open>
  A context sent in metadata or headers comes back in its own trace, whatever else the carrier
  held, for a propagator that writes each field once and reads the trace from its own fields.
\<close>

definition restores :: "'c propagator \<Rightarrow> ('c \<Rightarrow> 't) \<Rightarrow> bool" where
  "restores p trace \<longleftrightarrow> (\<forall>ctx. distinct (map fst (w_Fields p ctx))) \<and>
     (\<forall>ctx ctx' g. (\<forall>(k, v)\<in>set (w_Fields p ctx'). g k = v) \<longrightarrow> trace (w_Extract p ctx g) = trace ctx')"

lemma restoresD:
  "restores p trace \<Longrightarrow> (\<And>k v. (k, v) \<in> set (w_Fields p ctx') \<Longrightarrow> g k = v) \<Longrightarrow> trace (w_Extract p ctx g) = trace ctx'"
  unfolding restores_def by blast

lemma trace_roundtrip:
  assumes "restores p trace"
  shows "trace (ExtractTraceContext p ctx (Some (InjectTraceContext p ctx' m))) = trace ctx'"
    and "trace (extract_header p ctx (Some (inject_header p ctx' h))) = trace ctx'"
proof -
  have d: "distinct (map fst (w_Fields p ctx'))" using assms by (simp add: restores_def)
  have "metadata_Get (InjectTraceContext p ctx' m) k = v" "header_Get (inject_header p ctx' h) k = v"
    if "(k, v) \<in> set (w_Fields p ctx')" for k v
    using map_of_is_SomeI [OF d that] by (simp_all add: InjectTraceContext_def inject_header_def md.get_write [OF d] nh.get_write [OF d])
  then show "trace (ExtractTraceContext p ctx (Some (InjectTraceContext p ctx' m))) = trace ctx'"
    and "trace (extract_header p ctx (Some (inject_header p ctx' h))) = trace ctx'"
    by (simp_all add: ExtractTraceContext_def extract_header_def restoresD [OF assms])
qed

lemma injected_keys:
  "set (mkeys (InjectTraceContext p ctx (Some m))) = set (mkeys m) \<union> fst ` set (w_Fields p ctx)"
  using md.keys_write [of "w_Fields p ctx" m] by (simp add: InjectTraceContext_def metadata_Keys_def)

section \<open>Logging\<close>

text \<open>A record is its attributes; the span of a context is its trace and span identifiers, if valid.\<close>

definition LogHandler_Handle ::
  "('c \<Rightarrow> (string \<times> string) option) \<Rightarrow> ('c \<Rightarrow> (string \<times> string) list \<Rightarrow> string option) \<Rightarrow> 'c \<Rightarrow> (string \<times> string) list \<Rightarrow> string option" where
  "LogHandler_Handle span inner ctx attrs = inner ctx (case span ctx of
      None \<Rightarrow> attrs
    | Some (traceID, spanID) \<Rightarrow> attrs @ [(''trace_id'', traceID), (''span_id'', spanID)])"

text \<open>
  A log handler is what it does with a level, with a record, and the handlers that derive from it
  with attributes and groups. \<open>'h\<close> is the wrapped handler; the operations of its package are a record.
\<close>

record ('h, 'c) slog_ops =
  sl_Enabled :: "'h \<Rightarrow> 'c \<Rightarrow> int \<Rightarrow> bool"
  sl_Handle :: "'h \<Rightarrow> 'c \<Rightarrow> (string \<times> string) list \<Rightarrow> string option"
  sl_WithAttrs :: "'h \<Rightarrow> (string \<times> string) list \<Rightarrow> 'h"
  sl_WithGroup :: "'h \<Rightarrow> string \<Rightarrow> 'h"

datatype 'h LogHandler = LogHandler (lh_inner: 'h)

definition NewLogHandler :: "'h \<Rightarrow> 'h LogHandler" where
  "NewLogHandler h = LogHandler h"

definition LogHandler_Enabled :: "('h, 'c) slog_ops \<Rightarrow> 'h LogHandler \<Rightarrow> 'c \<Rightarrow> int \<Rightarrow> bool" where
  "LogHandler_Enabled ops lh ctx level = sl_Enabled ops (lh_inner lh) ctx level"

definition LogHandler_WithAttrs :: "('h, 'c) slog_ops \<Rightarrow> 'h LogHandler \<Rightarrow> (string \<times> string) list \<Rightarrow> 'h LogHandler" where
  "LogHandler_WithAttrs ops lh attrs = LogHandler (sl_WithAttrs ops (lh_inner lh) attrs)"

definition LogHandler_WithGroup :: "('h, 'c) slog_ops \<Rightarrow> 'h LogHandler \<Rightarrow> string \<Rightarrow> 'h LogHandler" where
  "LogHandler_WithGroup ops lh name = LogHandler (sl_WithGroup ops (lh_inner lh) name)"

text \<open>The logger of the program: a JSON handler with a least level, wrapped.\<close>

definition NewLogger :: "(int \<Rightarrow> 'h) \<Rightarrow> int \<Rightarrow> 'h LogHandler" where
  "NewLogger json_handler level = NewLogHandler (json_handler level)"

definition log_with :: "('h, 'c) slog_ops \<Rightarrow> ('c \<Rightarrow> (string \<times> string) option) \<Rightarrow> 'h LogHandler \<Rightarrow> 'c \<Rightarrow> (string \<times> string) list \<Rightarrow> string option" where
  "log_with ops span lh ctx attrs = LogHandler_Handle span (sl_Handle ops (lh_inner lh)) ctx attrs"

text \<open>However a handler was derived from the logger, by attributes (\<open>Inl\<close>) and groups (\<open>Inr\<close>), a record
  logged in a span carries the identifiers of that span, after its own attributes.\<close>

definition derive :: "('h, 'c) slog_ops \<Rightarrow> (string \<times> string) list + string \<Rightarrow> 'h LogHandler \<Rightarrow> 'h LogHandler" where
  "derive ops x lh = (case x of Inl attrs \<Rightarrow> LogHandler_WithAttrs ops lh attrs | Inr name \<Rightarrow> LogHandler_WithGroup ops lh name)"

definition derive_inner :: "('h, 'c) slog_ops \<Rightarrow> (string \<times> string) list + string \<Rightarrow> 'h \<Rightarrow> 'h" where
  "derive_inner ops x h = (case x of Inl attrs \<Rightarrow> sl_WithAttrs ops h attrs | Inr name \<Rightarrow> sl_WithGroup ops h name)"

lemma derived_inner: "lh_inner (fold (derive ops) xs lh) = fold (derive_inner ops) xs (lh_inner lh)"
  by (induction xs arbitrary: lh)
    (auto simp: derive_def derive_inner_def LogHandler_WithAttrs_def LogHandler_WithGroup_def split: sum.splits)

lemma derived_logger_traces:
  assumes "span ctx = Some (traceID, spanID)"
  shows "log_with ops span (fold (derive ops) xs (NewLogger json level)) ctx attrs =
    sl_Handle ops (fold (derive_inner ops) xs (json level)) ctx (attrs @ [(''trace_id'', traceID), (''span_id'', spanID)])"
  using assms by (simp add: log_with_def LogHandler_Handle_def derived_inner NewLogger_def NewLogHandler_def)

section \<open>Trace context of a collected message\<close>

text \<open>The trace of a context is its identifier, if valid; a remote context for an identifier is a parameter.\<close>

definition applyMetadataTraceFallback ::
  "('c \<Rightarrow> 't option) \<Rightarrow> (string \<Rightarrow> 't option) \<Rightarrow> ('c \<Rightarrow> 't \<Rightarrow> 'c) \<Rightarrow> 'c \<Rightarrow> string \<Rightarrow> 'c" where
  "applyMetadataTraceFallback trace_of fromHex with_remote ctx traceID =
     (if traceID = [] then ctx
      else if trace_of ctx \<noteq> None then ctx
      else case fromHex traceID of None \<Rightarrow> ctx | Some tid \<Rightarrow> with_remote ctx tid)"

lemma fallback_trace:
  assumes "\<And>ctx tid. trace_of (with_remote ctx tid) = Some tid" "fromHex [] = None"
  shows "trace_of (applyMetadataTraceFallback trace_of fromHex with_remote ctx traceID) =
    (case trace_of ctx of Some tid \<Rightarrow> Some tid | None \<Rightarrow> fromHex traceID)"
  using assms by (auto simp: applyMetadataTraceFallback_def split: option.splits)

section \<open>Choosing the exporter\<close>

record telemetry_Config =
  tc_ServiceName :: string
  tc_ServiceVersion :: string
  tc_ExporterType :: string
  tc_OTLPEndpoint :: string

datatype exporter = Noop | OtlpExporter "string option" | StdoutExporter

datatype telemetry_error = BuildResource string | OtlpFailed string | StdoutFailed string | UnknownExporter string

text \<open>The errors of the library calls, and whether the global propagator is set in the end.\<close>

record telemetry_env =
  te_Resource :: "string \<Rightarrow> string \<Rightarrow> string option"
  te_Otlp :: "string option \<Rightarrow> string option"
  te_Stdout :: "string option"

definition NewProvider :: "telemetry_env \<Rightarrow> telemetry_Config \<Rightarrow> telemetry_error + exporter \<times> bool" where
  "NewProvider env cfg =
     (if tc_ExporterType cfg = [] \<or> tc_ExporterType cfg = ''noop'' then Inr (Noop, False)
      else case te_Resource env (tc_ServiceName cfg) (tc_ServiceVersion cfg) of
        Some e \<Rightarrow> Inl (BuildResource e)
      | None \<Rightarrow>
          if tc_ExporterType cfg = ''otlp'' then
            (let endpoint = (if tc_OTLPEndpoint cfg \<noteq> [] then Some (tc_OTLPEndpoint cfg) else None)
             in case te_Otlp env endpoint of Some e \<Rightarrow> Inl (OtlpFailed e) | None \<Rightarrow> Inr (OtlpExporter endpoint, True))
          else if tc_ExporterType cfg = ''stdout'' then
            (case te_Stdout env of Some e \<Rightarrow> Inl (StdoutFailed e) | None \<Rightarrow> Inr (StdoutExporter, True))
          else Inl (UnknownExporter (tc_ExporterType cfg)))"

text \<open>The registered provider is used through its tracers and its shutdown; without a span processor
  there is nothing to flush.\<close>

definition Tracer :: "(exporter \<Rightarrow> string \<Rightarrow> 't) \<Rightarrow> exporter \<Rightarrow> string \<Rightarrow> 't" where
  "Tracer tracers p name = tracers p name"

definition Provider_Shutdown :: "(exporter \<Rightarrow> string option) \<Rightarrow> exporter \<Rightarrow> string option" where
  "Provider_Shutdown flush p = (case p of Noop \<Rightarrow> None | _ \<Rightarrow> flush p)"

text \<open>Without an exporter the global propagator stays unset; the carriers above have propagators of their own.\<close>

lemma NewProvider_propagates:
  "NewProvider env cfg = Inr (p, set_propagator) \<Longrightarrow> set_propagator \<longleftrightarrow> p \<noteq> Noop"
  by (auto simp: NewProvider_def Let_def split: if_splits option.splits)

lemma NewProvider_unknown:
  "tc_ExporterType cfg \<notin> {[], ''noop'', ''otlp'', ''stdout''} \<Longrightarrow> \<exists>e. NewProvider env cfg = Inl e"
  by (auto simp: NewProvider_def split: option.splits)

end
