(* ===== verification/ProxyMain.thy ===== *)
theory ProxyMain
  imports Pipeline Shutdown AcpClient Telemetry
begin

text \<open>
  The proxy command (\<open>src/cmd/proxy/main.go\<close>): configuration, the connections it opens in order, the
  consumer it runs until a signal, the shutdown, and the deferred releases. A startup step that
  fails ends the process with \<open>os.Exit\<close>, which runs no deferred call; a normal return runs them, the
  last one deferred first. The environment answers for the libraries; \<open>me_split\<close> says how many events
  of the consumer come before the signal and how many until the shutdown returns. Logging is
  left out.
\<close>

section \<open>Configuration\<close>

record proxy_flags =
  fl_acpAddr :: string
  fl_natsURL :: string
  fl_stream :: string
  fl_subject :: string
  fl_workDir :: string
  fl_logLevel :: string
  fl_gracePeriod :: string
  fl_otelExporter :: string
  fl_otelEndpoint :: string

text \<open>A flag of the command line, or the default the flag was declared with.\<close>

definition flag_String :: "(string \<Rightarrow> string option) \<Rightarrow> string \<Rightarrow> string \<Rightarrow> string" where
  "flag_String args name value = (case args name of Some v \<Rightarrow> v | None \<Rightarrow> value)"

definition main_flags :: "(string \<Rightarrow> string) \<Rightarrow> (string \<Rightarrow> string option) \<Rightarrow> proxy_flags" where
  "main_flags getenv args =
     \<lparr>fl_acpAddr = flag_String args ''acp-addr'' (envOrDefault getenv ''ACP_ADDR'' ''localhost:3000''),
      fl_natsURL = flag_String args ''nats-url'' (envOrDefault getenv ''NATS_URL'' ''nats://localhost:4222''),
      fl_stream = flag_String args ''stream'' (envOrDefault getenv ''NATS_STREAM'' ''AGENT_TASKS''),
      fl_subject = flag_String args ''subject'' (envOrDefault getenv ''NATS_SUBJECT'' ''agent.tasks.>''),
      fl_workDir = flag_String args ''work-dir'' (envOrDefault getenv ''WORK_DIR'' ''/workspace''),
      fl_logLevel = flag_String args ''log-level'' (envOrDefault getenv ''LOG_LEVEL'' ''info''),
      fl_gracePeriod = flag_String args ''grace-period'' (envOrDefault getenv ''GRACE_PERIOD'' ''30s''),
      fl_otelExporter = flag_String args ''otel-exporter'' (envOrDefault getenv ''OTEL_EXPORTER'' ''noop''),
      fl_otelEndpoint = flag_String args ''otel-endpoint'' (envOrDefault getenv ''OTEL_ENDPOINT'' [])\<rparr>"

section \<open>Events and environment\<close>

datatype release = TelemetryShutdown | StopSignals | AcpClose | ConsumerClose

datatype 'c main_event =
    TelemetryStarted exporter
  | SignalsOn
  | AcpConnected string
  | AcpInitialized int
  | NatsCall nats_call
  | PublisherReady
  | ConsumerEvent "'c consume_event"
  | SignalReceived
  | ShutdownReturned "shutdown_error option"
  | ConsumerReturned
  | Released release

record 'c main_env =
  me_getenv :: "string \<Rightarrow> string"
  me_args :: "string \<Rightarrow> string option"
  me_ParseDuration :: "string \<Rightarrow> string + int"
  me_telemetry :: telemetry_env
  me_Dial :: "string \<Rightarrow> string option"
  me_codec :: codec
  me_call :: "string \<Rightarrow> acp_params \<Rightarrow> acp_error + Response"
  me_nats :: nats_env
  me_publisher :: "string option"
  me_otel :: "'c otel"
  me_ctx :: 'c
  me_handler :: "'c handler"
  me_turns :: "run_turn list"
  me_shutdown :: "shutdown_error option"
  me_split :: "nat \<times> nat"

abbreviation flags_of :: "'c main_env \<Rightarrow> proxy_flags" where
  "flags_of env \<equiv> main_flags (me_getenv env) (me_args env)"

section \<open>Startup\<close>

text \<open>A step of the startup: what it did, what it deferred, and whether it succeeded.\<close>

type_synonym 'c stage = "'c main_event list \<times> release list \<times> bool"

definition stage_grace :: "'c main_env \<Rightarrow> 'c stage" where
  "stage_grace env = ([], [], \<not> isl (me_ParseDuration env (fl_gracePeriod (flags_of env))))"

definition stage_telemetry :: "'c main_env \<Rightarrow> 'c stage" where
  "stage_telemetry env =
     (case NewProvider (me_telemetry env) \<lparr>tc_ServiceName = ''daedalus-proxy'', tc_ServiceVersion = ''0.1.0'',
             tc_ExporterType = fl_otelExporter (flags_of env), tc_OTLPEndpoint = fl_otelEndpoint (flags_of env)\<rparr> of
        Inl _ \<Rightarrow> ([], [], False)
      | Inr (p, _) \<Rightarrow> ([TelemetryStarted p], [TelemetryShutdown], True))"

definition stage_signals :: "'c stage" where
  "stage_signals = ([SignalsOn], [StopSignals], True)"

definition stage_acp :: "'c main_env \<Rightarrow> 'c stage" where
  "stage_acp env =
     (case Connect (me_Dial env) (new_connection (fl_acpAddr (flags_of env))) of
        (Some _, _) \<Rightarrow> ([], [], False)
      | (None, c) \<Rightarrow> ([AcpConnected (k_addr c)], [AcpClose], True))"

definition stage_initialize :: "'c main_env \<Rightarrow> 'c stage" where
  "stage_initialize env =
     (case Initialize (me_codec env) (me_call env) of
        Inl _ \<Rightarrow> ([], [], False)
      | Inr v \<Rightarrow> ([AcpInitialized v], [], True))"

definition stage_consumer :: "'c main_env \<Rightarrow> 'c stage" where
  "stage_consumer env =
     (case NewConsumer (me_nats env) \<lparr>qc_URL = fl_natsURL (flags_of env), qc_Stream = fl_stream (flags_of env),
             qc_Subject = fl_subject (flags_of env)\<rparr> of
        (calls, Inl _) \<Rightarrow> (map NatsCall calls, [], False)
      | (calls, Inr _) \<Rightarrow> (map NatsCall calls, [ConsumerClose], True))"

definition stage_publisher :: "'c main_env \<Rightarrow> 'c stage" where
  "stage_publisher env =
     (case NewPublisher (me_publisher env) of
        Some _ \<Rightarrow> ([], [], False)
      | None \<Rightarrow> ([PublisherReady], [], True))"

definition stages :: "'c main_env \<Rightarrow> 'c stage list" where
  "stages env = [stage_grace env, stage_telemetry env, stage_signals, stage_acp env, stage_initialize env,
     stage_consumer env, stage_publisher env]"

text \<open>The result has the deferred calls, the last one first, or \<open>None\<close> after \<open>os.Exit(1)\<close>.\<close>

fun startup :: "'c stage list \<Rightarrow> release list \<Rightarrow> 'c main_event list \<times> release list option" where
  "startup [] deferred = ([], Some deferred)"
| "startup ((evs, rel, ok) # rest) deferred =
     (if ok then (case startup rest (rel @ deferred) of (evs', r) \<Rightarrow> (evs @ evs', r)) else (evs, None))"

section \<open>Serving\<close>

text \<open>The handler is marked as initialised, since the client was initialised above.\<close>

definition main_handler :: "proxy_flags \<Rightarrow> Handler" where
  "main_handler fl = SetInitialized (NewHandler True (fl_workDir fl) None)"

definition main_manager :: "proxy_flags \<Rightarrow> int \<Rightarrow> ShutdownManager" where
  "main_manager fl grace = NewShutdownManager (main_handler fl) grace"

definition serve :: "'c main_env \<Rightarrow> 'c main_event list \<times> bool" where
  "serve env =
     (case Run (me_otel env) (me_ctx env) (me_handler env) (me_turns env) of
        (cs, finished) \<Rightarrow>
          (let evs = map ConsumerEvent cs; (a, b) = me_split env
           in (take a evs @ [SignalReceived, Released StopSignals] @ take b (drop a evs) @
                 [ShutdownReturned (me_shutdown env)] @ drop b (drop a evs) @ (if finished then [ConsumerReturned] else []),
               finished)))"

text \<open>The exit status is \<open>None\<close> as long as the consumer has not returned.\<close>

definition proxy_main :: "'c main_env \<Rightarrow> 'c main_event list \<times> nat option" where
  "proxy_main env =
     (case startup (stages env) [] of
        (evs, None) \<Rightarrow> (evs, Some 1)
      | (evs, Some deferred) \<Rightarrow>
          (case serve env of
             (evs', True) \<Rightarrow> (evs @ evs' @ map Released deferred, Some 0)
           | (evs', False) \<Rightarrow> (evs @ evs', None)))"

section \<open>Lemmas\<close>

definition starts :: "'c main_env \<Rightarrow> bool" where
  "starts env \<longleftrightarrow> (\<forall>(evs, rel, ok)\<in>set (stages env). ok)"

lemma startup_failed:
  "(\<exists>(evs, rel, ok)\<in>set ss. \<not> ok) \<Longrightarrow> snd (startup ss ds) = None"
  by (induction ss ds rule: startup.induct) (auto split: prod.splits)

lemma startup_ok:
  "(\<forall>(evs, rel, ok)\<in>set ss. ok) \<Longrightarrow>
   startup ss ds = (concat (map fst ss), Some (concat (rev (map (\<lambda>(evs, rel, ok). rel) ss)) @ ds))"
  by (induction ss ds rule: startup.induct) auto

lemma startup_events: "e \<in> set (fst (startup ss ds)) \<Longrightarrow> \<exists>s\<in>set ss. e \<in> set (fst s)"
  by (induction ss ds rule: startup.induct) (fastforce split: prod.splits if_splits)+

lemmas stage_defs = stage_grace_def stage_telemetry_def stage_signals_def stage_acp_def stage_initialize_def
  stage_consumer_def stage_publisher_def

definition opening_event :: "'c main_event \<Rightarrow> bool" where
  "opening_event e \<longleftrightarrow> (case e of ConsumerEvent _ \<Rightarrow> False | Released _ \<Rightarrow> False | _ \<Rightarrow> True)"

lemma stages_opening: "(evs, rel, ok) \<in> set (stages env) \<Longrightarrow> e \<in> set evs \<Longrightarrow> opening_event e"
  by (auto simp: stages_def stage_defs opening_event_def split: sum.splits prod.splits option.splits)

lemma startup_opening: "e \<in> set (fst (startup (stages env) ds)) \<Longrightarrow> opening_event e"
  using startup_events [of e "stages env" ds] stages_opening by fastforce

lemma started_events:
  assumes "starts env"
  obtains evs v where "startup (stages env) [] = (evs, Some [ConsumerClose, AcpClose, StopSignals, TelemetryShutdown])"
    "AcpInitialized v \<in> set evs" "PublisherReady \<in> set evs"
proof -
  have ok: "\<forall>(evs, rel, ok)\<in>set (stages env). ok" using assms by (simp add: starts_def)
  have "concat (rev (map (\<lambda>(evs, rel, ok). rel) (stages env))) @ [] =
      [ConsumerClose, AcpClose, StopSignals, TelemetryShutdown]"
    using ok by (auto simp: stages_def stage_defs split: sum.splits prod.splits option.splits)
  then have run: "startup (stages env) [] =
      (concat (map fst (stages env)), Some [ConsumerClose, AcpClose, StopSignals, TelemetryShutdown])"
    using startup_ok [OF ok, of "[]"] by simp
  have init: "\<exists>v. AcpInitialized v \<in> set (concat (map fst (stages env)))"
    and pub: "PublisherReady \<in> set (concat (map fst (stages env)))"
    using ok by (auto simp: stages_def stage_initialize_def stage_publisher_def split: sum.splits option.splits)
  from init obtain v where "AcpInitialized v \<in> set (concat (map fst (stages env)))" ..
  from that [OF run this pub] show thesis .
qed

lemma serve_returns: "snd (serve env) \<longleftrightarrow> (\<exists>u\<in>set (me_turns env). stops u)"
  by (simp add: serve_def Run_taken Let_def split: prod.splits)

definition consumer_events :: "'c main_event list \<Rightarrow> 'c consume_event list" where
  "consumer_events evs = List.map_filter (\<lambda>e. case e of ConsumerEvent c \<Rightarrow> Some c | _ \<Rightarrow> None) evs"

lemma consumer_events_simps [simp]:
  "consumer_events [] = []" "consumer_events (xs @ ys) = consumer_events xs @ consumer_events ys"
  "consumer_events (map ConsumerEvent cs) = cs" "consumer_events (map Released rs) = []"
  "consumer_events (e # es) = (case e of ConsumerEvent c \<Rightarrow> c # consumer_events es | _ \<Rightarrow> consumer_events es)"
  by (simp_all add: consumer_events_def map_filter_def comp_def split: main_event.split)

lemma consumer_events_none: "\<forall>e\<in>set evs. opening_event e \<Longrightarrow> consumer_events evs = []"
  by (induction evs) (auto simp: opening_event_def split: main_event.splits)

lemma serve_events:
  "consumer_events (fst (serve env)) = fst (Run (me_otel env) (me_ctx env) (me_handler env) (me_turns env))"
proof -
  obtain cs r where run: "Run (me_otel env) (me_ctx env) (me_handler env) (me_turns env) = (cs, r)" by fastforce
  obtain a b where ab: "me_split env = (a, b)" by fastforce
  have "take b (drop a cs) @ drop b (drop a cs) = drop a cs" by (rule append_take_drop_id)
  then show ?thesis by (simp add: serve_def run ab Let_def take_map drop_map del: drop_drop)
qed

lemma serve_released: "Released r \<in> set (fst (serve env)) \<Longrightarrow> r = StopSignals"
  by (auto simp: serve_def Let_def split: prod.splits if_splits dest!: in_set_takeD in_set_dropD)

lemma serve_ends:
  assumes "snd (serve env)"
  shows "\<exists>es. fst (serve env) = es @ [ConsumerReturned] \<and> SignalReceived \<in> set es \<and> ShutdownReturned (me_shutdown env) \<in> set es"
  using assms by (auto simp: serve_def Let_def split: prod.splits)

text \<open>The proxy never initialises its agent a second time.\<close>

lemma init_kept: "h_init h = Some None \<Longrightarrow> init_once env h = ([], h, None)"
  by (simp add: init_once_def)

lemma fail_quiet: "AcpInitialize \<notin> set (fst (fail env h t e))"
  by (simp add: fail_def publishStatus_def Let_def split: option.splits)

lemma publishStatus_quiet: "AcpInitialize \<notin> set (publishStatus env h t st m)"
  by (simp add: publishStatus_def Let_def split: option.splits)

lemma run_prompt_init:
  "run_prompt env req t i tr h = (evs, h', r) \<Longrightarrow> AcpInitialize \<notin> set evs \<and> h_init h' = h_init h"
  using fail_quiet [of env h t] publishStatus_quiet
  by (auto simp: run_prompt_def publish_result_def Let_def with_tracker_def fail_def
      split: if_splits sum.splits prod.splits option.splits)

lemma handle_session_init:
  "handle_session env req t tr h = (evs, h', r) \<Longrightarrow> AcpInitialize \<notin> set evs \<and> h_init h' = h_init h"
  using publishStatus_quiet
  by (auto simp: handle_session_def with_tracker_def registerSession_def deregisterSession_def fail_def
      split: sum.splits prod.splits dest!: run_prompt_init)

lemma Handle_init:
  assumes "h_init h = Some None" "Handle env body h = (evs, h', r)"
  shows "AcpInitialize \<notin> set evs \<and> h_init h' = Some None"
proof -
  have "AcpInitialize \<notin> set evs \<and> h_init h2 = Some None"
    if "handle_request env body h1 = (evs, h2, r)" "h_init h1 = Some None" for h1 h2 evs r
    using that publishStatus_quiet
    by (auto simp: handle_request_def init_kept Let_def split: sum.splits prod.splits dest!: handle_session_init)
  from this [where ?h1.0 = "h\<lparr>h_inflight := h_inflight h + 1\<rparr>"] assms show ?thesis
    by (auto simp: Handle_def enter_handle_def leave_handle_def split: if_splits prod.splits)
qed

lemma attempts_init:
  "h_init h = Some None \<Longrightarrow> attempts tel ctx ads h = (evs, h', rs) \<Longrightarrow> AcpInitialize \<notin> set evs \<and> h_init h' = Some None"
proof (induction ads arbitrary: h evs h' rs)
  case (Cons ad ads)
  obtain env d where ad: "ad = (env, d)" by fastforce
  obtain e1 h1 r1 where h1: "Handle env (Queue.nats_msg.n_Data (d_msg d)) h = (e1, h1, r1)" by (metis prod_cases3)
  obtain e2 h2 r2 where h2: "attempts tel ctx ads h1 = (e2, h2, r2)" by (metis prod_cases3)
  from Handle_init [OF Cons.prems(1) h1] Cons.IH [OF _ h2] Cons.prems(2) show ?case
    by (auto simp: ad h1 h2 split: if_splits)
qed simp

lemma proxy_main_status:
  "snd (proxy_main env) = (if \<not> starts env then Some 1 else if \<exists>u\<in>set (me_turns env). stops u then Some 0 else None)"
proof (cases "starts env")
  case False
  then have "snd (startup (stages env) []) = None" by (intro startup_failed) (auto simp: starts_def)
  with False show ?thesis by (auto simp: proxy_main_def split: prod.splits)
next
  case True
  then obtain evs ds where "startup (stages env) [] = (evs, Some ds)" by (metis started_events)
  with True serve_returns [of env] show ?thesis by (cases "serve env") (auto simp: proxy_main_def split: bool.splits)
qed

lemma proxy_main_started:
  assumes "starts env"
  obtains evs v where "fst (proxy_main env) = evs @ fst (serve env) @
      (if snd (serve env) then map Released [ConsumerClose, AcpClose, StopSignals, TelemetryShutdown] else [])"
    "AcpInitialized v \<in> set evs" "PublisherReady \<in> set evs" "\<forall>e\<in>set evs. opening_event e"
proof -
  obtain evs v where s: "startup (stages env) [] = (evs, Some [ConsumerClose, AcpClose, StopSignals, TelemetryShutdown])"
    "AcpInitialized v \<in> set evs" "PublisherReady \<in> set evs" using started_events [OF assms] .
  have "\<forall>e\<in>set evs. opening_event e" using startup_opening [of _ env "[]"] s(1) by simp
  with that [of evs v] s show thesis by (simp add: proxy_main_def split: prod.splits bool.splits)
qed

lemma proxy_main_exits:
  assumes "\<not> starts env" "e \<in> set (fst (proxy_main env))"
  shows "opening_event e"
proof -
  have "snd (startup (stages env) []) = None" using assms(1) by (intro startup_failed) (auto simp: starts_def)
  with assms(2) show ?thesis using startup_opening [of e env "[]"] by (auto simp: proxy_main_def split: prod.splits)
qed

text \<open>An element of a middle part comes after all of the first part.\<close>

lemma prefix_before:
  assumes "xs @ ys = pre @ e # post" "e \<notin> set xs"
  obtains zs where "pre = xs @ zs" "ys = zs @ e # post"
  using assms by (auto simp: append_eq_append_conv2 Cons_eq_append_conv append_eq_Cons_conv)

lemma suffix_after: "xs @ ys = pre @ e # post \<Longrightarrow> e \<notin> set ys \<Longrightarrow> set pre \<subseteq> set xs"
  by (auto simp: append_eq_append_conv2)

lemma not_opening_released: "\<not> opening_event (ConsumerEvent c)" "\<not> opening_event (Released r)"
  by (simp_all add: opening_event_def)

lemma released_early:
  assumes "starts env" "fst (proxy_main env) = pre @ ConsumerEvent c # post" "Released r \<in> set pre"
  shows "r = StopSignals"
proof -
  obtain evs v where m: "fst (proxy_main env) = evs @ fst (serve env) @
      (if snd (serve env) then map Released [ConsumerClose, AcpClose, StopSignals, TelemetryShutdown] else [])"
    "\<forall>e\<in>set evs. opening_event e" using proxy_main_started [OF assms(1)] by metis
  let ?ds = "if snd (serve env) then map Released [ConsumerClose, AcpClose, StopSignals, TelemetryShutdown] else []"
  have "(evs @ fst (serve env)) @ ?ds = pre @ ConsumerEvent c # post" using m(1) assms(2) by simp
  moreover have "ConsumerEvent c \<notin> set ?ds" by auto
  ultimately have "set pre \<subseteq> set (evs @ fst (serve env))" by (rule suffix_after)
  with assms(3) m(2) serve_released show ?thesis using not_opening_released by fastforce
qed

lemma proxy_main_up:
  assumes "starts env"
  shows "consumer_events (fst (proxy_main env)) = fst (Run (me_otel env) (me_ctx env) (me_handler env) (me_turns env))"
    and "fst (proxy_main env) = pre @ ConsumerEvent c # post \<Longrightarrow>
       (\<exists>v. AcpInitialized v \<in> set pre) \<and> PublisherReady \<in> set pre"
    and "snd (serve env) \<Longrightarrow> \<exists>pre. fst (proxy_main env) = pre @ ConsumerReturned #
       map Released [ConsumerClose, AcpClose, StopSignals, TelemetryShutdown] \<and>
       SignalReceived \<in> set pre \<and> ShutdownReturned (me_shutdown env) \<in> set pre"
proof -
  obtain evs v where m: "fst (proxy_main env) = evs @ fst (serve env) @
      (if snd (serve env) then map Released [ConsumerClose, AcpClose, StopSignals, TelemetryShutdown] else [])"
    "AcpInitialized v \<in> set evs" "PublisherReady \<in> set evs" "\<forall>e\<in>set evs. opening_event e"
    using proxy_main_started [OF assms] .
  show "consumer_events (fst (proxy_main env)) = fst (Run (me_otel env) (me_ctx env) (me_handler env) (me_turns env))"
    using consumer_events_none [OF m(4)] serve_events [of env] by (simp add: m(1))
  show "(\<exists>v. AcpInitialized v \<in> set pre) \<and> PublisherReady \<in> set pre"
    if "fst (proxy_main env) = pre @ ConsumerEvent c # post"
    using prefix_before [OF that [unfolded m(1)]] m(2-4) not_opening_released(1) by (metis UnI1 set_append)
  show "\<exists>pre. fst (proxy_main env) = pre @ ConsumerReturned #
     map Released [ConsumerClose, AcpClose, StopSignals, TelemetryShutdown] \<and>
     SignalReceived \<in> set pre \<and> ShutdownReturned (me_shutdown env) \<in> set pre" if "snd (serve env)"
  proof -
    obtain es where "fst (serve env) = es @ [ConsumerReturned]" "SignalReceived \<in> set es"
      "ShutdownReturned (me_shutdown env) \<in> set es" using serve_ends [OF \<open>snd (serve env)\<close>] by blast
    then show ?thesis by (intro exI [of _ "evs @ es"]) (simp add: m(1) \<open>snd (serve env)\<close>)
  qed
qed

section \<open>Properties\<close>


definition example_main :: "unit main_env" where
  "example_main = \<lparr>me_getenv = (\<lambda>_. []), me_args = (\<lambda>_. None), me_ParseDuration = (\<lambda>_. Inr 30000000000),
     me_telemetry = \<lparr>te_Resource = (\<lambda>_ _. None), te_Otlp = (\<lambda>_. None), te_Stdout = None\<rparr>,
     me_Dial = (\<lambda>_. None),
     me_codec = \<lparr>k_Permission = (\<lambda>_. None), k_Update = (\<lambda>_. None), k_PromptResult = (\<lambda>_. None),
       k_InitResult = (\<lambda>_. Some 1), k_NewResult = (\<lambda>_. None)\<rparr>,
     me_call = (\<lambda>_ _. Inr closed_response),
     me_nats = \<lparr>n_Connect = (\<lambda>_. None), n_JetStream = None, n_Stream = (\<lambda>_. None), n_CreateStream = (\<lambda>_ _. None),
       n_CreateConsumer = (\<lambda>_ _. None)\<rparr>,
     me_publisher = None, me_otel = example_otel, me_ctx = (), me_handler = (\<lambda>_ _. None),
     me_turns = [\<lparr>u_DoneBefore = False, u_Fetch = FetchedBatch [example_delivery 1] None, u_DoneAfter = False\<rparr>,
       \<lparr>u_DoneBefore = True, u_Fetch = FetchFailed [], u_DoneAfter = True\<rparr>],
     me_shutdown = None, me_split = (1, 1)\<rparr>"


text \<open>C27: Once a shutdown of the proxy has begun, in any interleaving with the handler's calls, a message
  that still reaches the handler is refused without a trace: nothing is published and no state
  changes. The queue gets it back for another delivery; on its third delivery it is terminated,
  though this delivery made no attempt and reported no failure.\<close>

theorem shutdown_refuses:
  assumes "sm_steps (main_manager fl grace) s" "s_phase s \<noteq> NotCalled" "d_NumDelivered d = Some n"
  shows "(\<forall>env body. Handle env body (s_handler s) = ([], s_handler s, Some ShuttingDown)) \<and>
    settlements (processMessage tel ctx d (\<lambda>_ body. map_option Error (snd (snd (Handle env body (s_handler s)))))) =
      [if n < 3 then MsgNak else MsgTerm]"
proof -
  have "\<not> h_shuttingDown (main_handler fl)" by (simp add: main_handler_def NewHandler_def SetInitialized_def)
  then have "sm_inv s" using sm_inv_steps [OF assms(1)] sm_inv_init by (simp add: main_manager_def)
  then have "enter_handle (s_handler s) = None" using assms(2) by (simp add: sm_inv_def enter_handle_def)
  then have "Handle env body (s_handler s) = ([], s_handler s, Some ShuttingDown)" for env body by (simp add: Handle_def)
  then show ?thesis by (simp add: processMessage_settles [OF assms(3)])
qed

theorem shutdown_refuses_witness:
  "settlements (processMessage example_otel () (example_delivery 3) (\<lambda>_ body. map_option Error (snd (snd
     (Handle (example_proxy (Inr ''ok'')) body (s_handler (begin_shutdown (main_manager (flags_of example_main) 0)))))))) = [MsgTerm]"
proof -
  have "sm_steps (main_manager (flags_of example_main) 0) (begin_shutdown (main_manager (flags_of example_main) 0))"
    by (rule sm_steps.Step [OF sm_steps.Refl Begin]) (simp add: main_manager_def NewShutdownManager_def)
  moreover have "s_phase (begin_shutdown (main_manager (flags_of example_main) 0)) \<noteq> NotCalled"
    by (simp add: begin_shutdown_def)
  moreover have "d_NumDelivered (example_delivery 3) = Some 3" by (simp add: example_delivery_def)
  ultimately have "settlements (processMessage example_otel () (example_delivery 3) (\<lambda>_ body. map_option Error (snd (snd
      (Handle (example_proxy (Inr ''ok'')) body (s_handler (begin_shutdown (main_manager (flags_of example_main) 0)))))))) =
      [if (3::nat) < 3 then MsgNak else MsgTerm]"
    by (rule shutdown_refuses [THEN conjunct2])
  then show ?thesis by (simp only: less_irrefl if_False)
qed

end
