(* ===== verification/OperatorMain.thy ===== *)
theory OperatorMain
  imports ModelCtl
begin

text \<open>
  The operator command (\<open>src/operator/cmd/main.go\<close>): its flags, the options of its servers, the scheme,
  the controllers it sets up with what they watch, and the start of the manager; with the types
  and the stub controllers of AgentCard, MCPServer and TaskPipeline. The manager and its servers
  are a library: their answers are an environment, and the events list what is asked of them.
\<close>

section \<open>Further resource types\<close>

record AgentCardSpec =
  acs_AgentName :: string
  acs_Description :: string
  acs_Version :: string
  acs_Skills :: "SkillSpec list"
  acs_DefaultInputModes :: "string list"
  acs_DefaultOutputModes :: "string list"
  acs_Capabilities :: "CapabilitiesSpec option"
  acs_URL :: string

record AgentCardStatus =
  acst_Conditions :: "Condition list"
  acst_ObservedGeneration :: int64
  acst_RegisteredRuntimes :: "string list"

record AgentCard =
  acr_Meta :: ObjectMeta
  acr_Spec :: AgentCardSpec
  acr_Status :: AgentCardStatus

type_synonym MCPProtocol = string

definition MCPProtocolSSE :: MCPProtocol where "MCPProtocolSSE = ''SSE''"
definition MCPProtocolStreamableHTTP :: MCPProtocol where "MCPProtocolStreamableHTTP = ''StreamableHTTP''"
definition MCPProtocolStdio :: MCPProtocol where "MCPProtocolStdio = ''Stdio''"

record MCPServerSpec =
  mcs_Protocol :: MCPProtocol
  mcs_URL :: string
  mcs_Command :: "string list"
  mcs_Headers :: "ValueRef list"
  mcs_Tools :: "string list"
  mcs_Description :: string
  mcs_AllowedNamespaces :: "AllowedNamespaces option"

record MCPServerStatus =
  mcst_Conditions :: "Condition list"
  mcst_ObservedGeneration :: int64
  mcst_AvailableTools :: "string list"

record MCPServer =
  mcr_Meta :: ObjectMeta
  mcr_Spec :: MCPServerSpec
  mcr_Status :: MCPServerStatus

record PipelineTask =
  pt_Name :: string
  pt_AgentRuntimeRef :: TypedReference
  pt_SkillID :: string
  pt_Prompt :: string
  pt_Timeout :: string

record PipelineStage =
  ps_Name :: string
  ps_Tasks :: "PipelineTask list"
  ps_DependsOn :: "string list"

record TaskPipelineSpec =
  tp_Description :: string
  tp_Stages :: "PipelineStage list"
  tp_ResultStrategy :: string
  tp_Timeout :: string

record TaskPipelineStatus =
  tps_Conditions :: "Condition list"
  tps_ObservedGeneration :: int64
  tps_StageCount :: int32
  tps_TaskCount :: int32

record TaskPipeline =
  tpr_Meta :: ObjectMeta
  tpr_Spec :: TaskPipelineSpec
  tpr_Status :: TaskPipelineStatus

section \<open>The scheme\<close>

text \<open>Kinds by their names. Every types file registers its resource and the list of it.\<close>

datatype gvk = GVK (gvk_group: string) (gvk_version: string) (gvk_kind: string)

definition SchemeGroupVersion :: "string \<times> string" where
  "SchemeGroupVersion = (''daedalus.dev'', ''v1alpha1'')"

definition Register :: "string list \<Rightarrow> gvk list \<Rightarrow> gvk list" where
  "Register kinds scheme = scheme @ map (GVK (fst SchemeGroupVersion) (snd SchemeGroupVersion)) kinds"

definition init_AgentCard :: "gvk list \<Rightarrow> gvk list" where
  "init_AgentCard = Register [''AgentCard'', ''AgentCardList'']"

definition init_AgentRuntime :: "gvk list \<Rightarrow> gvk list" where
  "init_AgentRuntime = Register [''AgentRuntime'', ''AgentRuntimeList'']"

definition init_MCPServer :: "gvk list \<Rightarrow> gvk list" where
  "init_MCPServer = Register [''MCPServer'', ''MCPServerList'']"

definition init_ModelConfig :: "gvk list \<Rightarrow> gvk list" where
  "init_ModelConfig = Register [''ModelConfig'', ''ModelConfigList'']"

definition init_TaskPipeline :: "gvk list \<Rightarrow> gvk list" where
  "init_TaskPipeline = Register [''TaskPipeline'', ''TaskPipelineList'']"

text \<open>The built-in kinds come from the client library, then those of this group.\<close>

definition init_scheme :: "gvk list \<Rightarrow> gvk list" where
  "init_scheme builtin = builtin @
     (init_TaskPipeline \<circ> init_ModelConfig \<circ> init_MCPServer \<circ> init_AgentRuntime \<circ> init_AgentCard) []"

section \<open>Controllers and what they watch\<close>

record watch_spec =
  ws_For :: string
  ws_Owns :: "string list"
  ws_Watches :: "string list"
  ws_Named :: string

text \<open>\<open>keda\<close> tells whether the cluster knows the kind ScaledJob when the controller is set up.\<close>

definition AgentRuntime_SetupWithManager :: "bool \<Rightarrow> watch_spec" where
  "AgentRuntime_SetupWithManager keda =
     \<lparr>ws_For = ''AgentRuntime'',
      ws_Owns = [''ConfigMap'', ''Service'', ''Deployment''] @ (if keda then [''ScaledJob''] else []),
      ws_Watches = [], ws_Named = ''agentruntime''\<rparr>"

definition ModelConfig_SetupWithManager :: watch_spec where
  "ModelConfig_SetupWithManager =
     \<lparr>ws_For = ''ModelConfig'', ws_Owns = [], ws_Watches = [''Secret''], ws_Named = ''modelconfig''\<rparr>"

definition MCPServer_SetupWithManager :: watch_spec where
  "MCPServer_SetupWithManager = \<lparr>ws_For = ''MCPServer'', ws_Owns = [], ws_Watches = [], ws_Named = ''mcpserver''\<rparr>"

definition TaskPipeline_SetupWithManager :: watch_spec where
  "TaskPipeline_SetupWithManager = \<lparr>ws_For = ''TaskPipeline'', ws_Owns = [], ws_Watches = [], ws_Named = ''taskpipeline''\<rparr>"

definition AgentCard_SetupWithManager :: watch_spec where
  "AgentCard_SetupWithManager = \<lparr>ws_For = ''AgentCard'', ws_Owns = [], ws_Watches = [], ws_Named = ''agentcard''\<rparr>"

text \<open>The stubs: a pass succeeds and does nothing.\<close>

definition AgentCard_Reconcile :: "string \<times> string \<Rightarrow> 's \<Rightarrow> (string + unit) \<times> 's" where
  "AgentCard_Reconcile req s = (Inr (), s)"

definition MCPServer_Reconcile :: "string \<times> string \<Rightarrow> 's \<Rightarrow> (string + unit) \<times> 's" where
  "MCPServer_Reconcile req s = (Inr (), s)"

definition TaskPipeline_Reconcile :: "string \<times> string \<Rightarrow> 's \<Rightarrow> (string + unit) \<times> 's" where
  "TaskPipeline_Reconcile req s = (Inr (), s)"

section \<open>Flags and server options\<close>

record operator_flags =
  of_metricsAddr :: string
  of_probeAddr :: string
  of_enableLeaderElection :: bool
  of_secureMetrics :: bool
  of_webhookCertPath :: string
  of_webhookCertName :: string
  of_webhookCertKey :: string
  of_metricsCertPath :: string
  of_metricsCertName :: string
  of_metricsCertKey :: string
  of_enableHTTP2 :: bool

text \<open>The flags set on the command line, strings and switches, and the declared defaults of the others.\<close>

definition flag_value :: "(string \<Rightarrow> 'a option) \<Rightarrow> string \<Rightarrow> 'a \<Rightarrow> 'a" where
  "flag_value args name value = (case args name of Some v \<Rightarrow> v | None \<Rightarrow> value)"

definition parse_flags :: "(string \<Rightarrow> string option) \<Rightarrow> (string \<Rightarrow> bool option) \<Rightarrow> operator_flags" where
  "parse_flags strs switches =
     \<lparr>of_metricsAddr = flag_value strs ''metrics-bind-address'' ''0'',
      of_probeAddr = flag_value strs ''health-probe-bind-address'' '':8081'',
      of_enableLeaderElection = flag_value switches ''leader-elect'' False,
      of_secureMetrics = flag_value switches ''metrics-secure'' True,
      of_webhookCertPath = flag_value strs ''webhook-cert-path'' [],
      of_webhookCertName = flag_value strs ''webhook-cert-name'' ''tls.crt'',
      of_webhookCertKey = flag_value strs ''webhook-cert-key'' ''tls.key'',
      of_metricsCertPath = flag_value strs ''metrics-cert-path'' [],
      of_metricsCertName = flag_value strs ''metrics-cert-name'' ''tls.crt'',
      of_metricsCertKey = flag_value strs ''metrics-cert-key'' ''tls.key'',
      of_enableHTTP2 = flag_value switches ''enable-http2'' False\<rparr>"

record tls_Config =
  tls_NextProtos :: "string list"

definition disableHTTP2 :: "tls_Config \<Rightarrow> tls_Config" where
  "disableHTTP2 c = c\<lparr>tls_NextProtos := [''http/1.1'']\<rparr>"

definition tlsOpts :: "operator_flags \<Rightarrow> (tls_Config \<Rightarrow> tls_Config) list" where
  "tlsOpts fl = (if \<not> of_enableHTTP2 fl then [] @ [disableHTTP2] else [])"

record webhook_Options =
  wo_TLSOpts :: "(tls_Config \<Rightarrow> tls_Config) list"
  wo_CertDir :: string
  wo_CertName :: string
  wo_KeyName :: string

definition webhookServerOptions :: "operator_flags \<Rightarrow> webhook_Options" where
  "webhookServerOptions fl =
     (let opts = \<lparr>wo_TLSOpts = tlsOpts fl, wo_CertDir = [], wo_CertName = [], wo_KeyName = []\<rparr>
      in if 0 < length (of_webhookCertPath fl)
         then opts\<lparr>wo_CertDir := of_webhookCertPath fl, wo_CertName := of_webhookCertName fl, wo_KeyName := of_webhookCertKey fl\<rparr>
         else opts)"

record metrics_Options =
  mo_BindAddress :: string
  mo_SecureServing :: bool
  mo_TLSOpts :: "(tls_Config \<Rightarrow> tls_Config) list"
  mo_AuthFilter :: bool
  mo_CertDir :: string
  mo_CertName :: string
  mo_KeyName :: string

definition metricsServerOptions :: "operator_flags \<Rightarrow> metrics_Options" where
  "metricsServerOptions fl =
     (let opts = \<lparr>mo_BindAddress = of_metricsAddr fl, mo_SecureServing = of_secureMetrics fl, mo_TLSOpts = tlsOpts fl,
                  mo_AuthFilter = False, mo_CertDir = [], mo_CertName = [], mo_KeyName = []\<rparr>;
          opts = (if of_secureMetrics fl then opts\<lparr>mo_AuthFilter := True\<rparr> else opts)
      in if 0 < length (of_metricsCertPath fl)
         then opts\<lparr>mo_CertDir := of_metricsCertPath fl, mo_CertName := of_metricsCertName fl, mo_KeyName := of_metricsCertKey fl\<rparr>
         else opts)"

record manager_Options =
  mg_Scheme :: "gvk list"
  mg_Metrics :: metrics_Options
  mg_Webhook :: webhook_Options
  mg_HealthProbeBindAddress :: string
  mg_LeaderElection :: bool
  mg_LeaderElectionID :: string

definition manager_options :: "gvk list \<Rightarrow> operator_flags \<Rightarrow> manager_Options" where
  "manager_options scheme fl = \<lparr>mg_Scheme = scheme, mg_Metrics = metricsServerOptions fl,
     mg_Webhook = webhookServerOptions fl, mg_HealthProbeBindAddress = of_probeAddr fl,
     mg_LeaderElection = of_enableLeaderElection fl, mg_LeaderElectionID = ''3acd3b34.daedalus.dev''\<rparr>"

section \<open>The command\<close>

datatype operator_event =
    ManagerCreated manager_Options
  | ControllerReady watch_spec
  | CheckAdded string
  | ManagerStarted

record operator_env =
  oe_strings :: "string \<Rightarrow> string option"
  oe_switches :: "string \<Rightarrow> bool option"
  oe_builtin :: "gvk list"
  oe_NewManager :: "manager_Options \<Rightarrow> string option"
  oe_keda :: bool
  oe_Complete :: "watch_spec \<Rightarrow> string option"
  oe_AddCheck :: "string \<Rightarrow> string option"
  oe_Start :: "string option"

text \<open>Calls in order, up to the first that fails: the events of those that succeeded, and whether all did.\<close>

fun in_order :: "('a \<Rightarrow> string option) \<Rightarrow> ('a \<Rightarrow> operator_event) \<Rightarrow> 'a list \<Rightarrow> operator_event list \<times> bool" where
  "in_order call ev [] = ([], True)"
| "in_order call ev (x # xs) =
     (case call x of
        Some _ \<Rightarrow> ([], False)
      | None \<Rightarrow> (case in_order call ev xs of (evs, ok) \<Rightarrow> (ev x # evs, ok)))"

definition controllers :: "bool \<Rightarrow> watch_spec list" where
  "controllers keda = [AgentRuntime_SetupWithManager keda, ModelConfig_SetupWithManager, MCPServer_SetupWithManager,
     TaskPipeline_SetupWithManager, AgentCard_SetupWithManager]"

text \<open>The events and the exit status. The manager runs until it is told to stop or fails.\<close>

definition operator_main :: "operator_env \<Rightarrow> operator_event list \<times> nat" where
  "operator_main env =
     (let fl = parse_flags (oe_strings env) (oe_switches env);
          opts = manager_options (init_scheme (oe_builtin env)) fl
      in case oe_NewManager env opts of
           Some _ \<Rightarrow> ([], 1)
         | None \<Rightarrow>
             (case in_order (oe_Complete env) ControllerReady (controllers (oe_keda env)) of
                (evs, False) \<Rightarrow> (ManagerCreated opts # evs, 1)
              | (evs, True) \<Rightarrow>
                  (case in_order (oe_AddCheck env) CheckAdded [''healthz'', ''readyz''] of
                     (evs', False) \<Rightarrow> (ManagerCreated opts # evs @ evs', 1)
                   | (evs', True) \<Rightarrow>
                       (ManagerCreated opts # evs @ evs' @ [ManagerStarted],
                        case oe_Start env of Some _ \<Rightarrow> 1 | None \<Rightarrow> 0))))"

section \<open>Lemmas\<close>

lemma in_order_conv:
  "in_order call ev xs = (map ev (takeWhile (\<lambda>x. call x = None) xs), \<forall>x\<in>set xs. call x = None)"
  by (induction xs) (auto split: option.splits)

lemma all_taken: "\<forall>x\<in>set xs. call x = None \<Longrightarrow> takeWhile (\<lambda>x. call x = None) xs = xs"
  by (simp add: takeWhile_eq_all_conv)

text \<open>The servers: HTTP/2 only if asked for, and metrics served securely only behind authentication.\<close>

lemma http2_off:
  assumes "\<not> of_enableHTTP2 fl"
  shows "tls_NextProtos (fold (\<lambda>f. f) (wo_TLSOpts (webhookServerOptions fl)) c) = [''http/1.1'']"
    and "tls_NextProtos (fold (\<lambda>f. f) (mo_TLSOpts (metricsServerOptions fl)) c) = [''http/1.1'']"
  using assms by (simp_all add: webhookServerOptions_def metricsServerOptions_def tlsOpts_def disableHTTP2_def Let_def)

lemma metrics_guarded:
  "mo_AuthFilter (metricsServerOptions fl) = of_secureMetrics fl" "mo_SecureServing (metricsServerOptions fl) = of_secureMetrics fl"
  "mo_BindAddress (metricsServerOptions fl) = of_metricsAddr fl"
  by (simp_all add: metricsServerOptions_def Let_def)

definition operator_ready :: "operator_env \<Rightarrow> manager_Options \<Rightarrow> bool" where
  "operator_ready env opts \<longleftrightarrow> oe_NewManager env opts = None \<and>
     (\<forall>w\<in>set (controllers (oe_keda env)). oe_Complete env w = None) \<and>
     oe_AddCheck env ''healthz'' = None \<and> oe_AddCheck env ''readyz'' = None"

abbreviation options_of :: "operator_env \<Rightarrow> manager_Options" where
  "options_of env \<equiv> manager_options (init_scheme (oe_builtin env)) (parse_flags (oe_strings env) (oe_switches env))"

lemma operator_main_ready:
  "operator_ready env (options_of env) \<Longrightarrow>
   operator_main env = (ManagerCreated (options_of env) # map ControllerReady (controllers (oe_keda env)) @
     [CheckAdded ''healthz'', CheckAdded ''readyz'', ManagerStarted], case oe_Start env of Some _ \<Rightarrow> 1 | None \<Rightarrow> 0)"
  by (simp add: operator_main_def operator_ready_def Let_def in_order_conv all_taken)

lemma operator_main_unready:
  assumes "\<not> operator_ready env (options_of env)"
  shows "ManagerStarted \<notin> set (fst (operator_main env)) \<and> snd (operator_main env) = 1"
proof -
  obtain e1 b1 where s1: "in_order (oe_Complete env) ControllerReady (controllers (oe_keda env)) = (e1, b1)" by fastforce
  obtain e2 b2 where s2: "in_order (oe_AddCheck env) CheckAdded [''healthz'', ''readyz''] = (e2, b2)" by fastforce
  have b: "b1 \<longleftrightarrow> (\<forall>w\<in>set (controllers (oe_keda env)). oe_Complete env w = None)"
    "b2 \<longleftrightarrow> oe_AddCheck env ''healthz'' = None \<and> oe_AddCheck env ''readyz'' = None"
    using s1 s2 [unfolded in_order_conv] by (auto simp: in_order_conv)
  have "ManagerStarted \<notin> set e1" "ManagerStarted \<notin> set e2"
    using s1 s2 [unfolded in_order_conv] by (auto simp: in_order_conv)
  then show ?thesis
    using assms b unfolding operator_main_def Let_def s1 s2 by (auto simp: operator_ready_def split: option.splits bool.splits)
qed

text \<open>An object under a key has the kind of the key.\<close>

lemma kube_get_kind:
  assumes "kube_laws K"
  shows "kube_Get K s (KRuntime, req) = Inr x \<Longrightarrow> \<exists>rt. x = RuntimeObj rt"
    and "kube_Get K s (KModelConfig, req) = Inr x \<Longrightarrow> \<exists>mc. x = ModelConfigObj mc"
    and "kube_Get K s k = Inr (RuntimeObj rt) \<Longrightarrow> fst k = KRuntime"
  using kube_get_key [OF assms] by (fastforce simp: key_of_def elim: kind_of.elims)+

fun kind_name :: "kind \<Rightarrow> string" where
  "kind_name KConfigMap = ''ConfigMap''"
| "kind_name KService = ''Service''"
| "kind_name KDeployment = ''Deployment''"
| "kind_name KScaledJob = ''ScaledJob''"
| "kind_name KRuntime = ''AgentRuntime''"
| "kind_name KModelConfig = ''ModelConfig''"
| "kind_name KSecret = ''Secret''"

lemma runtime_pass_changes:
  assumes "kube_laws K" "RuntimeCtl.Reconcile K req s = (r, s')" "kube_Get K s' k \<noteq> kube_Get K s k"
  shows "fst k \<in> {KRuntime, KConfigMap, KService, KDeployment, KScaledJob}"
proof (cases "kube_Get K s (KRuntime, req)")
  case (Inl e)
  with assms(2) have "s' = s" by (auto simp: RuntimeCtl.Reconcile_def split: get_error.splits)
  with assms(3) show ?thesis by simp
next
  case (Inr x)
  with kube_get_kind(1) [OF assms(1)] obtain rt where "kube_Get K s (KRuntime, req) = Inr (RuntimeObj rt)" by blast
  from Reconcile_frame [OF assms(1) this assms(2)] assms(3) have "k = (KRuntime, req) \<or> k \<in> own_keys rt" by blast
  then show ?thesis by (auto simp: own_keys_def)
qed

lemma model_pass_changes:
  assumes "kube_laws K" "ModelCtl.Reconcile K sha req s = (r, s')" "kube_Get K s' k \<noteq> kube_Get K s k"
  shows "fst k \<in> {KModelConfig, KRuntime}"
proof (cases "kube_Get K s (KModelConfig, req)")
  case (Inl e)
  with assms(2) have "s' = s" by (auto simp: ModelCtl.Reconcile_def split: get_error.splits)
  with assms(3) show ?thesis by simp
next
  case (Inr x)
  with kube_get_kind(2) [OF assms(1)] obtain mc where "kube_Get K s (KModelConfig, req) = Inr (ModelConfigObj mc)" by blast
  from Rotation_frame [OF assms(1) this assms(2), of k] assms(3)
  have "k = (KModelConfig, req) \<or> (\<exists>rt. kube_Get K s k = Inr (RuntimeObj rt))" by blast
  then show ?thesis using kube_get_kind(3) [OF assms(1), of s k] by auto
qed

lemma resolve_depends:
  assumes "\<And>k. fst k = KSecret \<Longrightarrow> kube_Get K s k = kube_Get K t k"
  shows "resolveSecretHash K sha mc s = resolveSecretHash K sha mc t"
  using assms by (simp add: resolveSecretHash_def split: option.split)

section \<open>Properties\<close>


definition example_operator :: operator_env where
  "example_operator = \<lparr>oe_strings = (\<lambda>_. None), oe_switches = (\<lambda>_. None), oe_builtin = [], oe_NewManager = (\<lambda>_. None),
     oe_keda = True, oe_Complete = (\<lambda>_. None), oe_AddCheck = (\<lambda>_. None), oe_Start = None\<rparr>"


text \<open>C33: Whatever the controllers change wakes a controller again. Every object a pass of the
  AgentRuntime controller changes is of the kind it is for or of a kind it owns, except for
  ScaledJobs if the cluster did not know that kind when the controller was set up. Every object a
  pass of the ModelConfig controller changes is of the kind one of the two is for. And the hash a
  ModelConfig resolves to depends on no object outside the kinds that controller watches.\<close>

theorem operator_watches:
  assumes "kube_laws K"
  shows "(RuntimeCtl.Reconcile K req s = (r, s') \<longrightarrow> kube_Get K s' k \<noteq> kube_Get K s k \<longrightarrow>
      kind_name (fst k) \<in> set (ws_For (AgentRuntime_SetupWithManager keda) # ws_Owns (AgentRuntime_SetupWithManager keda)) \<or>
      \<not> keda \<and> fst k = KScaledJob) \<and>
    (ModelCtl.Reconcile K sha req s = (q, s') \<longrightarrow> kube_Get K s' k \<noteq> kube_Get K s k \<longrightarrow>
      kind_name (fst k) \<in> {ws_For ModelConfig_SetupWithManager, ws_For (AgentRuntime_SetupWithManager keda)}) \<and>
    ((\<forall>k. kind_name (fst k) \<in> set (ws_Watches ModelConfig_SetupWithManager) \<longrightarrow> kube_Get K s k = kube_Get K t k) \<longrightarrow>
      resolveSecretHash K sha mc s = resolveSecretHash K sha mc t)"
  using runtime_pass_changes [OF assms, of req s r s' k] model_pass_changes [OF assms, of sha req s q s' k]
    resolve_depends [of K s t sha mc]
  by (auto simp: AgentRuntime_SetupWithManager_def ModelConfig_SetupWithManager_def)

theorem operator_watches_witness:
  "kube_Get example_kube (snd (ModelCtl.Reconcile example_kube (\<lambda>x. x) (''agents'', ''gpt'') (example_models ''t'')))
     (KRuntime, ''agents'', ''coder'') \<noteq> kube_Get example_kube (example_models ''t'') (KRuntime, ''agents'', ''coder'') \<and>
   kind_name KRuntime \<in> {ws_For ModelConfig_SetupWithManager, ws_For (AgentRuntime_SetupWithManager True)}"
proof -
  let ?k = "(KRuntime, ''agents'', ''coder'')"
  let ?s = "snd (ModelCtl.Reconcile example_kube (\<lambda>x. x) (''agents'', ''gpt'') (example_models ''t''))"
  have "(case kube_Get example_kube ?s ?k of Inr (RuntimeObj rt) \<Rightarrow> model_hash rt | _ \<Rightarrow> []) \<noteq>
      (case kube_Get example_kube (example_models ''t'') ?k of Inr (RuntimeObj rt) \<Rightarrow> model_hash rt | _ \<Rightarrow> [])" by code_simp
  then have "kube_Get example_kube ?s ?k \<noteq> kube_Get example_kube (example_models ''t'') ?k" by metis
  then show ?thesis
    using operator_watches [OF example_kube_laws, where k = ?k and keda = True, THEN conjunct2, THEN conjunct1, THEN mp,
        OF surjective_pairing] by auto
qed

end
