(* ===== verification/DeepCopy.thy ===== *)
theory DeepCopy
  imports Prelude
begin

text \<open>
  The deep copies of the API types (\<open>src/operator/api/v1alpha1/zz_generated.deepcopy.go\<close>) on an
  explicit memory. A value is a primitive, a struct of its fields, or a reference to a block: the
  target of a pointer, the elements of a slice, or the entries of a map (each a struct of key and
  value). Memory is a list of blocks, and allocation appends one. A copier is what \<open>DeepCopyInto\<close> does
  with one value. \<open>gtype\<close> describes where references are in a Go type, and every struct of the API has
  such a description, field by field in the order of its declaration; so a field that a copier
  forgets to copy is one that its type says is shared. The copiers of \<open>metav1\<close> are parameters.
\<close>

section \<open>Memory\<close>

datatype gv = Prim string | Rec "gv list" | Ref "nat option"

type_synonym heap = "gv list list"

type_synonym copier = "gv \<Rightarrow> heap \<Rightarrow> gv \<times> heap"

datatype gtype = TPrim | TRec "gtype list" | TRef gtype

fun wt :: "gtype \<Rightarrow> heap \<Rightarrow> gv \<Rightarrow> bool" and wts :: "gtype list \<Rightarrow> heap \<Rightarrow> gv list \<Rightarrow> bool" where
  "wt TPrim h v = (case v of Prim _ \<Rightarrow> True | _ \<Rightarrow> False)"
| "wt (TRec ts) h v = (case v of Rec vs \<Rightarrow> wts ts h vs | _ \<Rightarrow> False)"
| "wt (TRef t) h v = (case v of Ref None \<Rightarrow> True | Ref (Some a) \<Rightarrow> a < length h \<and> (\<forall>x\<in>set (h ! a). wt t h x) | _ \<Rightarrow> False)"
| "wts [] h vs = (vs = [])"
| "wts (t # ts) h vs = (case vs of v # vs' \<Rightarrow> wt t h v \<and> wts ts h vs' | [] \<Rightarrow> False)"

text \<open>The blocks a value reaches, and equality of what two values hold in their memories.\<close>

fun reach :: "gtype \<Rightarrow> heap \<Rightarrow> gv \<Rightarrow> nat set" and reaches :: "gtype list \<Rightarrow> heap \<Rightarrow> gv list \<Rightarrow> nat set" where
  "reach TPrim h v = {}"
| "reach (TRec ts) h v = (case v of Rec vs \<Rightarrow> reaches ts h vs | _ \<Rightarrow> {})"
| "reach (TRef t) h v = (case v of Ref (Some a) \<Rightarrow> insert a (\<Union>x\<in>set (h ! a). reach t h x) | _ \<Rightarrow> {})"
| "reaches [] h vs = {}"
| "reaches (t # ts) h vs = (case vs of v # vs' \<Rightarrow> reach t h v \<union> reaches ts h vs' | [] \<Rightarrow> {})"

fun alike :: "gtype \<Rightarrow> heap \<Rightarrow> gv \<Rightarrow> heap \<Rightarrow> gv \<Rightarrow> bool"
  and alikes :: "gtype list \<Rightarrow> heap \<Rightarrow> gv list \<Rightarrow> heap \<Rightarrow> gv list \<Rightarrow> bool" where
  "alike TPrim h v h' v' = (v = v')"
| "alike (TRec ts) h v h' v' = (case (v, v') of (Rec vs, Rec vs') \<Rightarrow> alikes ts h vs h' vs' | _ \<Rightarrow> False)"
| "alike (TRef t) h v h' v' = (case (v, v') of
     (Ref None, Ref None) \<Rightarrow> True
   | (Ref (Some a), Ref (Some a')) \<Rightarrow> list_all2 (\<lambda>x x'. alike t h x h' x') (h ! a) (h' ! a')
   | _ \<Rightarrow> False)"
| "alikes [] h vs h' vs' = (vs = [] \<and> vs' = [])"
| "alikes (t # ts) h vs h' vs' = (case (vs, vs') of
     (v # us, v' # us') \<Rightarrow> alike t h v h' v' \<and> alikes ts h us h' us' | _ \<Rightarrow> False)"

section \<open>Copying\<close>

text \<open>The assignment of a value, as it is.\<close>

definition keep :: copier where
  "keep v h = (v, h)"

fun copy_all :: "copier list \<Rightarrow> gv list \<Rightarrow> heap \<Rightarrow> gv list \<times> heap" where
  "copy_all (c # cs) (v # vs) h = (case c v h of (v', h1) \<Rightarrow> (case copy_all cs vs h1 of (vs', h2) \<Rightarrow> (v' # vs', h2)))"
| "copy_all _ _ h = ([], h)"

text \<open>\<open>*out = *in\<close>, and then field by field.\<close>

definition each_field :: "copier list \<Rightarrow> copier" where
  "each_field cs v h = (case v of Rec vs \<Rightarrow> (case copy_all cs vs h of (vs', h') \<Rightarrow> (Rec vs', h')) | _ \<Rightarrow> (v, h))"

text \<open>A field that is not nil: a new block, filled by copying every element of the old one.\<close>

definition block :: "copier \<Rightarrow> copier" where
  "block c v h = (case v of
     Ref (Some a) \<Rightarrow>
       (case copy_all (replicate (length (h ! a)) c) (h ! a) h of
          (vs', h') \<Rightarrow> (Ref (Some (length h')), h' @ [vs']))
   | _ \<Rightarrow> (v, h))"

definition DeepCopy :: "copier \<Rightarrow> copier" where
  "DeepCopy DeepCopyInto p h = block DeepCopyInto p h"

definition DeepCopyObject :: "copier \<Rightarrow> copier" where
  "DeepCopyObject DeepCopyInto p h = (case DeepCopy DeepCopyInto p h of (c, h') \<Rightarrow> if c \<noteq> Ref None then (c, h') else (Ref None, h'))"

section \<open>Lemmas\<close>

subsection \<open>Memory that agrees where a value looks\<close>

text \<open>A value only depends on the blocks it reaches.\<close>

lemma agree:
  "wt t h v \<Longrightarrow> length h \<le> length h' \<Longrightarrow> (\<And>a. a \<in> reach t h v \<Longrightarrow> h' ! a = h ! a) \<Longrightarrow>
     wt t h' v \<and> reach t h' v = reach t h v \<and> alike t h v h' v"
  "wts ts h vs \<Longrightarrow> length h \<le> length h' \<Longrightarrow> (\<And>a. a \<in> reaches ts h vs \<Longrightarrow> h' ! a = h ! a) \<Longrightarrow>
     wts ts h' vs \<and> reaches ts h' vs = reaches ts h vs \<and> alikes ts h vs h' vs"
proof (induction t h v and ts h vs rule: wt_wts.induct)
  case (3 t h v)
  show ?case
  proof (cases v)
    case (Ref r)
    show ?thesis
    proof (cases r)
      case (Some a)
      have a: "a < length h" "h' ! a = h ! a" using 3(2,4) Ref Some by auto
      have "wt t h' x \<and> reach t h' x = reach t h x \<and> alike t h x h' x" if "x \<in> set (h ! a)" for x
        by (rule 3(1) [OF Ref Some]) (use 3(2,3,4) Ref Some that in auto)
      then show ?thesis using a 3(3) by (auto simp: Ref Some list_all2_same)
    qed (simp add: Ref)
  qed (use 3 in auto)
qed (auto split: gv.splits list.splits)

lemma reach_bound:
  "wt t h v \<Longrightarrow> reach t h v \<subseteq> {..<length h}"
  "wts ts h vs \<Longrightarrow> reaches ts h vs \<subseteq> {..<length h}"
  by (induction t h v and ts h vs rule: wt_wts.induct) (auto split: gv.splits option.splits list.splits)

lemma extend:
  assumes "wt t h v"
  shows "wt t (h @ new) v" "reach t (h @ new) v = reach t h v" "alike t h v (h @ new) v"
proof -
  have "(h @ new) ! a = h ! a" if "a \<in> reach t h v" for a using reach_bound(1) [OF assms] that by (auto simp: nth_append)
  from agree(1) [OF assms _ this] show "wt t (h @ new) v" "reach t (h @ new) v = reach t h v" "alike t h v (h @ new) v" by auto
qed

lemma alike_trans:
  "alike t h v h1 v1 \<Longrightarrow> alike t h1 v1 h2 v2 \<Longrightarrow> alike t h v h2 v2"
  "alikes ts h vs h1 vs1 \<Longrightarrow> alikes ts h1 vs1 h2 vs2 \<Longrightarrow> alikes ts h vs h2 vs2"
proof (induction t h v h1 v1 and ts h vs h1 vs1 arbitrary: v2 and vs2 rule: alike_alikes.induct)
  case (2 ts h v h1 v1)
  then show ?case by (cases v; cases v1; cases v2) auto
next
  case (3 t h v h1 v1)
  show ?case
  proof (cases v)
    case (Ref r)
    from 3(2,3) Ref obtain r1 r2 where r: "v1 = Ref r1" "v2 = Ref r2" by (cases v1; cases v2) (auto split: option.splits)
    show ?thesis
    proof (cases r)
      case (Some a)
      from 3(2,3) obtain a1 a2 where a: "r1 = Some a1" "r2 = Some a2"
        "list_all2 (\<lambda>x x'. alike t h x h1 x') (h ! a) (h1 ! a1)" "list_all2 (\<lambda>x x'. alike t h1 x h2 x') (h1 ! a1) (h2 ! a2)"
        by (auto simp: Ref Some r split: option.splits)
      have len: "length (h ! a) = length (h1 ! a1)" "length (h1 ! a1) = length (h2 ! a2)"
        using a(3,4) by (auto dest: list_all2_lengthD)
      have "alike t h (h ! a ! i) h2 (h2 ! a2 ! i)" if "i < length (h ! a)" for i
        by (rule 3(1) [OF refl Ref Some r(1) a(1)])
          (use that len list_all2_nthD [OF a(3)] list_all2_nthD [OF a(4)] in \<open>auto intro: nth_mem\<close>)
      then have "list_all2 (\<lambda>x x'. alike t h x h2 x') (h ! a) (h2 ! a2)" using len by (intro list_all2_all_nthI) auto
      then show ?thesis by (simp add: Ref Some r a)
    qed (use 3(2,3) in \<open>auto simp: Ref r split: option.splits\<close>)
  qed (use 3(2) in auto)
next
  case (5 t ts h vs h1 vs1)
  then show ?case by (cases vs; cases vs1; cases vs2) auto
qed simp_all

lemma extends:
  assumes "wts ts h vs"
  shows "wts ts (h @ new) vs" "reaches ts (h @ new) vs = reaches ts h vs" "alikes ts h vs (h @ new) vs"
  using extend [of "TRec ts" h "Rec vs" new] assms by simp_all

text \<open>The elements of a block as the fields of a struct whose fields have all one type.\<close>

lemma wts_replicate: "wts (replicate (length vs) t) h vs \<longleftrightarrow> (\<forall>x\<in>set vs. wt t h x)"
  by (induction vs) auto

lemma reaches_replicate: "reaches (replicate (length vs) t) h vs = (\<Union>x\<in>set vs. reach t h x)"
  by (induction vs) auto

lemma alikes_replicate:
  "alikes (replicate (length vs) t) h vs h' vs' \<longleftrightarrow> list_all2 (\<lambda>x x'. alike t h x h' x') vs vs'"
proof (induction vs arbitrary: vs')
  case (Cons v vs)
  then show ?case by (cases vs') auto
qed simp

subsection \<open>Deep copiers\<close>

definition deep :: "copier \<Rightarrow> gtype \<Rightarrow> bool" where
  "deep c t \<longleftrightarrow> (\<forall>h v v' h'. wt t h v \<longrightarrow> c v h = (v', h') \<longrightarrow>
     (\<exists>new. h' = h @ new) \<and> wt t h' v' \<and> alike t h v h' v' \<and> reach t h' v' \<subseteq> {length h..<length h'})"

lemma deepD:
  assumes "deep c t" "wt t h v" "c v h = (v', h')"
  obtains new where "h' = h @ new" "wt t h' v'" "alike t h v h' v'" "reach t h' v' \<subseteq> {length h..<length h'}"
  using assms unfolding deep_def by blast

lemma copy_all_deep:
  "list_all2 deep cs ts \<Longrightarrow> wts ts h vs \<Longrightarrow> copy_all cs vs h = (vs', h') \<Longrightarrow>
   (\<exists>new. h' = h @ new) \<and> wts ts h' vs' \<and> alikes ts h vs h' vs' \<and> reaches ts h' vs' \<subseteq> {length h..<length h'}"
proof (induction cs ts arbitrary: vs vs' h h' rule: list_all2_induct)
  case (Cons c cs t ts)
  from Cons.prems(1) obtain v us where vs: "vs = v # us" "wt t h v" "wts ts h us" by (cases vs) auto
  obtain v1 h1 where c: "c v h = (v1, h1)" by fastforce
  obtain us' h2 where cs: "copy_all cs us h1 = (us', h2)" by fastforce
  have res: "vs' = v1 # us'" "h' = h2" using Cons.prems(2) by (simp_all add: vs c cs)
  from deepD [OF Cons.hyps(1) vs(2) c] obtain n1 where
    one: "h1 = h @ n1" "wt t h1 v1" "alike t h v h1 v1" "reach t h1 v1 \<subseteq> {length h..<length h1}" .
  note ext = extends [OF vs(3), of n1, folded one(1)]
  from Cons.IH [OF ext(1) cs] obtain n2 where
    rest: "h2 = h1 @ n2" "wts ts h2 us'" "alikes ts h1 us h2 us'" "reaches ts h2 us' \<subseteq> {length h1..<length h2}" by blast
  note ext1 = extend [OF one(2), of n2, folded rest(1)]
  have "alike t h v h2 v1" using alike_trans(1) [OF one(3) ext1(3)] .
  moreover have "alikes ts h us h2 us'" using alike_trans(2) [OF ext(3) rest(3)] .
  moreover have "reach t h2 v1 \<union> reaches ts h2 us' \<subseteq> {length h..<length h2}"
    using one(4) rest(4) ext1(2) by (auto simp: one(1) rest(1))
  ultimately show ?case using ext1(1) rest(2) by (auto simp: vs res one(1) rest(1))
qed simp

named_theorems deep_rules

lemma deep_each_field [deep_rules]: "list_all2 deep cs ts \<Longrightarrow> deep (each_field cs) (TRec ts)"
proof -
  assume cs: "list_all2 deep cs ts"
  show ?thesis
    unfolding deep_def
  proof (intro allI impI)
    fix h v v' h' assume v: "wt (TRec ts) h v" and c: "each_field cs v h = (v', h')"
    from v obtain vs where vs: "v = Rec vs" "wts ts h vs" by (cases v) auto
    obtain vs' h1 where all: "copy_all cs vs h = (vs', h1)" by fastforce
    have "v' = Rec vs'" "h' = h1" using c by (simp_all add: each_field_def vs all)
    with copy_all_deep [OF cs vs(2) all] show "(\<exists>new. h' = h @ new) \<and> wt (TRec ts) h' v' \<and> alike (TRec ts) h v h' v' \<and>
        reach (TRec ts) h' v' \<subseteq> {length h..<length h'}" by (simp add: vs)
  qed
qed

lemma deep_block [deep_rules]:
  assumes "deep c t"
  shows "deep (block c) (TRef t)"
  unfolding deep_def
proof (intro allI impI)
  fix h v v' h' assume v: "wt (TRef t) h v" and c: "block c v h = (v', h')"
  show "(\<exists>new. h' = h @ new) \<and> wt (TRef t) h' v' \<and> alike (TRef t) h v h' v' \<and> reach (TRef t) h' v' \<subseteq> {length h..<length h'}"
  proof (cases "v = Ref None")
    case True
    then have "v' = Ref None" "h' = h" using c by (simp_all add: block_def)
    with True show ?thesis by simp
  next
    case False
    with v obtain a where a: "v = Ref (Some a)" "a < length h" "\<forall>x\<in>set (h ! a). wt t h x" by (cases v) (auto split: option.splits)
    let ?n = "length (h ! a)"
    obtain vs h1 where all: "copy_all (replicate ?n c) (h ! a) h = (vs, h1)" by fastforce
    have "list_all2 deep (replicate ?n c) (replicate ?n t)" using assms by (simp add: list_all2_conv_all_nth)
    from copy_all_deep [OF this _ all] a(3) obtain new where
      new: "h1 = h @ new" "wts (replicate ?n t) h1 vs" "alikes (replicate ?n t) h (h ! a) h1 vs"
        "reaches (replicate ?n t) h1 vs \<subseteq> {length h..<length h1}" by (auto simp: wts_replicate)
    have len: "length vs = ?n" using new(3) by (auto simp: alikes_replicate dest: list_all2_lengthD)
    have v': "v' = Ref (Some (length h1))" "h' = h1 @ [vs]" using c by (simp_all add: block_def a(1) all)
    note ext = extends [OF new(2), of "[vs]", folded v'(2)]
    have "alikes (replicate ?n t) h (h ! a) h' vs" using alike_trans(2) [OF new(3) ext(3)] .
    then have "list_all2 (\<lambda>x x'. alike t h x h' x') (h ! a) vs" by (simp only: alikes_replicate)
    moreover have "\<forall>x\<in>set vs. wt t h' x" using ext(1) by (simp only: len [symmetric] wts_replicate)
    moreover have "(\<Union>x\<in>set vs. reach t h' x) \<subseteq> {length h..<length h1}"
      using ext(2) new(4) by (simp only: len [symmetric] reaches_replicate)
    moreover have "h' ! length h1 = vs" by (simp add: v'(2))
    ultimately show ?thesis by (auto simp: a(1) v' new(1))
  qed
qed

text \<open>Assignment copies what holds no reference.\<close>

fun flat :: "gtype \<Rightarrow> bool" where
  "flat TPrim = True"
| "flat (TRec ts) = list_all flat ts"
| "flat (TRef t) = False"

lemma flat_value:
  "flat t \<Longrightarrow> wt t h v \<Longrightarrow> reach t h v = {} \<and> alike t h v h v"
  "list_all flat ts \<Longrightarrow> wts ts h vs \<Longrightarrow> reaches ts h vs = {} \<and> alikes ts h vs h vs"
  by (induction t h v and ts h vs rule: wt_wts.induct) (auto split: gv.splits list.splits)

lemma deep_keep [deep_rules]: "flat t \<Longrightarrow> deep keep t"
  using flat_value(1) by (simp add: deep_def keep_def)

end
