(* ===== verification/ApiCopy.thy ===== *)
theory ApiCopy
  imports DeepCopy
begin

text \<open>
  The structs of the API group (\<open>src/operator/api/v1alpha1\<close>) and their \<open>DeepCopyInto\<close>. For every struct
  there is the layout of its fields, in the order of its declaration: \<open>TPrim\<close> for strings, numbers and
  booleans, \<open>TRef\<close> for pointers, slices and maps; and the copier, field by field: \<open>keep\<close> for what
  \<open>*out = *in\<close> or a plain assignment copies, \<open>block\<close> for what gets new memory.
\<close>

named_theorems copy_defs

section \<open>Library types\<close>

text \<open>The layouts and copiers of the types of \<open>metav1\<close>; entries of a map of strings.\<close>

record metav1 =
  mt_TypeMeta :: gtype
  mt_ObjectMeta :: gtype
  mt_ListMeta :: gtype
  mt_Condition :: gtype
  mt_LabelSelector :: gtype
  mc_ObjectMeta :: copier
  mc_ListMeta :: copier
  mc_Condition :: copier
  mc_LabelSelector :: copier

definition metav1_laws :: "metav1 \<Rightarrow> bool" where
  "metav1_laws m \<longleftrightarrow> flat (mt_TypeMeta m) \<and> deep (mc_ObjectMeta m) (mt_ObjectMeta m) \<and>
     deep (mc_ListMeta m) (mt_ListMeta m) \<and> deep (mc_Condition m) (mt_Condition m) \<and>
     deep (mc_LabelSelector m) (mt_LabelSelector m)"

definition map_entry :: gtype where [copy_defs]:
  "map_entry = TRec [TPrim, TPrim]"

section \<open>Structs and copiers\<close>

definition KeySelector_t :: "gtype" where [copy_defs]:
  "KeySelector_t = TRec [TPrim, TPrim]"

definition KeySelector_DeepCopyInto :: "copier" where [copy_defs]:
  "KeySelector_DeepCopyInto = keep"

definition ValueSource_t :: "gtype" where [copy_defs]:
  "ValueSource_t = TRec [TRef KeySelector_t, TRef KeySelector_t]"

definition ValueSource_DeepCopyInto :: "copier" where [copy_defs]:
  "ValueSource_DeepCopyInto = each_field [block keep, block keep]"

definition ValueRef_t :: "gtype" where [copy_defs]:
  "ValueRef_t = TRec [TPrim, TPrim, TRef ValueSource_t]"

definition ValueRef_DeepCopyInto :: "copier" where [copy_defs]:
  "ValueRef_DeepCopyInto = each_field [keep, keep, block ValueSource_DeepCopyInto]"

definition SingleValueRef_t :: "gtype" where [copy_defs]:
  "SingleValueRef_t = TRec [TPrim, TRef ValueSource_t]"

definition SingleValueRef_DeepCopyInto :: "copier" where [copy_defs]:
  "SingleValueRef_DeepCopyInto = each_field [keep, block ValueSource_DeepCopyInto]"

definition TypedReference_t :: "gtype" where [copy_defs]:
  "TypedReference_t = TRec [TPrim, TPrim, TPrim, TPrim]"

definition TypedReference_DeepCopyInto :: "copier" where [copy_defs]:
  "TypedReference_DeepCopyInto = keep"

definition AllowedNamespaces_t :: "metav1 \<Rightarrow> gtype" where [copy_defs]:
  "AllowedNamespaces_t m = TRec [TPrim, TRef (mt_LabelSelector m)]"

definition AllowedNamespaces_DeepCopyInto :: "metav1 \<Rightarrow> copier" where [copy_defs]:
  "AllowedNamespaces_DeepCopyInto m = each_field [keep, block (mc_LabelSelector m)]"

definition ResourceQuantity_t :: "gtype" where [copy_defs]:
  "ResourceQuantity_t = TRec [TPrim, TPrim]"

definition ResourceQuantity_DeepCopyInto :: "copier" where [copy_defs]:
  "ResourceQuantity_DeepCopyInto = keep"

definition ResourceSpec_t :: "gtype" where [copy_defs]:
  "ResourceSpec_t = TRec [TRef ResourceQuantity_t, TRef ResourceQuantity_t]"

definition ResourceSpec_DeepCopyInto :: "copier" where [copy_defs]:
  "ResourceSpec_DeepCopyInto = each_field [block keep, block keep]"

definition ContainerSpec_t :: "gtype" where [copy_defs]:
  "ContainerSpec_t = TRec [TPrim, TPrim, TPrim, TRef ResourceSpec_t, TPrim, TRef TPrim, TPrim, TPrim]"

definition ContainerSpec_DeepCopyInto :: "copier" where [copy_defs]:
  "ContainerSpec_DeepCopyInto = each_field [
     keep, keep, keep, block ResourceSpec_DeepCopyInto, keep, block keep, keep, keep]"

definition QueueBinding_t :: "gtype" where [copy_defs]:
  "QueueBinding_t = TRec [TPrim, TPrim, TPrim]"

definition QueueBinding_DeepCopyInto :: "copier" where [copy_defs]:
  "QueueBinding_DeepCopyInto = keep"

definition KEDASpec_t :: "gtype" where [copy_defs]:
  "KEDASpec_t = TRec [TPrim, TPrim, TPrim, TPrim, TPrim, TPrim, TPrim]"

definition KEDASpec_DeepCopyInto :: "copier" where [copy_defs]:
  "KEDASpec_DeepCopyInto = keep"

definition ScalingSpec_t :: "gtype" where [copy_defs]:
  "ScalingSpec_t = TRec [TPrim, TRef TPrim, TRef KEDASpec_t]"

definition ScalingSpec_DeepCopyInto :: "copier" where [copy_defs]:
  "ScalingSpec_DeepCopyInto = each_field [keep, block keep, block keep]"

definition ResurrectionSpec_t :: "gtype" where [copy_defs]:
  "ResurrectionSpec_t = TRec [TPrim, TPrim]"

definition ResurrectionSpec_DeepCopyInto :: "copier" where [copy_defs]:
  "ResurrectionSpec_DeepCopyInto = keep"

definition ContextManagementSpec_t :: "gtype" where [copy_defs]:
  "ContextManagementSpec_t = TRec [TPrim, TPrim, TPrim, TRef TypedReference_t, TPrim, TRef ResurrectionSpec_t]"

definition ContextManagementSpec_DeepCopyInto :: "copier" where [copy_defs]:
  "ContextManagementSpec_DeepCopyInto = each_field [keep, keep, keep, block keep, keep, block keep]"

definition SkillSpec_t :: "gtype" where [copy_defs]:
  "SkillSpec_t = TRec [TPrim, TPrim, TPrim, TRef TPrim, TRef TPrim]"

definition SkillSpec_DeepCopyInto :: "copier" where [copy_defs]:
  "SkillSpec_DeepCopyInto = each_field [keep, keep, keep, block keep, block keep]"

definition CapabilitiesSpec_t :: "gtype" where [copy_defs]:
  "CapabilitiesSpec_t = TRec [TPrim, TPrim]"

definition CapabilitiesSpec_DeepCopyInto :: "copier" where [copy_defs]:
  "CapabilitiesSpec_DeepCopyInto = keep"

definition AgentCardInline_t :: "gtype" where [copy_defs]:
  "AgentCardInline_t = TRec [TPrim, TPrim, TPrim, TRef SkillSpec_t, TRef TPrim, TRef TPrim, TRef CapabilitiesSpec_t]"

definition AgentCardInline_DeepCopyInto :: "copier" where [copy_defs]:
  "AgentCardInline_DeepCopyInto = each_field [
     keep, keep, keep, block SkillSpec_DeepCopyInto, block keep, block keep, block keep]"

definition AgentRuntimeSpec_t :: "metav1 \<Rightarrow> gtype" where [copy_defs]:
  "AgentRuntimeSpec_t m = TRec [
     TPrim, TPrim, ContainerSpec_t, QueueBinding_t, TRef ScalingSpec_t, TRef AgentCardInline_t, TRef
     TypedReference_t, TRef TypedReference_t, TRef TypedReference_t, TRef ContextManagementSpec_t, TRef
     (AllowedNamespaces_t m), TRef ValueRef_t]"

definition AgentRuntimeSpec_DeepCopyInto :: "metav1 \<Rightarrow> copier" where [copy_defs]:
  "AgentRuntimeSpec_DeepCopyInto m = each_field [
     keep, keep, ContainerSpec_DeepCopyInto, keep, block ScalingSpec_DeepCopyInto, block
     AgentCardInline_DeepCopyInto, block keep, block keep, block keep, block ContextManagementSpec_DeepCopyInto,
     block (AllowedNamespaces_DeepCopyInto m), block ValueRef_DeepCopyInto]"

definition ContextUsageStatus_t :: "gtype" where [copy_defs]:
  "ContextUsageStatus_t = TRec [TPrim, TPrim, TPrim, TPrim, TPrim]"

definition ContextUsageStatus_DeepCopyInto :: "copier" where [copy_defs]:
  "ContextUsageStatus_DeepCopyInto = keep"

definition AgentRuntimeStatus_t :: "metav1 \<Rightarrow> gtype" where [copy_defs]:
  "AgentRuntimeStatus_t m = TRec [
     TRef (mt_Condition m), TPrim, TPrim, TPrim, TPrim, TPrim, TPrim, TRef ContextUsageStatus_t]"

definition AgentRuntimeStatus_DeepCopyInto :: "metav1 \<Rightarrow> copier" where [copy_defs]:
  "AgentRuntimeStatus_DeepCopyInto m = each_field [
     block (mc_Condition m), keep, keep, keep, keep, keep, keep, block keep]"

definition AgentRuntime_t :: "metav1 \<Rightarrow> gtype" where [copy_defs]:
  "AgentRuntime_t m = TRec [mt_TypeMeta m, mt_ObjectMeta m, AgentRuntimeSpec_t m, AgentRuntimeStatus_t m]"

definition AgentRuntime_DeepCopyInto :: "metav1 \<Rightarrow> copier" where [copy_defs]:
  "AgentRuntime_DeepCopyInto m = each_field [
     keep, mc_ObjectMeta m, AgentRuntimeSpec_DeepCopyInto m, AgentRuntimeStatus_DeepCopyInto m]"

definition AgentRuntimeList_t :: "metav1 \<Rightarrow> gtype" where [copy_defs]:
  "AgentRuntimeList_t m = TRec [mt_TypeMeta m, mt_ListMeta m, TRef (AgentRuntime_t m)]"

definition AgentRuntimeList_DeepCopyInto :: "metav1 \<Rightarrow> copier" where [copy_defs]:
  "AgentRuntimeList_DeepCopyInto m = each_field [keep, mc_ListMeta m, block (AgentRuntime_DeepCopyInto m)]"

definition AgentCardSpec_t :: "gtype" where [copy_defs]:
  "AgentCardSpec_t = TRec [
     TPrim, TPrim, TPrim, TRef SkillSpec_t, TRef TPrim, TRef TPrim, TRef CapabilitiesSpec_t, TPrim]"

definition AgentCardSpec_DeepCopyInto :: "copier" where [copy_defs]:
  "AgentCardSpec_DeepCopyInto = each_field [
     keep, keep, keep, block SkillSpec_DeepCopyInto, block keep, block keep, block keep, keep]"

definition AgentCardStatus_t :: "metav1 \<Rightarrow> gtype" where [copy_defs]:
  "AgentCardStatus_t m = TRec [TRef (mt_Condition m), TPrim, TRef TPrim]"

definition AgentCardStatus_DeepCopyInto :: "metav1 \<Rightarrow> copier" where [copy_defs]:
  "AgentCardStatus_DeepCopyInto m = each_field [block (mc_Condition m), keep, block keep]"

definition AgentCard_t :: "metav1 \<Rightarrow> gtype" where [copy_defs]:
  "AgentCard_t m = TRec [mt_TypeMeta m, mt_ObjectMeta m, AgentCardSpec_t, AgentCardStatus_t m]"

definition AgentCard_DeepCopyInto :: "metav1 \<Rightarrow> copier" where [copy_defs]:
  "AgentCard_DeepCopyInto m = each_field [
     keep, mc_ObjectMeta m, AgentCardSpec_DeepCopyInto, AgentCardStatus_DeepCopyInto m]"

definition AgentCardList_t :: "metav1 \<Rightarrow> gtype" where [copy_defs]:
  "AgentCardList_t m = TRec [mt_TypeMeta m, mt_ListMeta m, TRef (AgentCard_t m)]"

definition AgentCardList_DeepCopyInto :: "metav1 \<Rightarrow> copier" where [copy_defs]:
  "AgentCardList_DeepCopyInto m = each_field [keep, mc_ListMeta m, block (AgentCard_DeepCopyInto m)]"

definition MCPServerSpec_t :: "metav1 \<Rightarrow> gtype" where [copy_defs]:
  "MCPServerSpec_t m = TRec [
     TPrim, TPrim, TRef TPrim, TRef ValueRef_t, TRef TPrim, TPrim, TRef (AllowedNamespaces_t m)]"

definition MCPServerSpec_DeepCopyInto :: "metav1 \<Rightarrow> copier" where [copy_defs]:
  "MCPServerSpec_DeepCopyInto m = each_field [
     keep, keep, block keep, block ValueRef_DeepCopyInto, block keep, keep, block (AllowedNamespaces_DeepCopyInto
     m)]"

definition MCPServerStatus_t :: "metav1 \<Rightarrow> gtype" where [copy_defs]:
  "MCPServerStatus_t m = TRec [TRef (mt_Condition m), TPrim, TRef TPrim]"

definition MCPServerStatus_DeepCopyInto :: "metav1 \<Rightarrow> copier" where [copy_defs]:
  "MCPServerStatus_DeepCopyInto m = each_field [block (mc_Condition m), keep, block keep]"

definition MCPServer_t :: "metav1 \<Rightarrow> gtype" where [copy_defs]:
  "MCPServer_t m = TRec [mt_TypeMeta m, mt_ObjectMeta m, MCPServerSpec_t m, MCPServerStatus_t m]"

definition MCPServer_DeepCopyInto :: "metav1 \<Rightarrow> copier" where [copy_defs]:
  "MCPServer_DeepCopyInto m = each_field [
     keep, mc_ObjectMeta m, MCPServerSpec_DeepCopyInto m, MCPServerStatus_DeepCopyInto m]"

definition MCPServerList_t :: "metav1 \<Rightarrow> gtype" where [copy_defs]:
  "MCPServerList_t m = TRec [mt_TypeMeta m, mt_ListMeta m, TRef (MCPServer_t m)]"

definition MCPServerList_DeepCopyInto :: "metav1 \<Rightarrow> copier" where [copy_defs]:
  "MCPServerList_DeepCopyInto m = each_field [keep, mc_ListMeta m, block (MCPServer_DeepCopyInto m)]"

definition ModelConfigSpec_t :: "metav1 \<Rightarrow> gtype" where [copy_defs]:
  "ModelConfigSpec_t m = TRec [
     TPrim, TPrim, TPrim, TRef SingleValueRef_t, TRef map_entry, TRef ValueRef_t, TRef (AllowedNamespaces_t m)]"

definition ModelConfigSpec_DeepCopyInto :: "metav1 \<Rightarrow> copier" where [copy_defs]:
  "ModelConfigSpec_DeepCopyInto m = each_field [
     keep, keep, keep, block SingleValueRef_DeepCopyInto, block keep, block ValueRef_DeepCopyInto, block
     (AllowedNamespaces_DeepCopyInto m)]"

definition ModelConfigStatus_t :: "metav1 \<Rightarrow> gtype" where [copy_defs]:
  "ModelConfigStatus_t m = TRec [TRef (mt_Condition m), TPrim, TPrim]"

definition ModelConfigStatus_DeepCopyInto :: "metav1 \<Rightarrow> copier" where [copy_defs]:
  "ModelConfigStatus_DeepCopyInto m = each_field [block (mc_Condition m), keep, keep]"

definition ModelConfig_t :: "metav1 \<Rightarrow> gtype" where [copy_defs]:
  "ModelConfig_t m = TRec [mt_TypeMeta m, mt_ObjectMeta m, ModelConfigSpec_t m, ModelConfigStatus_t m]"

definition ModelConfig_DeepCopyInto :: "metav1 \<Rightarrow> copier" where [copy_defs]:
  "ModelConfig_DeepCopyInto m = each_field [
     keep, mc_ObjectMeta m, ModelConfigSpec_DeepCopyInto m, ModelConfigStatus_DeepCopyInto m]"

definition ModelConfigList_t :: "metav1 \<Rightarrow> gtype" where [copy_defs]:
  "ModelConfigList_t m = TRec [mt_TypeMeta m, mt_ListMeta m, TRef (ModelConfig_t m)]"

definition ModelConfigList_DeepCopyInto :: "metav1 \<Rightarrow> copier" where [copy_defs]:
  "ModelConfigList_DeepCopyInto m = each_field [keep, mc_ListMeta m, block (ModelConfig_DeepCopyInto m)]"

definition PipelineTask_t :: "gtype" where [copy_defs]:
  "PipelineTask_t = TRec [TPrim, TypedReference_t, TPrim, TPrim, TPrim]"

definition PipelineTask_DeepCopyInto :: "copier" where [copy_defs]:
  "PipelineTask_DeepCopyInto = keep"

definition PipelineStage_t :: "gtype" where [copy_defs]:
  "PipelineStage_t = TRec [TPrim, TRef PipelineTask_t, TRef TPrim]"

definition PipelineStage_DeepCopyInto :: "copier" where [copy_defs]:
  "PipelineStage_DeepCopyInto = each_field [keep, block keep, block keep]"

definition TaskPipelineSpec_t :: "gtype" where [copy_defs]:
  "TaskPipelineSpec_t = TRec [TPrim, TRef PipelineStage_t, TPrim, TPrim]"

definition TaskPipelineSpec_DeepCopyInto :: "copier" where [copy_defs]:
  "TaskPipelineSpec_DeepCopyInto = each_field [keep, block PipelineStage_DeepCopyInto, keep, keep]"

definition TaskPipelineStatus_t :: "metav1 \<Rightarrow> gtype" where [copy_defs]:
  "TaskPipelineStatus_t m = TRec [TRef (mt_Condition m), TPrim, TPrim, TPrim]"

definition TaskPipelineStatus_DeepCopyInto :: "metav1 \<Rightarrow> copier" where [copy_defs]:
  "TaskPipelineStatus_DeepCopyInto m = each_field [block (mc_Condition m), keep, keep, keep]"

definition TaskPipeline_t :: "metav1 \<Rightarrow> gtype" where [copy_defs]:
  "TaskPipeline_t m = TRec [mt_TypeMeta m, mt_ObjectMeta m, TaskPipelineSpec_t, TaskPipelineStatus_t m]"

definition TaskPipeline_DeepCopyInto :: "metav1 \<Rightarrow> copier" where [copy_defs]:
  "TaskPipeline_DeepCopyInto m = each_field [
     keep, mc_ObjectMeta m, TaskPipelineSpec_DeepCopyInto, TaskPipelineStatus_DeepCopyInto m]"

definition TaskPipelineList_t :: "metav1 \<Rightarrow> gtype" where [copy_defs]:
  "TaskPipelineList_t m = TRec [mt_TypeMeta m, mt_ListMeta m, TRef (TaskPipeline_t m)]"

definition TaskPipelineList_DeepCopyInto :: "metav1 \<Rightarrow> copier" where [copy_defs]:
  "TaskPipelineList_DeepCopyInto m = each_field [keep, mc_ListMeta m, block (TaskPipeline_DeepCopyInto m)]"

definition api_types :: "metav1 \<Rightarrow> (copier \<times> gtype) list" where
  "api_types m =
     [(KeySelector_DeepCopyInto, KeySelector_t),
      (ValueSource_DeepCopyInto, ValueSource_t),
      (ValueRef_DeepCopyInto, ValueRef_t),
      (SingleValueRef_DeepCopyInto, SingleValueRef_t),
      (TypedReference_DeepCopyInto, TypedReference_t),
      (AllowedNamespaces_DeepCopyInto m, AllowedNamespaces_t m),
      (ResourceQuantity_DeepCopyInto, ResourceQuantity_t),
      (ResourceSpec_DeepCopyInto, ResourceSpec_t),
      (ContainerSpec_DeepCopyInto, ContainerSpec_t),
      (QueueBinding_DeepCopyInto, QueueBinding_t),
      (KEDASpec_DeepCopyInto, KEDASpec_t),
      (ScalingSpec_DeepCopyInto, ScalingSpec_t),
      (ResurrectionSpec_DeepCopyInto, ResurrectionSpec_t),
      (ContextManagementSpec_DeepCopyInto, ContextManagementSpec_t),
      (SkillSpec_DeepCopyInto, SkillSpec_t),
      (CapabilitiesSpec_DeepCopyInto, CapabilitiesSpec_t),
      (AgentCardInline_DeepCopyInto, AgentCardInline_t),
      (AgentRuntimeSpec_DeepCopyInto m, AgentRuntimeSpec_t m),
      (ContextUsageStatus_DeepCopyInto, ContextUsageStatus_t),
      (AgentRuntimeStatus_DeepCopyInto m, AgentRuntimeStatus_t m),
      (AgentRuntime_DeepCopyInto m, AgentRuntime_t m),
      (AgentRuntimeList_DeepCopyInto m, AgentRuntimeList_t m),
      (AgentCardSpec_DeepCopyInto, AgentCardSpec_t),
      (AgentCardStatus_DeepCopyInto m, AgentCardStatus_t m),
      (AgentCard_DeepCopyInto m, AgentCard_t m),
      (AgentCardList_DeepCopyInto m, AgentCardList_t m),
      (MCPServerSpec_DeepCopyInto m, MCPServerSpec_t m),
      (MCPServerStatus_DeepCopyInto m, MCPServerStatus_t m),
      (MCPServer_DeepCopyInto m, MCPServer_t m),
      (MCPServerList_DeepCopyInto m, MCPServerList_t m),
      (ModelConfigSpec_DeepCopyInto m, ModelConfigSpec_t m),
      (ModelConfigStatus_DeepCopyInto m, ModelConfigStatus_t m),
      (ModelConfig_DeepCopyInto m, ModelConfig_t m),
      (ModelConfigList_DeepCopyInto m, ModelConfigList_t m),
      (PipelineTask_DeepCopyInto, PipelineTask_t),
      (PipelineStage_DeepCopyInto, PipelineStage_t),
      (TaskPipelineSpec_DeepCopyInto, TaskPipelineSpec_t),
      (TaskPipelineStatus_DeepCopyInto m, TaskPipelineStatus_t m),
      (TaskPipeline_DeepCopyInto m, TaskPipeline_t m),
      (TaskPipelineList_DeepCopyInto m, TaskPipelineList_t m)]"

section \<open>Properties\<close>

text \<open>All copiers of the API are deep: field by field they follow the layout of their struct.\<close>

lemma api_deep:
  assumes "metav1_laws m" "(c, t) \<in> set (api_types m)"
  shows "deep c t"
proof -
  have "list_all (\<lambda>(c, t). deep c t) (api_types m)"
    using assms(1) unfolding api_types_def list.pred_inject prod.case
    by (intro conjI) (auto simp: copy_defs metav1_laws_def intro!: deep_rules)
  with assms(2) show ?thesis by (auto simp: list_all_iff)
qed

text \<open>C35: \<open>DeepCopy\<close> of any object of the API group, in any memory, returns an object that holds the same,
  in memory that was not there before, and changes nothing else. Original and copy share no block
  at all, so whatever is written through the copy afterwards, the original still holds what it held.\<close>

theorem DeepCopy_independent:
  assumes "metav1_laws m" "(c, t) \<in> set (api_types m)" "wt (TRef t) h p" "DeepCopy c p h = (q, h')"
  shows "DeepCopyObject c p h = (q, h') \<and> (\<exists>new. h' = h @ new) \<and> wt (TRef t) h' q \<and> alike (TRef t) h p h' q \<and>
    reach (TRef t) h' p \<inter> reach (TRef t) h' q = {} \<and>
    (\<forall>h2. length h2 = length h' \<longrightarrow> (\<forall>a. a \<notin> reach (TRef t) h' q \<longrightarrow> h2 ! a = h' ! a) \<longrightarrow> alike (TRef t) h p h2 p)"
proof -
  have object: "DeepCopyObject c p h = (q, h')" using assms(4) by (auto simp: DeepCopyObject_def)
  have "block c p h = (q, h')" using assms(4) by (simp only: DeepCopy_def)
  from deepD [OF deep_block [OF api_deep [OF assms(1,2)]] assms(3) this] obtain new where
    new: "h' = h @ new" "wt (TRef t) h' q" "alike (TRef t) h p h' q" "reach (TRef t) h' q \<subseteq> {length h..<length h'}" .
  have old: "reach (TRef t) h p \<subseteq> {..<length h}" by (rule reach_bound(1) [OF assms(3)])
  have kept: "alike (TRef t) h p h2 p" if "length h2 = length h'" and same: "\<And>a. a \<notin> reach (TRef t) h' q \<Longrightarrow> h2 ! a = h' ! a" for h2
  proof -
    have "h2 ! a = h ! a" if "a \<in> reach (TRef t) h p" for a
    proof -
      have a: "a < length h" using old that by blast
      then have "a \<notin> reach (TRef t) h' q" using new(4) by (meson atLeastLessThan_iff in_mono not_less)
      then have "h2 ! a = h' ! a" by (rule same)
      then show ?thesis using a by (simp add: new(1) nth_append)
    qed
    then show ?thesis using agree(1) [OF assms(3), of h2] that(1) new(1) by simp
  qed
  have "reach (TRef t) h' p = reach (TRef t) h p" using extend(2) [OF assms(3), of new] new(1) by simp
  with old new(4) have "reach (TRef t) h' p \<inter> reach (TRef t) h' q = {}" by (metis atLeastLessThan_iff disjoint_iff in_mono lessThan_iff not_less)
  then show ?thesis using object new kept by blast
qed

definition example_metav1 :: metav1 where
  "example_metav1 = \<lparr>mt_TypeMeta = TRec [TPrim, TPrim], mt_ObjectMeta = TPrim, mt_ListMeta = TPrim, mt_Condition = TPrim,
     mt_LabelSelector = TPrim, mc_ObjectMeta = keep, mc_ListMeta = keep, mc_Condition = keep, mc_LabelSelector = keep\<rparr>"

definition example_heap :: heap where
  "example_heap = [[Prim ''text''], [Rec [Prim ''review'', Prim ''Review'', Prim [], Ref (Some 0), Ref None]]]"

theorem DeepCopy_independent_witness:
  "DeepCopy SkillSpec_DeepCopyInto (Ref (Some 1)) example_heap =
     (Ref (Some 3), example_heap @ [[Prim ''text''], [Rec [Prim ''review'', Prim ''Review'', Prim [], Ref (Some 2), Ref None]]]) \<and>
   alike (TRef SkillSpec_t) example_heap (Ref (Some 1))
     (example_heap @ [[Prim ''other''], [Rec [Prim ''plan'', Prim [], Prim [], Ref None, Ref None]]]) (Ref (Some 1))"
proof -
  let ?new = "[[Prim ''text''], [Rec [Prim ''review'', Prim ''Review'', Prim [], Ref (Some 2), Ref None]]]"
  let ?h2 = "example_heap @ [[Prim ''other''], [Rec [Prim ''plan'', Prim [], Prim [], Ref None, Ref None]]]"
  have laws: "metav1_laws example_metav1"
    by (simp add: metav1_laws_def example_metav1_def deep_keep)
  have t: "(SkillSpec_DeepCopyInto, SkillSpec_t) \<in> set (api_types example_metav1)" by (simp add: api_types_def)
  have wt: "wt (TRef SkillSpec_t) example_heap (Ref (Some 1))" by (simp add: SkillSpec_t_def example_heap_def)
  have run: "DeepCopy SkillSpec_DeepCopyInto (Ref (Some 1)) example_heap = (Ref (Some 3), example_heap @ ?new)"
    by (simp add: DeepCopy_def block_def each_field_def keep_def SkillSpec_DeepCopyInto_def example_heap_def)
  have reach: "reach (TRef SkillSpec_t) (example_heap @ ?new) (Ref (Some 3)) = {2, 3}"
    by (auto simp: SkillSpec_t_def example_heap_def)
  have len: "length ?h2 = length (example_heap @ ?new)" by simp
  have rest: "\<forall>a. a \<notin> reach (TRef SkillSpec_t) (example_heap @ ?new) (Ref (Some 3)) \<longrightarrow> ?h2 ! a = (example_heap @ ?new) ! a"
    unfolding reach by (auto simp: example_heap_def nth_Cons split: nat.splits)
  show ?thesis
    using DeepCopy_independent [OF laws t wt run] run len rest by blast
qed

end
